(* ===== verification/Prelude.thy ===== *)
theory Prelude
  imports Main "HOL-Library.Word" "HOL-Library.Monad_Syntax" "HOL-Library.Char_ord"
begin

unbundle bit_operations_syntax

text \<open>
  Shared vocabulary of the development: the machine types, the result types, byte regions
  with checked access, little-endian codecs, C string routines and the bounded loop with its
  proof rules.

  A computation that may touch memory has a result of type \<open>('e + 'a) option\<close>: \<open>None\<close> is an
  access outside the object it was meant for (undefined behaviour in C), \<open>Some (Inl e)\<close> is an
  error the code reports, \<open>Some (Inr x)\<close> is a result. Proving \<open>r \<noteq> None\<close> is proving memory
  safety.
\<close>

section \<open>Types\<close>

type_synonym u8 = "8 word"
type_synonym u16 = "16 word"
type_synonym u32 = "32 word"
type_synonym u64 = "64 word"
type_synonym bytes = "u8 list"

named_theorems region_simps \<open>reads and writes of byte regions\<close>
named_theorems wp_simps \<open>rules that compute the weakest precondition of a result\<close>

abbreviation bytes_of :: "string \<Rightarrow> bytes" where
  "bytes_of s \<equiv> map of_char s"

text \<open>The range of each machine type.\<close>

lemma unat_u8_less: "unat (b :: u8) < 256"
  using unsigned_less [where 'a = nat, of b] by simp

lemma unat_u32_less: "unat (w :: u32) < 4294967296"
  using unsigned_less [where 'a = nat, of w] by simp

lemma unat_u64_less: "unat (w :: u64) < 18446744073709551616"
  using unsigned_less [where 'a = nat, of w] by simp

lemma of_char_u8_eq_iff [simp]: "(of_char c :: u8) = of_char d \<longleftrightarrow> c = d"
proof
  assume "(of_char c :: u8) = of_char d"
  then have "unat (of_char c :: u8) = unat (of_char d :: u8)" by simp
  moreover have "unat (of_char x :: u8) = of_char x" for x :: char
    by (cases x) simp
  ultimately show "c = d" by simp
qed simp

lemma of_char_u8_zero [simp]: "(of_char c :: u8) = 0 \<longleftrightarrow> c = CHR 0x00"
  using of_char_u8_eq_iff [of c "CHR 0x00"] by simp

lemma bytes_of_eq_iff: "bytes_of s = bytes_of t \<longleftrightarrow> s = t"
  by (simp add: inj_map_eq_map inj_def)

lemma unat_u32_Suc: "(w :: u32) + 1 \<noteq> 0 \<Longrightarrow> unat (w + 1) = Suc (unat w)"
  using unat_u32_less [of w]
  by (simp add: unat_word_ariths unat_eq_0 [symmetric] mod_Suc split: if_splits)

section \<open>Little-endian words\<close>

fun le_word :: "bytes \<Rightarrow> 'a::len word" where
  "le_word [] = 0"
| "le_word (b # bs) = ucast b OR push_bit 8 (le_word bs)"

fun le_bytes :: "nat \<Rightarrow> 'a::len word \<Rightarrow> bytes" where
  "le_bytes 0 w = []"
| "le_bytes (Suc n) w = ucast w # le_bytes n (drop_bit 8 w)"

lemma length_le_bytes [simp]: "length (le_bytes n w) = n"
  by (induction n arbitrary: w) simp_all

lemma le_word_le_bytes_take:
  "(le_word (le_bytes n w) :: 'a::len word) = take_bit (8 * n) (w :: 'a word)"
proof (induction n arbitrary: w)
  case 0
  then show ?case by simp
next
  case (Suc n)
  show ?case
    by (rule bit_word_eqI) (auto simp: Suc.IH bit_simps)
qed

lemma le_word_le_bytes: "8 * n = LENGTH('a) \<Longrightarrow> le_word (le_bytes n (w :: 'a::len word)) = w"
  by (simp add: le_word_le_bytes_take take_bit_word_eq_self)

lemma le_word_le_bytes32 [simp]: "le_word (le_bytes 4 (w :: u32)) = w"
  by (rule le_word_le_bytes) simp

lemma le_word_le_bytes64 [simp]: "le_word (le_bytes 8 (w :: u64)) = w"
  by (rule le_word_le_bytes) simp

section \<open>Byte regions\<close>

text \<open>A C object: its size in bytes and its contents. Offsets are relative to its start.\<close>

record region =
  rsize :: nat
  rbyte :: "nat \<Rightarrow> u8"

definition region_of :: "bytes \<Rightarrow> region" where
  "region_of bs = \<lparr>rsize = length bs, rbyte = (\<lambda>i. bs ! i)\<rparr>"

lemma region_of_simps [simp, region_simps]:
  "rsize (region_of bs) = length bs" "rbyte (region_of bs) i = bs ! i"
  by (simp_all add: region_of_def)

definition rslice :: "region \<Rightarrow> nat \<Rightarrow> nat \<Rightarrow> bytes" where
  "rslice r off n = map (\<lambda>i. rbyte r (off + i)) [0..<n]"

lemma length_rslice [simp, region_simps]: "length (rslice r off n) = n"
  by (simp add: rslice_def)

lemma nth_rslice [simp, region_simps]: "i < n \<Longrightarrow> rslice r off n ! i = rbyte r (off + i)"
  by (simp add: rslice_def)

lemma rslice_region_of:
  "off + n \<le> length bs \<Longrightarrow> rslice (region_of bs) off n = take n (drop off bs)"
  by (rule nth_equalityI) auto

text \<open>Checked reads and writes.\<close>

definition rd_bytes :: "region \<Rightarrow> nat \<Rightarrow> nat \<Rightarrow> bytes option" where
  "rd_bytes r off n = (if off + n \<le> rsize r then Some (rslice r off n) else None)"

definition rd8 :: "region \<Rightarrow> nat \<Rightarrow> u8 option" where
  "rd8 r off = (if off < rsize r then Some (rbyte r off) else None)"

definition rd32 :: "region \<Rightarrow> nat \<Rightarrow> u32 option" where
  "rd32 r off = (if off + 4 \<le> rsize r then Some (le_word (rslice r off 4)) else None)"

definition rd64 :: "region \<Rightarrow> nat \<Rightarrow> u64 option" where
  "rd64 r off = (if off + 8 \<le> rsize r then Some (le_word (rslice r off 8)) else None)"

definition wr_bytes :: "region \<Rightarrow> nat \<Rightarrow> bytes \<Rightarrow> region option" where
  "wr_bytes r off bs =
     (if off + length bs \<le> rsize r
      then Some (r\<lparr>rbyte := (\<lambda>i. if off \<le> i \<and> i < off + length bs
                                  then bs ! (i - off) else rbyte r i)\<rparr>)
      else None)"

definition wr32 :: "region \<Rightarrow> nat \<Rightarrow> u32 \<Rightarrow> region option" where
  "wr32 r off w = wr_bytes r off (le_bytes 4 w)"

definition wr64 :: "region \<Rightarrow> nat \<Rightarrow> u64 \<Rightarrow> region option" where
  "wr64 r off w = wr_bytes r off (le_bytes 8 w)"

lemma rd_not_None [region_simps]:
  "rd_bytes r off n \<noteq> None \<longleftrightarrow> off + n \<le> rsize r"
  "rd8 r off \<noteq> None \<longleftrightarrow> off < rsize r"
  "rd32 r off \<noteq> None \<longleftrightarrow> off + 4 \<le> rsize r"
  "rd64 r off \<noteq> None \<longleftrightarrow> off + 8 \<le> rsize r"
  by (simp_all add: rd_bytes_def rd8_def rd32_def rd64_def)

lemma wr_not_None [region_simps]:
  "wr_bytes r off bs \<noteq> None \<longleftrightarrow> off + length bs \<le> rsize r"
  "wr32 r off w \<noteq> None \<longleftrightarrow> off + 4 \<le> rsize r"
  "wr64 r off v \<noteq> None \<longleftrightarrow> off + 8 \<le> rsize r"
  by (simp_all add: wr_bytes_def wr32_def wr64_def)

lemma wr_bytes_SomeD:
  "wr_bytes r off bs = Some r' \<Longrightarrow>
     rsize r' = rsize r \<and> off + length bs \<le> rsize r
     \<and> (\<forall>i. rbyte r' i = (if off \<le> i \<and> i < off + length bs then bs ! (i - off) else rbyte r i))"
  by (auto simp: wr_bytes_def split: if_splits)

lemma wr32_SomeD: "wr32 r off w = Some r' \<Longrightarrow> rsize r' = rsize r"
  and wr64_SomeD: "wr64 r off v = Some r' \<Longrightarrow> rsize r' = rsize r"
  by (auto simp: wr32_def wr64_def dest: wr_bytes_SomeD)

lemma rslice_cong:
  "(\<And>i. off \<le> i \<Longrightarrow> i < off + n \<Longrightarrow> rbyte r i = rbyte r' i) \<Longrightarrow> rslice r off n = rslice r' off n"
  by (rule nth_equalityI) auto

text \<open>A write just behind a slice extends it; a write elsewhere leaves it.\<close>

lemma rslice_wr_append:
  assumes "wr_bytes r (a + n) bs = Some r'"
  shows "rslice r' a (n + length bs) = rslice r a n @ bs"
  using wr_bytes_SomeD [OF assms]
  by (intro nth_equalityI) (auto simp: nth_append)

lemma rslice_wr_other:
  assumes "wr_bytes r off bs = Some r'" and "a + n \<le> off \<or> off + length bs \<le> a"
  shows "rslice r' a n = rslice r a n"
  using wr_bytes_SomeD [OF assms(1)] assms(2)
  by (intro rslice_cong) auto

lemma rslice_wr_same: "wr_bytes r off bs = Some r' \<Longrightarrow> rslice r' off (length bs) = bs"
  using rslice_wr_append [of r off 0 bs r'] by (simp add: rslice_def)

lemma rslice_append: "rslice r a (n + m) = rslice r a n @ rslice r (a + n) m"
  by (rule nth_equalityI) (auto simp: nth_append)

text \<open>The bytes \<open>bs\<close> stand at an offset.\<close>

definition holds :: "region \<Rightarrow> nat \<Rightarrow> bytes \<Rightarrow> bool" where
  "holds r off bs \<longleftrightarrow> off + length bs \<le> rsize r \<and> rslice r off (length bs) = bs"

lemma holds_append [region_simps]:
  "holds r off (xs @ ys) \<longleftrightarrow> holds r off xs \<and> holds r (off + length xs) ys"
  by (auto simp: holds_def rslice_append)

lemma holds_wr_append:
  "holds r a xs \<Longrightarrow> wr_bytes r off ys = Some r' \<Longrightarrow> off = a + length xs \<Longrightarrow> holds r' a (xs @ ys)"
  using wr_bytes_SomeD [of r off ys r'] by (auto simp: holds_def rslice_wr_append)

lemma holds_wr_other:
  "holds r a xs \<Longrightarrow> wr_bytes r off ys = Some r' \<Longrightarrow> a + length xs \<le> off \<or> off + length ys \<le> a
     \<Longrightarrow> holds r' a xs"
  using wr_bytes_SomeD [of r off ys r'] by (auto simp: holds_def rslice_wr_other)

lemma holds_wr_same: "wr_bytes r off ys = Some r' \<Longrightarrow> holds r' off ys"
  using wr_bytes_SomeD [of r off ys r'] by (auto simp: holds_def rslice_wr_same)

lemma holds_Nil [simp]: "holds r off [] \<longleftrightarrow> off \<le> rsize r"
  by (auto simp: holds_def rslice_def)

lemma holds_rd:
  "holds r off (le_bytes 4 w) \<Longrightarrow> rd32 r off = Some w"
  "holds r off (le_bytes 8 v) \<Longrightarrow> rd64 r off = Some v"
  "holds r off bs \<Longrightarrow> length bs = n \<Longrightarrow> rd_bytes r off n = Some bs"
  by (auto simp: holds_def rd32_def rd64_def rd_bytes_def)

text \<open>An element of a C array, whose length is that of the list.\<close>

definition elem_at :: "'a list \<Rightarrow> nat \<Rightarrow> 'a option" where
  "elem_at xs i = (if i < length xs then Some (xs ! i) else None)"

lemma elem_at_Some [simp]: "i < length xs \<Longrightarrow> elem_at xs i = Some (xs ! i)"
  by (simp add: elem_at_def)

lemma rd32_wr32_same: "wr32 r off w = Some r' \<Longrightarrow> rd32 r' off = Some w"
proof -
  assume w: "wr32 r off w = Some r'"
  then have *: "wr_bytes r off (le_bytes 4 w) = Some r'"
    by (simp add: wr32_def)
  then have "rslice r' off 4 = le_bytes 4 w"
    by (intro nth_equalityI) (auto dest: wr_bytes_SomeD)
  with wr_bytes_SomeD [OF *] show ?thesis
    by (simp add: rd32_def)
qed

lemma rd64_wr64_same: "wr64 r off w = Some r' \<Longrightarrow> rd64 r' off = Some w"
proof -
  assume w: "wr64 r off w = Some r'"
  then have *: "wr_bytes r off (le_bytes 8 w) = Some r'"
    by (simp add: wr64_def)
  then have "rslice r' off 8 = le_bytes 8 w"
    by (intro nth_equalityI) (auto dest: wr_bytes_SomeD)
  with wr_bytes_SomeD [OF *] show ?thesis
    by (simp add: rd64_def)
qed


lemma rd32_region_of:
  "off + 4 \<le> length bs \<Longrightarrow> rd32 (region_of bs) off = Some (le_word (take 4 (drop off bs)))"
  by (simp add: rd32_def rslice_region_of)

lemma rd64_region_of:
  "off + 8 \<le> length bs \<Longrightarrow> rd64 (region_of bs) off = Some (le_word (take 8 (drop off bs)))"
  by (simp add: rd64_def rslice_region_of)

lemma rd_bytes_region_of:
  "off + n \<le> length bs \<Longrightarrow> rd_bytes (region_of bs) off n = Some (take n (drop off bs))"
  by (simp add: rd_bytes_def rslice_region_of)

section \<open>Fixed-width codecs\<close>

text \<open>
  The contract of a binary field: it is written as a fixed number of bytes, and reading those
  bytes gives the field back. From it follow the layout of an array of fields and the value
  read at any index of it.
\<close>

locale codec =
  fixes put :: "'a \<Rightarrow> bytes"
    and get :: "bytes \<Rightarrow> 'a"
    and width :: nat
  assumes length_put: "length (put x) = width"
    and get_put: "get (put x) = x"
begin

lemma length_puts: "length (concat (map put xs)) = width * length xs"
  by (induction xs) (simp_all add: length_put)

lemma chunk_puts:
  "i < length xs \<Longrightarrow> take width (drop (width * i) (concat (map put xs))) = put (xs ! i)"
proof (induction xs arbitrary: i)
  case Nil
  then show ?case by simp
next
  case (Cons x xs)
  then show ?case by (cases i) (simp_all add: length_put)
qed

lemma chunk_at:
  "i < length xs \<Longrightarrow>
     take width (drop (length pre + width * i) (pre @ concat (map put xs) @ post)) = put (xs ! i)"
proof -
  assume i: "i < length xs"
  then have "Suc i \<le> length xs" by simp
  then have "width * Suc i \<le> width * length xs" by (rule mult_le_mono2)
  then have "width * i + width \<le> length (concat (map put xs))"
    by (simp add: length_puts)
  moreover have "drop (length pre + width * i) (pre @ concat (map put xs) @ post)
      = drop (width * i) (concat (map put xs)) @ drop (width * i - length (concat (map put xs))) post"
    by simp
  ultimately show ?thesis
    using chunk_puts [OF i] by simp
qed

lemma get_at:
  "i < length xs \<Longrightarrow>
     get (take width (drop (length pre + width * i) (pre @ concat (map put xs) @ post))) = xs ! i"
  by (simp only: chunk_at get_put)

lemma holds_chunk:
  assumes "holds r a (concat (map put xs))" and "i < length xs"
  shows "holds r (a + width * i) (put (xs ! i))"
proof -
  have "concat (map put xs)
      = concat (map put (take i xs)) @ put (xs ! i) @ concat (map put (drop (Suc i) xs))"
    using arg_cong [OF id_take_nth_drop [OF assms(2)], of "\<lambda>ys. concat (map put ys)"] by simp
  with assms show ?thesis
    by (simp add: region_simps length_puts)
qed

end

interpretation u32: codec "le_bytes 4 :: u32 \<Rightarrow> bytes" le_word 4
  by unfold_locales simp_all

interpretation u64: codec "le_bytes 8 :: u64 \<Rightarrow> bytes" le_word 8
  by unfold_locales simp_all

section \<open>C strings\<close>

text \<open>The string at an offset: the bytes before the first zero, if there is one in the region.\<close>

function cstr_at :: "region \<Rightarrow> nat \<Rightarrow> bytes option" where
  "cstr_at r off =
     (if off < rsize r
      then if rbyte r off = 0 then Some []
           else map_option (Cons (rbyte r off)) (cstr_at r (Suc off))
      else None)"
  by pat_completeness auto
termination
  by (relation "measure (\<lambda>(r, off). rsize r - off)") auto

declare cstr_at.simps [simp del]

text \<open>\<open>strcmp(r + off, s) == 0\<close> for a literal or an already read string \<open>s\<close>.\<close>

fun c_streq :: "region \<Rightarrow> nat \<Rightarrow> bytes \<Rightarrow> bool option" where
  "c_streq r off [] = (if off < rsize r then Some (rbyte r off = 0) else None)"
| "c_streq r off (c # cs) =
     (if off < rsize r
      then if rbyte r off = c then c_streq r (Suc off) cs else Some False
      else None)"

lemma c_streq_cstr:
  "cstr_at r off = Some s \<Longrightarrow> 0 \<notin> set t \<Longrightarrow> c_streq r off t = Some (s = t)"
proof (induction t arbitrary: off s)
  case Nil
  then show ?case by (subst (asm) cstr_at.simps) (auto split: if_splits)
next
  case (Cons c cs)
  from Cons.prems(1) have "off < rsize r" by (subst (asm) cstr_at.simps) (auto split: if_splits)
  show ?case
  proof (cases "rbyte r off = c")
    case True
    with Cons.prems obtain s' where "cstr_at r (Suc off) = Some s'" "s = c # s'"
      by (subst (asm) cstr_at.simps) (auto split: if_splits)
    with Cons.IH Cons.prems(2) True \<open>off < rsize r\<close> show ?thesis by simp
  next
    case False
    with Cons.prems have "s = [] \<or> (\<exists>s'. s = rbyte r off # s')"
      by (subst (asm) cstr_at.simps) (auto split: if_splits)
    with False \<open>off < rsize r\<close> show ?thesis by auto
  qed
qed

lemma cstr_at_no_zero: "cstr_at r off = Some s \<Longrightarrow> 0 \<notin> set s"
proof (induction r off arbitrary: s rule: cstr_at.induct)
  case (1 r off)
  from "1.prems" show ?case
    by (subst (asm) cstr_at.simps) (auto split: if_splits dest: "1.IH")
qed

text \<open>A zero at or after the offset makes the string well defined.\<close>

lemma cstr_at_terminated:
  "off \<le> z \<Longrightarrow> z < rsize r \<Longrightarrow> rbyte r z = 0 \<Longrightarrow> cstr_at r off \<noteq> None"
proof (induction r off rule: cstr_at.induct)
  case (1 r off)
  show ?case
  proof (cases "rbyte r off = 0")
    case True
    with "1.prems" show ?thesis by (subst cstr_at.simps) simp
  next
    case False
    with "1.prems" have "Suc off \<le> z" by (metis Suc_leI le_neq_implies_less)
    with "1.IH" "1.prems" False show ?thesis by (subst cstr_at.simps) simp
  qed
qed

lemma cstr_at_append:
  assumes "0 \<notin> set s" and "off + length s < rsize r"
    and "\<And>i. i < length s \<Longrightarrow> rbyte r (off + i) = s ! i" and "rbyte r (off + length s) = 0"
  shows "cstr_at r off = Some s"
  using assms
proof (induction s arbitrary: off)
  case Nil
  then show ?case by (subst cstr_at.simps) simp
next
  case (Cons c s)
  have "cstr_at r (Suc off) = Some s"
  proof (rule Cons.IH)
    fix i assume "i < length s"
    then show "rbyte r (Suc off + i) = s ! i"
      using Cons.prems(3) [of "Suc i"] by simp
  qed (use Cons.prems in auto)
  moreover have "rbyte r off = c"
    using Cons.prems(3) [of 0] by simp
  ultimately show ?case
    using Cons.prems by (subst cstr_at.simps) auto
qed

section \<open>Results, sequencing and bounded loops\<close>

definition wp :: "('e + 'a) option \<Rightarrow> ('a \<Rightarrow> bool) \<Rightarrow> bool" where
  "wp r Q = (case r of None \<Rightarrow> False | Some (Inl _) \<Rightarrow> True | Some (Inr x) \<Rightarrow> Q x)"

definition ebind :: "('e + 'a) option \<Rightarrow> ('a \<Rightarrow> ('e + 'b) option) \<Rightarrow> ('e + 'b) option" where
  "ebind r f = (case r of None \<Rightarrow> None | Some (Inl e) \<Rightarrow> Some (Inl e) | Some (Inr x) \<Rightarrow> f x)"

text \<open>\<open>for (i = start; i < start + n; i++)\<close> with a body that may fault or return an error.\<close>

fun for_loop :: "nat \<Rightarrow> nat \<Rightarrow> (nat \<Rightarrow> 's \<Rightarrow> ('e + 's) option) \<Rightarrow> 's \<Rightarrow> ('e + 's) option" where
  "for_loop 0 i f s = Some (Inr s)"
| "for_loop (Suc n) i f s = ebind (f i s) (for_loop n (Suc i) f)"

lemma wp_result [wp_simps]:
  "wp None Q = False" "wp (Some (Inl e)) Q = True" "wp (Some (Inr x)) Q = Q x"
  by (simp_all add: wp_def)

lemma wp_ebind [wp_simps]: "wp (ebind r f) Q = wp r (\<lambda>x. wp (f x) Q)"
  by (simp add: wp_def ebind_def split: option.split sum.split)

lemma wp_bind [wp_simps]:
  "wp (Option.bind m f) Q \<longleftrightarrow> (\<exists>x. m = Some x \<and> wp (f x) Q)"
  by (cases m) (simp_all add: wp_def)

lemma wp_if [wp_simps]: "wp (if b then r else r') Q \<longleftrightarrow> (if b then wp r Q else wp r' Q)"
  by simp

lemma wp_guard: "wp (if c then Some (Inl e) else r) Q \<longleftrightarrow> (\<not> c \<longrightarrow> wp r Q)"
  by (simp add: wp_def)

lemma wp_cases [consumes 1, case_names error result]:
  "wp r Q \<Longrightarrow> (\<And>e. r = Some (Inl e) \<Longrightarrow> P) \<Longrightarrow> (\<And>x. r = Some (Inr x) \<Longrightarrow> Q x \<Longrightarrow> P) \<Longrightarrow> P"
  by (auto simp: wp_def split: option.splits sum.splits)

lemma wp_mono: "wp r P \<Longrightarrow> (\<And>x. P x \<Longrightarrow> Q x) \<Longrightarrow> wp r Q"
  by (auto simp: wp_def split: option.splits sum.splits)

lemma wp_not_None: "wp r Q \<Longrightarrow> r \<noteq> None"
  by (auto simp: wp_def split: option.splits)

lemma wp_Inr: "wp r Q \<Longrightarrow> r = Some (Inr x) \<Longrightarrow> Q x"
  by (auto simp: wp_def)

lemma wp_for_loop:
  assumes "I i s"
    and "\<And>j t. i \<le> j \<Longrightarrow> j < i + n \<Longrightarrow> I j t \<Longrightarrow> wp (f j t) (I (Suc j))"
  shows "wp (for_loop n i f s) (I (i + n))"
  using assms
proof (induction n arbitrary: i s)
  case 0
  then show ?case by (simp add: wp_simps)
next
  case (Suc n)
  have "wp (f i s) (I (Suc i))"
    using Suc.prems by simp
  moreover have "wp (for_loop n (Suc i) f t) (I (i + Suc n))" if "I (Suc i) t" for t
    using Suc.IH [of "Suc i" t] Suc.prems(2) that by simp
  ultimately show ?case
    by (auto simp: wp_simps elim!: wp_mono)
qed

lemma ebind_Inr_iff [simp]:
  "ebind r f = Some (Inr y) \<longleftrightarrow> (\<exists>x. r = Some (Inr x) \<and> f x = Some (Inr y))"
  by (auto simp: ebind_def split: option.splits sum.splits)

lemma ebind_simps [simp]:
  "ebind None f = None" "ebind (Some (Inl e)) f = Some (Inl e)" "ebind (Some (Inr x)) f = f x"
  by (simp_all add: ebind_def)

text \<open>Partial-correctness reading of a loop that succeeded.\<close>

lemma for_loop_Inr_inv:
  assumes "for_loop n i f s = Some (Inr s')" and "I i s"
    and "\<And>j t t'. i \<le> j \<Longrightarrow> j < i + n \<Longrightarrow> I j t \<Longrightarrow> f j t = Some (Inr t') \<Longrightarrow> I (Suc j) t'"
  shows "I (i + n) s'"
  using assms
proof (induction n arbitrary: i s)
  case 0
  then show ?case by simp
next
  case (Suc n)
  then obtain t where t: "f i s = Some (Inr t)" "for_loop n (Suc i) f t = Some (Inr s')"
    by auto
  have "I (Suc i) t"
    using Suc.prems(3) [of i] Suc.prems(2) t(1) by auto
  then have "I (Suc i + n) s'"
    using Suc.IH [OF t(2)] Suc.prems(3) by simp
  then show ?case by simp
qed

text \<open>The total reading: the computation faults nowhere, reports no error and its result is in \<open>Q\<close>.\<close>

definition wt :: "('e + 'a) option \<Rightarrow> ('a \<Rightarrow> bool) \<Rightarrow> bool" where
  "wt r Q \<longleftrightarrow> (\<exists>x. r = Some (Inr x) \<and> Q x)"

lemma wt_result [wp_simps]:
  "wt None Q = False" "wt (Some (Inl e)) Q = False" "wt (Some (Inr x)) Q = Q x"
  by (simp_all add: wt_def)

lemma wt_ebind [wp_simps]: "wt (ebind r f) Q = wt r (\<lambda>x. wt (f x) Q)"
  by (auto simp: wt_def)

lemma wt_bind [wp_simps]:
  "wt (Option.bind m f) Q \<longleftrightarrow> (\<exists>x. m = Some x \<and> wt (f x) Q)"
  by (cases m) (simp_all add: wt_def)

lemma wt_mono: "wt r P \<Longrightarrow> (\<And>x. P x \<Longrightarrow> Q x) \<Longrightarrow> wt r Q"
  by (auto simp: wt_def)

lemma wt_for_loop:
  assumes "I i s"
    and "\<And>j t. i \<le> j \<Longrightarrow> j < i + n \<Longrightarrow> I j t \<Longrightarrow> wt (f j t) (I (Suc j))"
  shows "wt (for_loop n i f s) (I (i + n))"
  using assms
proof (induction n arbitrary: i s)
  case 0
  then show ?case by (simp add: wp_simps)
next
  case (Suc n)
  have "wt (f i s) (I (Suc i))"
    using Suc.prems by simp
  moreover have "wt (for_loop n (Suc i) f t) (I (i + Suc n))" if "I (Suc i) t" for t
    using Suc.IH [of "Suc i" t] Suc.prems(2) that by simp
  ultimately show ?case
    by (auto simp: wp_simps elim!: wt_mono)
qed

lemma wt_wr_bytes:
  "off + length bs \<le> rsize r \<Longrightarrow> (\<And>r'. wr_bytes r off bs = Some r' \<Longrightarrow> rsize r' = rsize r \<Longrightarrow> P r')
     \<Longrightarrow> \<exists>r'. wr_bytes r off bs = Some r' \<and> P r'"
  using wr_not_None(1) [of r off bs] wr_bytes_SomeD [of r off bs] by blast

text \<open>
  \<open>for (uint32_t i = start; i < bound; i++)\<close> where the bound is read from memory before each
  round, as the code does when the bound is a field of a structure.
\<close>

lemma ebind_cong [fundef_cong]:
  "r = r' \<Longrightarrow> (\<And>x. r' = Some (Inr x) \<Longrightarrow> f x = g x) \<Longrightarrow> ebind r f = ebind r' g"
  by (auto simp: ebind_def split: option.split sum.split)

lemma bind_option_cong [fundef_cong]:
  "m = m' \<Longrightarrow> (\<And>x. m' = Some x \<Longrightarrow> f x = g x) \<Longrightarrow> Option.bind m f = Option.bind m' g"
  by (cases m') simp_all

function loop_u32 ::
  "('s \<Rightarrow> u32 option) \<Rightarrow> (nat \<Rightarrow> 's \<Rightarrow> ('e + 's) option) \<Rightarrow> nat \<Rightarrow> 's \<Rightarrow> ('e + 's) option" where
  "loop_u32 bound body i s =
     do {
       n \<leftarrow> bound s;
       if i < unat n then ebind (body i s) (\<lambda>s'. loop_u32 bound body (Suc i) s') else Some (Inr s)
     }"
  by pat_completeness auto
termination
proof (relation "measure (\<lambda>(bound, body, i, s). 2 ^ 32 - i)", goal_cases)
  case (2 bound body i s n s')
  then show ?case using unat_u32_less [of n] by simp
qed simp

declare loop_u32.simps [simp del]

text \<open>A \<open>u32\<close> loop with a constant bound, from the states it runs through.\<close>

lemma loop_u32_run:
  assumes n: "length ss = Suc (unat n)" and bound: "\<And>s. s \<in> set ss \<Longrightarrow> bound s = Some n"
    and step: "\<And>j. j < unat n \<Longrightarrow> body j (ss ! j) = Some (Inr (ss ! Suc j))"
  shows "loop_u32 bound body 0 (ss ! 0) = Some (Inr (last ss))"
proof -
  have "loop_u32 bound body i (ss ! i) = Some (Inr (last ss))" if "i \<le> unat n" for i
    using that
  proof (induction i rule: inc_induct)
    case base
    have "ss ! unat n \<in> set ss" "last ss = ss ! unat n"
      using n by (simp_all add: last_conv_nth flip: length_0_conv)
    then show ?case by (subst loop_u32.simps) (simp add: bound)
  next
    case (step i)
    have "ss ! i \<in> set ss" using n step.hyps by simp
    with step show ?case by (subst loop_u32.simps) (simp add: bound assms(3))
  qed
  from this [of 0] show ?thesis by simp
qed

lemma wp_loop_u32:
  assumes "I i s"
    and "\<And>j t. I j t \<Longrightarrow> \<exists>n. bound t = Some n \<and> (j < unat n \<longrightarrow> wp (body j t) (I (Suc j)))
                \<and> (unat n \<le> j \<longrightarrow> Q t)"
  shows "wp (loop_u32 bound body i s) Q"
  using assms(1)
proof (induction "4294967296 - i" arbitrary: i s rule: less_induct)
  case less
  obtain n where n: "bound s = Some n" "i < unat n \<longrightarrow> wp (body i s) (I (Suc i))"
    "unat n \<le> i \<longrightarrow> Q s"
    using assms(2) [OF less.prems] by blast
  show ?case
  proof (cases "i < unat n")
    case True
    have "wp (loop_u32 bound body (Suc i) t) Q" if "I (Suc i) t" for t
      using less.hyps [of "Suc i" t] that True unat_u32_less [of n] by simp
    with n True show ?thesis
      by (subst loop_u32.simps) (auto simp: wp_simps elim!: wp_mono)
  next
    case False
    with n show ?thesis by (subst loop_u32.simps) (simp add: wp_simps)
  qed
qed

lemma wt_loop_u32:
  assumes "I i s"
    and "\<And>j t. I j t \<Longrightarrow> \<exists>n. bound t = Some n \<and> (j < unat n \<longrightarrow> wt (body j t) (I (Suc j)))
                \<and> (unat n \<le> j \<longrightarrow> Q t)"
  shows "wt (loop_u32 bound body i s) Q"
  using assms(1)
proof (induction "4294967296 - i" arbitrary: i s rule: less_induct)
  case less
  obtain n where n: "bound s = Some n" "i < unat n \<longrightarrow> wt (body i s) (I (Suc i))"
    "unat n \<le> i \<longrightarrow> Q s"
    using assms(2) [OF less.prems] by blast
  show ?case
  proof (cases "i < unat n")
    case True
    have "wt (loop_u32 bound body (Suc i) t) Q" if "I (Suc i) t" for t
      using less.hyps [of "Suc i" t] that True unat_u32_less [of n] by simp
    with n True show ?thesis
      by (subst loop_u32.simps) (auto simp: wp_simps elim!: wt_mono)
  next
    case False
    with n show ?thesis by (subst loop_u32.simps) (simp add: wp_simps)
  qed
qed

lemma all_from_Suc:
  "i < (n :: nat) \<Longrightarrow> (\<forall>k. i \<le> k \<longrightarrow> k < n \<longrightarrow> P k) \<longleftrightarrow> P i \<and> (\<forall>k. Suc i \<le> k \<longrightarrow> k < n \<longrightarrow> P k)"
  by (metis Suc_leD Suc_leI le_neq_implies_less le_refl)

text \<open>A \<open>u32\<close> loop whose round \<open>i\<close> succeeds exactly under \<open>P i\<close> and then takes \<open>S i\<close> to \<open>S (Suc i)\<close>.\<close>

lemma loop_u32_exact:
  assumes n: "n = unat N" and bound: "\<And>i. i \<le> n \<Longrightarrow> bound (S i) = Some N"
    and step: "\<And>i y. i < n \<Longrightarrow> body i (S i) = Some (Inr y) \<longleftrightarrow> P i \<and> y = S (Suc i)"
  shows "loop_u32 bound body 0 (S 0) = Some (Inr y) \<longleftrightarrow> (\<forall>i < n. P i) \<and> y = S n"
proof -
  have "loop_u32 bound body i (S i) = Some (Inr y) \<longleftrightarrow> (\<forall>k. i \<le> k \<longrightarrow> k < n \<longrightarrow> P k) \<and> y = S n" if "i \<le> n" for i
    using that
  proof (induction i rule: inc_induct)
    case base
    show ?case by (subst loop_u32.simps) (auto simp: bound n)
  next
    case (step i)
    have "loop_u32 bound body i (S i) = ebind (body i (S i)) (loop_u32 bound body (Suc i))"
      using step.hyps by (subst loop_u32.simps) (simp add: bound n)
    with step.IH show ?case
      by (auto simp: assms(3) [OF step.hyps(2)] all_from_Suc [OF step.hyps(2)])
  qed
  from this [of 0] show ?thesis by simp
qed

text \<open>A loop that carries a flag which is never cleared.\<close>

lemma loop_u32_flag:
  assumes n: "n = unat N"
    and clear: "\<And>i. i < n \<Longrightarrow> body i False = Some (Inr False) \<longleftrightarrow> P i"
    and sticky: "\<And>i. body i True \<noteq> Some (Inr False)"
  shows "loop_u32 (\<lambda>_. Some N) body 0 False = Some (Inr False) \<longleftrightarrow> (\<forall>i < n. P i)"
proof -
  have "loop_u32 (\<lambda>_. Some N) body i m = Some (Inr False) \<longleftrightarrow> \<not> m \<and> (\<forall>k. i \<le> k \<longrightarrow> k < n \<longrightarrow> P k)" if "i \<le> n" for i m
    using that
  proof (induction i arbitrary: m rule: inc_induct)
    case base
    show ?case by (subst loop_u32.simps) (auto simp: n)
  next
    case (step i)
    have "loop_u32 (\<lambda>_. Some N) body i m = ebind (body i m) (loop_u32 (\<lambda>_. Some N) body (Suc i))"
      using step.hyps by (subst loop_u32.simps) (simp add: n)
    then have "loop_u32 (\<lambda>_. Some N) body i m = Some (Inr False)
        \<longleftrightarrow> body i m = Some (Inr False) \<and> (\<forall>k. Suc i \<le> k \<longrightarrow> k < n \<longrightarrow> P k)"
      by (auto simp: step.IH)
    also have "\<dots> \<longleftrightarrow> \<not> m \<and> P i \<and> (\<forall>k. Suc i \<le> k \<longrightarrow> k < n \<longrightarrow> P k)"
      using clear [OF step.hyps(2)] sticky [of i] by (cases m) auto
    finally show ?case by (simp only: all_from_Suc [OF step.hyps(2)])
  qed
  from this [of 0 False] show ?thesis by simp
qed

lemma ebind_unique:
  "(\<And>x. r = Some (Inr x) \<longleftrightarrow> A \<and> x = s) \<Longrightarrow> ebind r g = Some (Inr y) \<longleftrightarrow> A \<and> g s = Some (Inr y)"
  by auto

end
