(* ===== verification/Pongo_Std.thy ===== *)
theory Pongo_Std
  imports Prelude
begin

text \<open>
  The standard functions that \<^verbatim>\<open>kextload.c\<close> brings along (\<open>memcmp\<close>, \<open>strnlen\<close>, here \<open>c_memcmp\<close>, \<open>c_strnlen\<close>) and its
  pointer conversions between static kernel addresses, slid virtual addresses and pongoOS
  pointers.
\<close>

section \<open>Memory and strings\<close>

fun c_memcmp :: "region \<Rightarrow> nat \<Rightarrow> region \<Rightarrow> nat \<Rightarrow> nat \<Rightarrow> int option" where
  "c_memcmp r1 s1 r2 s2 0 = Some 0"
| "c_memcmp r1 s1 r2 s2 (Suc n) = do {
     a \<leftarrow> rd8 r1 s1;
     b \<leftarrow> rd8 r2 s2;
     let diff = uint a - uint b;
     if diff = 0 then c_memcmp r1 (Suc s1) r2 (Suc s2) n else Some diff
   }"

fun c_strnlen :: "region \<Rightarrow> nat \<Rightarrow> nat \<Rightarrow> nat option" where
  "c_strnlen r s 0 = Some 0"
| "c_strnlen r s (Suc n) = do {
     c \<leftarrow> rd8 r s;
     if c = 0 then Some 0 else map_option Suc (c_strnlen r (Suc s) n)
   }"

lemma rd8_Some [simp]: "off < rsize r \<Longrightarrow> rd8 r off = Some (rbyte r off)"
  by (simp add: rd8_def)

lemma rslice_Suc: "rslice r off (Suc n) = rbyte r off # rslice r (Suc off) n"
  by (rule nth_equalityI) (auto simp: nth_Cons split: nat.split)

text \<open>Within both objects, \<open>c_memcmp\<close> answers 0 exactly when the bytes agree.\<close>

lemma memcmp_spec:
  "s1 + n \<le> rsize r1 \<Longrightarrow> s2 + n \<le> rsize r2 \<Longrightarrow>
     \<exists>d. c_memcmp r1 s1 r2 s2 n = Some d \<and> (d = 0 \<longleftrightarrow> rslice r1 s1 n = rslice r2 s2 n)"
proof (induction n arbitrary: s1 s2)
  case 0
  then show ?case by (simp add: rslice_def)
next
  case (Suc n)
  then show ?case by (auto simp: rslice_Suc Let_def word_uint_eq_iff)
qed

text \<open>\<open>c_strnlen\<close> is the distance to the first zero, and at most the limit.\<close>

lemma strnlen_spec:
  "s + n \<le> rsize r \<Longrightarrow> c_strnlen r s n = Some (length (takeWhile (\<lambda>c. c \<noteq> 0) (rslice r s n)))"
proof (induction n arbitrary: s)
  case 0
  then show ?case by (simp add: rslice_def)
next
  case (Suc n)
  then show ?case by (simp add: rslice_Suc)
qed

text \<open>It falls short of the limit exactly when there is a zero.\<close>

lemma strnlen_limit:
  assumes "s + n \<le> rsize r"
  shows "c_strnlen r s n = Some m \<Longrightarrow> m \<noteq> n \<longleftrightarrow> (\<exists>z \<in> {s ..< s + n}. rbyte r z = 0)"
    and "\<exists>m. c_strnlen r s n = Some m"
proof -
  have m: "c_strnlen r s n = Some (length (takeWhile (\<lambda>c. c \<noteq> 0) (rslice r s n)))"
    using strnlen_spec [OF assms] .
  then show "\<exists>m. c_strnlen r s n = Some m" by blast
  assume "c_strnlen r s n = Some m"
  with m have len: "m = length (takeWhile (\<lambda>c. c \<noteq> 0) (rslice r s n))" by simp
  show "m \<noteq> n \<longleftrightarrow> (\<exists>z \<in> {s ..< s + n}. rbyte r z = 0)"
  proof
    assume "m \<noteq> n"
    then have "m < n" using length_takeWhile_le [of "\<lambda>c. c \<noteq> 0" "rslice r s n"] len by simp
    then have "rbyte r (s + m) = 0"
      using nth_length_takeWhile [of "\<lambda>c. c \<noteq> 0" "rslice r s n"] len by simp
    with \<open>m < n\<close> show "\<exists>z \<in> {s ..< s + n}. rbyte r z = 0" by auto
  next
    assume "\<exists>z \<in> {s ..< s + n}. rbyte r z = 0"
    then obtain z where "s \<le> z" "z < s + n" "rbyte r z = 0" by auto
    then have "rslice r s n ! (z - s) = 0" "z - s < length (rslice r s n)" by simp_all
    then have "0 \<in> set (rslice r s n)" using nth_mem by metis
    then have "takeWhile (\<lambda>c. c \<noteq> 0) (rslice r s n) \<noteq> rslice r s n"
      by (auto simp: takeWhile_eq_all_conv)
    moreover have "takeWhile (\<lambda>c. c \<noteq> 0) (rslice r s n) = take m (rslice r s n)"
      unfolding len by (rule takeWhile_eq_take)
    ultimately show "m \<noteq> n" by auto
  qed
qed

text \<open>On a terminated string shorter than the limit it is the length of the string.\<close>

lemma strnlen_cstr: "cstr_at r s = Some t \<Longrightarrow> length t < n \<Longrightarrow> c_strnlen r s n = Some (length t)"
proof (induction t arbitrary: s n)
  case Nil
  then have "s < rsize r" "rbyte r s = 0" by (subst (asm) cstr_at.simps, auto split: if_splits)+
  moreover obtain m where "n = Suc m" using Nil by (cases n) auto
  ultimately show ?case by simp
next
  case (Cons c t)
  from Cons.prems(1) have "s < rsize r" "rbyte r s = c" "c \<noteq> 0" "cstr_at r (Suc s) = Some t"
    by (subst (asm) cstr_at.simps, auto split: if_splits)+
  moreover obtain m where "n = Suc m" using Cons.prems by (cases n) auto
  ultimately show ?case using Cons by simp
qed

lemma strnlen_early:
  "z < n \<Longrightarrow> s + z < rsize r \<Longrightarrow> rbyte r (s + z) = 0 \<Longrightarrow> \<exists>m. c_strnlen r s n = Some m \<and> m \<le> z"
proof (induction n arbitrary: s z)
  case 0
  then show ?case by simp
next
  case (Suc n)
  show ?case
  proof (cases z)
    case 0
    with Suc.prems show ?thesis by simp
  next
    case (Suc y)
    with Suc.prems Suc.IH [of y "Suc s"] show ?thesis by auto
  qed
qed

section \<open>Pointer conversions\<close>

text \<open>
  \<open>mh\<close> is the address of the kernel's Mach-O header in pongoOS and \<open>slide\<close> the kernel slide. All
  addresses are 64-bit words.
\<close>

abbreviation static_base :: u64 where
  "static_base \<equiv> 0xFFFFFFF007004000"

definition sa_for_va :: "u64 \<Rightarrow> u64 \<Rightarrow> u64" where
  "sa_for_va slide va = va - slide"

definition va_for_sa :: "u64 \<Rightarrow> u64 \<Rightarrow> u64" where
  "va_for_sa slide sa = sa + slide"

definition ptr_for_sa :: "u64 \<Rightarrow> u64 \<Rightarrow> u64" where
  "ptr_for_sa mh sa = (sa - static_base) + mh"

definition ptr_for_va :: "u64 \<Rightarrow> u64 \<Rightarrow> u64 \<Rightarrow> u64" where
  "ptr_for_va mh slide va = ptr_for_sa mh (sa_for_va slide va)"

definition sa_for_ptr :: "u64 \<Rightarrow> u64 \<Rightarrow> u64" where
  "sa_for_ptr mh ptr = (ptr - mh) + static_base"

definition va_for_ptr :: "u64 \<Rightarrow> u64 \<Rightarrow> u64 \<Rightarrow> u64" where
  "va_for_ptr mh slide ptr = va_for_sa slide (sa_for_ptr mh ptr)"

definition pa_for_ptr :: "u64 \<Rightarrow> u64 \<Rightarrow> u64 \<Rightarrow> u64 \<Rightarrow> u64" where
  "pa_for_ptr mh virt_base phys_base ptr = sa_for_ptr mh ptr - virt_base + phys_base"

lemma pointer_roundtrips:
  "ptr_for_va mh slide (va_for_ptr mh slide ptr) = ptr"
  "va_for_ptr mh slide (ptr_for_va mh slide va) = va"
  "sa_for_ptr mh (ptr_for_sa mh sa) = sa"
  by (simp_all add: ptr_for_va_def va_for_ptr_def ptr_for_sa_def sa_for_ptr_def
      sa_for_va_def va_for_sa_def)

end
