(* ===== verification/Kernelcache_Symbols.thy ===== *)
theory Kernelcache_Symbols
  imports Pongo_Std
begin

text \<open>
  The symbol table part of the pongoOS module \<^verbatim>\<open>kextload.c\<close>: finding the kernelcache's UUID,
  the \<open>kernelcache-symbols\<close> command that turns an uploaded blob into an in-memory table, and the
  lookup of a symbol in the chain of tables. A table is kept as the block it is allocated in,
  with the absolute pointers the code stores there; a pointer is followed by taking the distance
  to the start of the block, and an access outside the block faults.
\<close>

section \<open>State\<close>

text \<open>A symbol table: the address of its allocation and the memory behind it.\<close>

type_synonym symtab_object = "u64 \<times> region"

record pongo_state =
  mh_execute_header :: region
  loader_xfer_recv_data :: region
  loader_xfer_recv_count :: u32
  kernelcache_symbol_table :: "symtab_object list"
  kernelcache_uuid :: bytes
  kernelcache_uuid_found :: bool
  heap_live :: "u64 list"

text \<open>What \<open>malloc\<close> answers for a size: \<open>None\<close> for null, else an address and junk contents.\<close>

type_synonym allocator = "u64 \<Rightarrow> (u64 \<times> (nat \<Rightarrow> u8)) option"

section \<open>The UUID of the kernelcache\<close>

datatype uuid_error = Invalid_kernel_load_commands | Kernelcache_UUID_not_found

abbreviation LC_UUID :: u32 where
  "LC_UUID \<equiv> 0x1b"

text \<open>The walk over the load commands: \<open>n\<close> commands left, the next at offset \<open>lc\<close>.\<close>

fun find_uuid_command :: "region \<Rightarrow> nat \<Rightarrow> nat \<Rightarrow> nat \<Rightarrow> (uuid_error + nat) option" where
  "find_uuid_command mh lc_end 0 lc = Some (Inl Kernelcache_UUID_not_found)"
| "find_uuid_command mh lc_end (Suc n) lc =
     (if lc + 8 > lc_end then Some (Inl Invalid_kernel_load_commands)
      else do {
        cmdsize \<leftarrow> rd32 mh (lc + 4);
        if lc + unat cmdsize > lc_end then Some (Inl Invalid_kernel_load_commands)
        else do {
          cmd \<leftarrow> rd32 mh lc;
          if cmd = LC_UUID then Some (Inr lc)
          else find_uuid_command mh lc_end n (lc + unat cmdsize)
        }
      })"

definition kernelcache_find_uuid :: "pongo_state \<Rightarrow> pongo_state option" where
  "kernelcache_find_uuid st =
     (if kernelcache_uuid_found st then Some st
      else do {
        let mh = mh_execute_header st;
        sizeofcmds \<leftarrow> rd32 mh 20;
        ncmds \<leftarrow> rd32 mh 16;
        found \<leftarrow> find_uuid_command mh (32 + unat sizeofcmds) (unat ncmds) 32;
        (case found of
           Inl _ \<Rightarrow> Some st
         | Inr uc \<Rightarrow> do {
             u \<leftarrow> rd_bytes mh (uc + 8) 16;
             Some (st\<lparr>kernelcache_uuid := u, kernelcache_uuid_found := True\<rparr>)
           })
      })"

section \<open>The kernelcache-symbols command\<close>

datatype symbols_error = No_matching_kernelcache | Failed_to_allocate | Invalid_symbol_table

text \<open>\<open>get(uint32_t)\<close> and \<open>get(uint64_t)\<close>: read at the cursor and advance it.\<close>

definition get_u32 :: "region \<Rightarrow> nat \<Rightarrow> nat \<Rightarrow> (symbols_error + (u32 \<times> nat)) option" where
  "get_u32 data sz p =
     (if p + 4 > sz then Some (Inl Invalid_symbol_table)
      else do { w \<leftarrow> rd32 data p; Some (Inr (w, p + 4)) })"

definition get_u64 :: "region \<Rightarrow> nat \<Rightarrow> nat \<Rightarrow> (symbols_error + (u64 \<times> nat)) option" where
  "get_u64 data sz p =
     (if p + 8 > sz then Some (Inl Invalid_symbol_table)
      else do { w \<leftarrow> rd64 data p; Some (Inr (w, p + 8)) })"

text \<open>The search for the descriptor; the result is the cursor at the kernelcache's table.\<close>

fun find_descriptor ::
  "region \<Rightarrow> nat \<Rightarrow> bytes \<Rightarrow> nat \<Rightarrow> nat \<Rightarrow> (symbols_error + nat) option" where
  "find_descriptor data sz u 0 p = Some (Inl No_matching_kernelcache)"
| "find_descriptor data sz u (Suc n) p =
     (if p + 16 > sz then Some (Inl Invalid_symbol_table)
      else
        ebind (get_u32 data sz (p + 16)) (\<lambda>(symbols_offset, p').
          do {
            diff \<leftarrow> c_memcmp data p (region_of u) 0 16;
            if diff = 0
            then if unat symbols_offset > sz then Some (Inl Invalid_symbol_table)
                 else Some (Inr (unat symbols_offset))
            else find_descriptor data sz u n p'
          }))"

definition select_kernelcache ::
  "region \<Rightarrow> nat \<Rightarrow> bytes \<Rightarrow> (symbols_error + (u32 \<times> u32 \<times> nat)) option" where
  "select_kernelcache data sz u =
     ebind (get_u32 data sz 0) (\<lambda>(kernelcache_count, p).
     ebind (get_u32 data sz p) (\<lambda>(symbol_strings_offset, p).
     ebind (find_descriptor data sz u (unat kernelcache_count) p) (\<lambda>p.
     ebind (get_u32 data sz p) (\<lambda>(symbol_count, p).
       Some (Inr (symbol_count, symbol_strings_offset, p))))))"

text \<open>
  \<open>struct kernelcache_symbol_table\<close> takes 32 bytes: the next pointer at 0, the count at 8 and
  the two array pointers at 16 and 24. The arrays and the strings follow it.
\<close>

definition symbol_strings_size :: "u32 \<Rightarrow> u32 \<Rightarrow> u64" where
  "symbol_strings_size count strings = ucast count - ucast strings"

definition table_alloc_size :: "u32 \<Rightarrow> u64 \<Rightarrow> u64" where
  "table_alloc_size symbol_count strings_size =
     32 + ucast symbol_count * 8 + ucast symbol_count * 8 + strings_size"

definition put_symbol ::
  "region \<Rightarrow> nat \<Rightarrow> u64 \<Rightarrow> u64 \<Rightarrow> u32 \<Rightarrow> nat \<Rightarrow> region \<times> nat \<Rightarrow> (symbols_error + (region \<times> nat)) option" where
  "put_symbol data sz strings_size base symbol_count i s =
     ebind (get_u32 data sz (snd s)) (\<lambda>(symbol_offset, p).
     ebind (get_u64 data sz p) (\<lambda>(address, p).
       if ucast (symbol_offset + 1) > strings_size then Some (Inl Invalid_symbol_table)
       else do {
         obj1 \<leftarrow> wr64 (fst s) (32 + 8 * i)
                   (base + 32 + ucast symbol_count * 8 + ucast symbol_count * 8 + ucast symbol_offset);
         obj2 \<leftarrow> wr64 obj1 (32 + 8 * unat symbol_count + 8 * i) address;
         Some (Inr (obj2, p))
       }))"

definition fill_table ::
  "region \<Rightarrow> u32 \<Rightarrow> u32 \<Rightarrow> u32 \<Rightarrow> nat \<Rightarrow> u64 \<Rightarrow> u64 \<Rightarrow> region \<Rightarrow> (symbols_error + region) option" where
  "fill_table data count symbol_count strings p base next_table obj = do {
     let sz = unat count;
     let strings_size = symbol_strings_size count strings;
     obj1 \<leftarrow> wr64 obj 8 (ucast symbol_count);
     obj2 \<leftarrow> wr64 obj1 16 (base + 32);
     obj3 \<leftarrow> wr64 obj2 24 (base + 32 + ucast symbol_count * 8);
     if unat strings > sz then Some (Inl Invalid_symbol_table)
     else if strings_size < 1 then Some (Inl Invalid_symbol_table)
     else do {
       c \<leftarrow> rd8 data (unat strings + unat (strings_size - 1));
       if c \<noteq> 0 then Some (Inl Invalid_symbol_table)
       else
         ebind (for_loop (unat symbol_count) 0 (put_symbol data sz strings_size base symbol_count) (obj3, p))
           (\<lambda>(obj4, _).
              if unat strings + unat strings_size > sz then Some (Inl Invalid_symbol_table)
              else do {
                str \<leftarrow> rd_bytes data (unat strings) (unat strings_size);
                obj5 \<leftarrow> wr_bytes obj4 (32 + 8 * unat symbol_count + 8 * unat symbol_count) str;
                obj6 \<leftarrow> wr64 obj5 0 next_table;
                Some (Inr obj6)
              })
     }
   }"

definition chain_head :: "symtab_object list \<Rightarrow> u64" where
  "chain_head ts = (case ts of [] \<Rightarrow> 0 | t # _ \<Rightarrow> fst t)"

text \<open>
  The command. Its first component is what it prints: the number of symbols added, or the error;
  an error after the allocation frees it.
\<close>

definition command_kernelcache_symbols ::
  "allocator \<Rightarrow> pongo_state \<Rightarrow> ((symbols_error + u32) \<times> pongo_state) option" where
  "command_kernelcache_symbols malloc st0 = do {
     let count = loader_xfer_recv_count st0;
     let data = loader_xfer_recv_data st0;
     st \<leftarrow> kernelcache_find_uuid (st0\<lparr>loader_xfer_recv_count := 0\<rparr>);
     selected \<leftarrow> select_kernelcache data (unat count) (kernelcache_uuid st);
     (case selected of
        Inl e \<Rightarrow> Some (Inl e, st)
      | Inr (symbol_count, strings, p) \<Rightarrow>
          (let alloc_size = table_alloc_size symbol_count (symbol_strings_size count strings) in
           (case malloc alloc_size of
              None \<Rightarrow> Some (Inl Failed_to_allocate, st)
            | Some (base, junk) \<Rightarrow>
                (let st1 = st\<lparr>heap_live := base # heap_live st\<rparr> in do {
                   table \<leftarrow> fill_table data count symbol_count strings p base
                     (chain_head (kernelcache_symbol_table st)) \<lparr>rsize = unat alloc_size, rbyte = junk\<rparr>;
                   (case table of
                      Inl e \<Rightarrow> Some (Inl e, st1\<lparr>heap_live := remove1 base (heap_live st1)\<rparr>)
                    | Inr obj \<Rightarrow>
                        Some (Inr symbol_count,
                          st1\<lparr>kernelcache_symbol_table := (base, obj) # kernelcache_symbol_table st\<rparr>))
                 }))))
   }"

section \<open>Lookup\<close>

text \<open>The search in one table, from index \<open>i\<close> with \<open>n\<close> entries left.\<close>

fun lookup_entries :: "u64 \<Rightarrow> region \<Rightarrow> bytes \<Rightarrow> nat \<Rightarrow> nat \<Rightarrow> u64 option option" where
  "lookup_entries base obj symbol 0 i = Some None"
| "lookup_entries base obj symbol (Suc n) i = do {
     symbols \<leftarrow> rd64 obj 16;
     s \<leftarrow> rd64 obj (unat (symbols - base) + 8 * i);
     eq \<leftarrow> c_streq obj (unat (s - base)) symbol;
     if eq then do {
       addresses \<leftarrow> rd64 obj 24;
       a \<leftarrow> rd64 obj (unat (addresses - base) + 8 * i);
       Some (Some a)
     } else lookup_entries base obj symbol n (Suc i)
   }"

fun symbol_table_lookup :: "symtab_object list \<Rightarrow> bytes \<Rightarrow> u64 option" where
  "symbol_table_lookup [] symbol = Some 0"
| "symbol_table_lookup ((base, obj) # ts) symbol = do {
     count \<leftarrow> rd64 obj 8;
     found \<leftarrow> lookup_entries base obj symbol (unat count) 0;
     (case found of Some a \<Rightarrow> Some a | None \<Rightarrow> symbol_table_lookup ts symbol)
   }"

definition kernelcache_symbol_table_lookup :: "pongo_state \<Rightarrow> bytes \<Rightarrow> u64 option" where
  "kernelcache_symbol_table_lookup st symbol = symbol_table_lookup (kernelcache_symbol_table st) symbol"

end
