(* ===== verification/Kext_Parse.thy ===== *)
theory Kext_Parse
  imports Kernelcache_Symbols
begin

text \<open>
  \<open>kext_parse\<close> of \<^verbatim>\<open>kextload.c\<close>: the validation of an uploaded kernel extension. The file is
  the upload buffer, a region; a pointer into it is an offset from the Mach-O header. Fields are
  read from the region where the code reads them, bounds of loops included, and the one write
  (\<open>LC_SEGMENT_SPLIT_INFO\<close>) goes to the region. The symbol lookup is an argument, which the
  \<open>kextload\<close> command instantiates.
\<close>

section \<open>Mach-O constants and load information\<close>

abbreviation MH_MAGIC_64 :: u32 where "MH_MAGIC_64 \<equiv> 0xfeedfacf"
abbreviation MH_KEXT_BUNDLE :: u32 where "MH_KEXT_BUNDLE \<equiv> 0xb"
abbreviation LC_SEGMENT :: u32 where "LC_SEGMENT \<equiv> 0x1"
abbreviation LC_SYMTAB :: u32 where "LC_SYMTAB \<equiv> 0x2"
abbreviation LC_DYSYMTAB :: u32 where "LC_DYSYMTAB \<equiv> 0xb"
abbreviation LC_SEGMENT_64 :: u32 where "LC_SEGMENT_64 \<equiv> 0x19"
abbreviation LC_SEGMENT_SPLIT_INFO :: u32 where "LC_SEGMENT_SPLIT_INFO \<equiv> 0x1e"
abbreviation N_STAB :: u8 where "N_STAB \<equiv> 0xe0"
abbreviation N_TYPE :: u8 where "N_TYPE \<equiv> 0x0e"
abbreviation N_SECT :: u8 where "N_SECT \<equiv> 0x0e"

text \<open>
  \<open>struct kext_load_info\<close>. \<open>symtab\<close> and \<open>dysymtab\<close> are offsets of load commands from the Mach-O
  header, \<open>None\<close> for null; \<open>nlist\<close>, \<open>extrel\<close> and \<open>locrel\<close> are offsets into the file; \<open>kext\<close> is
  the address of the allocation.
\<close>

record kext_load_info =
  kext :: u64
  file_size :: u64
  vm_size :: u64
  vm_base :: u64
  kmod_info :: u64
  symtab :: "nat option"
  dysymtab :: "nat option"
  nlist :: nat
  extrel :: nat
  locrel :: nat

definition kext_load_info_zero :: kext_load_info where
  "kext_load_info_zero =
     \<lparr>kext = 0, file_size = 0, vm_size = 0, vm_base = 0, kmod_info = 0, symtab = None,
      dysymtab = None, nlist = 0, extrel = 0, locrel = 0\<rparr>"

datatype kext_error =
    Not_64_bit_macho | Not_kext_type | Invalid_load_commands_size | Invalid_load_commands
  | LC_SEGMENT_not_permitted
  | Segment_bad_size | Segment_vm_wrap | Segment_header_not_mapped | Segment_not_contiguous
  | Symtab_repeated | Symtab_bad_size | Symtab_bad_symbols | Symtab_bad_strings
  | Dysymtab_repeated | Dysymtab_bad_size | Dysymtab_bad_external | Dysymtab_bad_local
  | Segment_required | Symtab_required | Dysymtab_required
  | Symtab_bad_string | Symtab_bad_address
  | Kmod_info_repeated | Kmod_info_bad_type | Kmod_info_bad_address | Kmod_info_required
  | Extrel_not_external | Extrel_bad_size | Extrel_bad_symbol | Extrel_bad_address
  | Missing_symbols
  | Locrel_external | Locrel_bad_size | Locrel_bad_address

section \<open>Load commands\<close>

text \<open>The local variables of the loop over the load commands.\<close>

record kext_walk =
  w_file :: region
  w_info :: kext_load_info
  w_vmaddr :: u64
  w_found :: bool
  w_lc :: nat

type_synonym 'a kext_result = "(kext_error + 'a) option"

text \<open>
  The parser as a whole may have rewritten commands of the file before it reports an error, so its
  errors carry the file as it is then. \<open>with_file\<close> adds it to an error of a step that does not write.
\<close>

type_synonym 'a kext_stop = "((kext_error \<times> region) + 'a) option"

definition with_file :: "region \<Rightarrow> 'a kext_result \<Rightarrow> 'a kext_stop" where
  "with_file file r = map_option (map_sum (\<lambda>e. (e, file)) id) r"

lemma with_file_simps [simp]:
  "with_file file None = None" "with_file file (Some (Inl e)) = Some (Inl (e, file))"
  "with_file file (Some (Inr x)) = Some (Inr x)"
  by (simp_all add: with_file_def)

lemma with_file_iff [simp]:
  "with_file file r = Some (Inr x) \<longleftrightarrow> r = Some (Inr x)"
  "with_file file r = Some (Inl e) \<longleftrightarrow> r = Some (Inl (fst e)) \<and> snd e = file"
  "with_file file r = None \<longleftrightarrow> r = None"
  by (cases r; cases "the r"; cases e; auto)+

lemma wp_with_file [wp_simps]: "wp (with_file file r) Q = wp r Q"
  by (cases r; cases "the r"; simp add: wp_def)

definition kext_parse_segment :: "kext_walk \<Rightarrow> kext_walk kext_result" where
  "kext_parse_segment w = do {
     let file = w_file w;
     let fsize = file_size (w_info w);
     cmdsize \<leftarrow> rd32 file (w_lc w + 4);
     if cmdsize < 72 then Some (Inl Segment_bad_size)
     else do {
       seg_vmaddr \<leftarrow> rd64 file (w_lc w + 24);
       seg_vmsize \<leftarrow> rd64 file (w_lc w + 32);
       seg_fileoff \<leftarrow> rd64 file (w_lc w + 40);
       seg_filesize \<leftarrow> rd64 file (w_lc w + 48);
       if seg_fileoff > fsize \<or> seg_fileoff + seg_filesize > fsize \<or> seg_filesize > seg_vmsize
       then Some (Inl Segment_bad_size)
       else if seg_vmaddr + seg_vmsize < seg_vmaddr then Some (Inl Segment_vm_wrap)
       else do {
         sizeofcmds \<leftarrow> rd32 file 20;
         if \<not> w_found w \<and> (seg_fileoff \<noteq> 0 \<or> seg_filesize < 32 + ucast sizeofcmds)
         then Some (Inl Segment_header_not_mapped)
         else
           (let w1 = (if w_found w then w
                      else w\<lparr>w_found := True, w_vmaddr := seg_vmaddr,
                             w_info := (w_info w)\<lparr>vm_base := seg_vmaddr\<rparr>\<rparr>) in
            if seg_vmaddr \<noteq> w_vmaddr w1 then Some (Inl Segment_not_contiguous)
            else Some (Inr (w1\<lparr>w_vmaddr := w_vmaddr w1 + seg_vmsize\<rparr>)))
       }
     }
   }"

definition kext_parse_symtab :: "kext_walk \<Rightarrow> kext_walk kext_result" where
  "kext_parse_symtab w =
     (if symtab (w_info w) \<noteq> None then Some (Inl Symtab_repeated)
      else do {
        let file = w_file w;
        let fsize = file_size (w_info w);
        cmdsize \<leftarrow> rd32 file (w_lc w + 4);
        if cmdsize < 24 then Some (Inl Symtab_bad_size)
        else do {
          nsyms \<leftarrow> rd32 file (w_lc w + 12);
          symoff \<leftarrow> rd32 file (w_lc w + 8);
          let sz = ucast nsyms * 16;
          if ucast symoff > fsize \<or> ucast symoff + sz > fsize then Some (Inl Symtab_bad_symbols)
          else do {
            stroff \<leftarrow> rd32 file (w_lc w + 16);
            if ucast stroff \<ge> fsize then Some (Inl Symtab_bad_strings)
            else Some (Inr (w\<lparr>w_info := (w_info w)\<lparr>symtab := Some (w_lc w)\<rparr>\<rparr>))
          }
        }
      })"

definition kext_parse_dysymtab :: "kext_walk \<Rightarrow> kext_walk kext_result" where
  "kext_parse_dysymtab w =
     (if dysymtab (w_info w) \<noteq> None then Some (Inl Dysymtab_repeated)
      else do {
        let file = w_file w;
        let fsize = file_size (w_info w);
        cmdsize \<leftarrow> rd32 file (w_lc w + 4);
        if cmdsize < 80 then Some (Inl Dysymtab_bad_size)
        else do {
          nextrel \<leftarrow> rd32 file (w_lc w + 68);
          extreloff \<leftarrow> rd32 file (w_lc w + 64);
          if ucast extreloff > fsize \<or> ucast extreloff + ucast nextrel * 8 > fsize
          then Some (Inl Dysymtab_bad_external)
          else do {
            nlocrel \<leftarrow> rd32 file (w_lc w + 76);
            locreloff \<leftarrow> rd32 file (w_lc w + 72);
            if ucast locreloff > fsize \<or> ucast locreloff + ucast nlocrel * 8 > fsize
            then Some (Inl Dysymtab_bad_local)
            else Some (Inr (w\<lparr>w_info := (w_info w)\<lparr>dysymtab := Some (w_lc w)\<rparr>\<rparr>))
          }
        }
      })"

text \<open>
  \<open>LC_SEGMENT_SPLIT_INFO\<close> is overwritten in the file; each later test of the code reads the
  command anew.
\<close>

definition kext_destroy_split_info :: "kext_walk \<Rightarrow> kext_walk kext_stop" where
  "kext_destroy_split_info w = do {
     lc_cmd \<leftarrow> rd32 (w_file w) (w_lc w);
     if lc_cmd = LC_SEGMENT_SPLIT_INFO
     then do {
       file \<leftarrow> wr32 (w_file w) (w_lc w) (lc_cmd XOR 0x41000000);
       Some (Inr (w\<lparr>w_file := file\<rparr>))
     }
     else Some (Inr w)
   }"

definition kext_when :: "u32 \<Rightarrow> (kext_walk \<Rightarrow> kext_walk kext_result) \<Rightarrow> kext_walk \<Rightarrow> kext_walk kext_stop" where
  "kext_when c f w = do {
     lc_cmd \<leftarrow> rd32 (w_file w) (w_lc w);
     if lc_cmd = c then with_file (w_file w) (f w) else Some (Inr w)
   }"

definition kext_next_command :: "kext_walk \<Rightarrow> kext_walk kext_stop" where
  "kext_next_command w = do {
     cmdsize \<leftarrow> rd32 (w_file w) (w_lc w + 4);
     Some (Inr (w\<lparr>w_lc := w_lc w + unat cmdsize\<rparr>))
   }"

definition kext_parse_command :: "nat \<Rightarrow> nat \<Rightarrow> kext_walk \<Rightarrow> kext_walk kext_stop" where
  "kext_parse_command lc_end cmd_idx w =
     (if w_lc w + 8 > lc_end then Some (Inl (Invalid_load_commands, w_file w))
      else do {
        cmdsize \<leftarrow> rd32 (w_file w) (w_lc w + 4);
        if w_lc w + unat cmdsize > lc_end then Some (Inl (Invalid_load_commands, w_file w))
        else
          ebind (kext_when LC_SEGMENT (\<lambda>_. Some (Inl LC_SEGMENT_not_permitted)) w) (\<lambda>w.
          ebind (kext_destroy_split_info w) (\<lambda>w.
          ebind (kext_when LC_SEGMENT_64 kext_parse_segment w) (\<lambda>w.
          ebind (kext_when LC_SYMTAB kext_parse_symtab w) (\<lambda>w.
          ebind (kext_when LC_DYSYMTAB kext_parse_dysymtab w)
            kext_next_command))))
      })"

definition kext_ncmds :: "kext_walk \<Rightarrow> u32 option" where
  "kext_ncmds w = rd32 (w_file w) 16"

section \<open>Symbols\<close>

text \<open>\<open>symtab->stroff + nl->n_un.n_strx\<close> is a sum of two 32-bit fields.\<close>

definition nlist_stroff :: "region \<Rightarrow> nat \<Rightarrow> nat \<Rightarrow> (u32 \<times> u64) option" where
  "nlist_stroff file st nl = do {
     stroff0 \<leftarrow> rd32 file (st + 16);
     n_strx \<leftarrow> rd32 file nl;
     Some (stroff0, ucast (stroff0 + n_strx))
   }"

definition kmod_info_name :: bytes where
  "kmod_info_name = bytes_of ''_kmod_info''"

definition kext_parse_symbol ::
  "region \<Rightarrow> nat \<Rightarrow> u64 \<Rightarrow> nat \<Rightarrow> kext_load_info \<Rightarrow> kext_load_info kext_result" where
  "kext_parse_symbol file st vm_end sym_idx info = do {
     let nl = nlist info + 16 * sym_idx;
     (stroff0, stroff) \<leftarrow> nlist_stroff file st nl;
     if stroff < ucast stroff0 \<or> stroff \<ge> file_size info then Some (Inl Symtab_bad_string)
     else do {
       let max_len = unat (file_size info - stroff);
       sym_len \<leftarrow> c_strnlen file (unat stroff) max_len;
       if sym_len = max_len then Some (Inl Symtab_bad_string)
       else do {
         n_type \<leftarrow> rd8 file (nl + 4);
         n_value \<leftarrow> rd64 file (nl + 8);
         if (n_type AND N_STAB) = 0 \<and> (n_type AND N_TYPE) = N_SECT
            \<and> (n_value < vm_base info \<or> vm_end < n_value)
         then Some (Inl Symtab_bad_address)
         else do {
           is_kmod_info \<leftarrow> c_streq file (unat stroff) kmod_info_name;
           if \<not> is_kmod_info then Some (Inr info)
           else if kmod_info info \<noteq> 0 then Some (Inl Kmod_info_repeated)
           else if (n_type AND N_STAB) \<noteq> 0 \<or> (n_type AND N_TYPE) \<noteq> N_SECT
           then Some (Inl Kmod_info_bad_type)
           else if n_value + 196 < n_value \<or> n_value + 196 > vm_end
           then Some (Inl Kmod_info_bad_address)
           else Some (Inr (info\<lparr>kmod_info := n_value\<rparr>))
         }
       }
     }
   }"

section \<open>Relocations\<close>

text \<open>The bit fields of \<open>struct relocation_info\<close>.\<close>

definition r_symbolnum :: "u32 \<Rightarrow> u32" where "r_symbolnum w = w AND 0xFFFFFF"
definition r_length :: "u32 \<Rightarrow> u32" where "r_length w = drop_bit 25 w AND 3"
definition r_extern :: "u32 \<Rightarrow> bool" where "r_extern w \<longleftrightarrow> bit w 27"

text \<open>The address of a relocation, as the code computes and checks it.\<close>

definition reloc_vm_addr :: "kext_load_info \<Rightarrow> u32 \<Rightarrow> u64" where
  "reloc_vm_addr info r_address = vm_base info + scast r_address"

definition reloc_bad_address :: "kext_load_info \<Rightarrow> u32 \<Rightarrow> u32 \<Rightarrow> bool" where
  "reloc_bad_address info r_address len \<longleftrightarrow>
     (let vm_addr = reloc_vm_addr info r_address in
      vm_addr < vm_base info \<or> vm_addr > vm_size info
      \<or> vm_addr + push_bit (unat len) 1 > vm_size info)"

definition kext_parse_extrel ::
  "(bytes \<Rightarrow> u64 option) \<Rightarrow> region \<Rightarrow> nat \<Rightarrow> kext_load_info \<Rightarrow> nat \<Rightarrow> bool \<Rightarrow> bool kext_result" where
  "kext_parse_extrel lookup file st info er_idx missing_symbols = do {
     let er = extrel info + 8 * er_idx;
     bits \<leftarrow> rd32 file (er + 4);
     nsyms \<leftarrow> rd32 file (st + 12);
     if \<not> r_extern bits then Some (Inl Extrel_not_external)
     else if r_length bits \<noteq> 3 then Some (Inl Extrel_bad_size)
     else if r_symbolnum bits \<ge> nsyms then Some (Inl Extrel_bad_symbol)
     else do {
       (_, stroff) \<leftarrow> nlist_stroff file st (nlist info + 16 * unat (r_symbolnum bits));
       name \<leftarrow> cstr_at file (unat stroff);
       resolved \<leftarrow> lookup name;
       if resolved = 0 then Some (Inr True)
       else do {
         r_address \<leftarrow> rd32 file er;
         if reloc_bad_address info r_address (r_length bits) then Some (Inl Extrel_bad_address)
         else Some (Inr missing_symbols)
       }
     }
   }"

definition kext_parse_locrel :: "region \<Rightarrow> kext_load_info \<Rightarrow> nat \<Rightarrow> unit \<Rightarrow> unit kext_result" where
  "kext_parse_locrel file info lr_idx u = do {
     let lr = locrel info + 8 * lr_idx;
     bits \<leftarrow> rd32 file (lr + 4);
     if r_extern bits then Some (Inl Locrel_external)
     else if r_length bits \<noteq> 3 then Some (Inl Locrel_bad_size)
     else do {
       r_address \<leftarrow> rd32 file lr;
       if reloc_bad_address info r_address (r_length bits) then Some (Inl Locrel_bad_address)
       else Some (Inr ())
     }
   }"

section \<open>The whole file\<close>

definition kext_parse_commands :: "region \<Rightarrow> u64 \<Rightarrow> kext_walk kext_stop" where
  "kext_parse_commands file fsize = do {
     magic \<leftarrow> rd32 file 0;
     filetype \<leftarrow> rd32 file 12;
     sizeofcmds \<leftarrow> rd32 file 20;
     if magic \<noteq> MH_MAGIC_64 then Some (Inl (Not_64_bit_macho, file))
     else if filetype \<noteq> MH_KEXT_BUNDLE then Some (Inl (Not_kext_type, file))
     else if 32 + ucast sizeofcmds > fsize then Some (Inl (Invalid_load_commands_size, file))
     else
       loop_u32 kext_ncmds (kext_parse_command (32 + unat sizeofcmds)) 0
         \<lparr>w_file = file, w_info = kext_load_info_zero\<lparr>file_size := fsize\<rparr>,
          w_vmaddr = 0, w_found = False, w_lc = 32\<rparr>
   }"

definition kext_parse_symbols :: "region \<Rightarrow> nat \<Rightarrow> u64 \<Rightarrow> kext_load_info \<Rightarrow> kext_load_info kext_result" where
  "kext_parse_symbols file st vm_end info = do {
     symoff \<leftarrow> rd32 file (st + 8);
     ebind (loop_u32 (\<lambda>_. rd32 file (st + 12)) (kext_parse_symbol file st vm_end) 0
              (info\<lparr>nlist := unat symoff\<rparr>))
       (\<lambda>info. if kmod_info info = 0 then Some (Inl Kmod_info_required) else Some (Inr info))
   }"

definition kext_parse_relocations ::
  "(bytes \<Rightarrow> u64 option) \<Rightarrow> region \<Rightarrow> nat \<Rightarrow> nat \<Rightarrow> kext_load_info \<Rightarrow> kext_load_info kext_result" where
  "kext_parse_relocations lookup file st dst info0 = do {
     extreloff \<leftarrow> rd32 file (dst + 64);
     let info1 = info0\<lparr>extrel := unat extreloff\<rparr>;
     ebind (loop_u32 (\<lambda>_. rd32 file (dst + 68)) (kext_parse_extrel lookup file st info1) 0 False)
       (\<lambda>missing_symbols.
          if missing_symbols then Some (Inl Missing_symbols)
          else do {
            locreloff \<leftarrow> rd32 file (dst + 72);
            let info2 = info1\<lparr>locrel := unat locreloff\<rparr>;
            ebind (loop_u32 (\<lambda>_. rd32 file (dst + 76)) (kext_parse_locrel file info2) 0 ())
              (\<lambda>_. Some (Inr info2))
          })
   }"

text \<open>
  The result is the file, in which split info commands are gone, and the load information. An error
  leaves the file with the split info commands gone that the walk had passed.
\<close>

definition kext_parse ::
  "(bytes \<Rightarrow> u64 option) \<Rightarrow> region \<Rightarrow> u64 \<Rightarrow> (region \<times> kext_load_info) kext_stop" where
  "kext_parse lookup header fsize =
     ebind (kext_parse_commands header fsize) (\<lambda>w.
       let file = w_file w; vm_end = w_vmaddr w;
           info = (w_info w)\<lparr>vm_size := vm_end - vm_base (w_info w)\<rparr> in
       if \<not> w_found w then Some (Inl (Segment_required, file))
       else
         (case (symtab info, dysymtab info) of
            (None, _) \<Rightarrow> Some (Inl (Symtab_required, file))
          | (Some _, None) \<Rightarrow> Some (Inl (Dysymtab_required, file))
          | (Some st, Some dst) \<Rightarrow>
              ebind (with_file file (kext_parse_symbols file st vm_end info)) (\<lambda>info.
              ebind (with_file file (kext_parse_relocations lookup file st dst info)) (\<lambda>info.
                Some (Inr (file, info))))))"

end
