(* ===== verification/Macho_Layout.thy ===== *)
theory Macho_Layout
  imports Kext_Parse
begin

text \<open>
  The structure that \<open>kext_parse\<close> validates, stated over the finished file: the offset of each
  load command, the segments and the memory they cover. The parser changes the file while it
  walks it (\<open>LC_SEGMENT_SPLIT_INFO\<close>), and commands may be shorter than their own header, so it
  has to be shown that the walk over the changed file is still the same walk.
\<close>

section \<open>Fields\<close>

definition word_at :: "region \<Rightarrow> nat \<Rightarrow> u32" where
  "word_at r off = le_word (rslice r off 4)"

definition dword_at :: "region \<Rightarrow> nat \<Rightarrow> u64" where
  "dword_at r off = le_word (rslice r off 8)"

lemma rd_field: "rd32 r off = (if off + 4 \<le> rsize r then Some (word_at r off) else None)"
  "rd64 r off = (if off + 8 \<le> rsize r then Some (dword_at r off) else None)"
  by (simp_all add: rd32_def rd64_def word_at_def dword_at_def)

lemma rd_field_Some [simp]:
  "off + 4 \<le> rsize r \<Longrightarrow> rd32 r off = Some (word_at r off)"
  "off + 8 \<le> rsize r \<Longrightarrow> rd64 r off = Some (dword_at r off)"
  by (simp_all add: rd_field)

lemma field_cong:
  "(\<And>i. off \<le> i \<Longrightarrow> i < off + 4 \<Longrightarrow> rbyte r i = rbyte r' i) \<Longrightarrow> word_at r off = word_at r' off"
  "(\<And>i. off \<le> i \<Longrightarrow> i < off + 8 \<Longrightarrow> rbyte r i = rbyte r' i) \<Longrightarrow> dword_at r off = dword_at r' off"
  unfolding word_at_def dword_at_def by (metis rslice_cong)+

lemma le_bytes4:
  "le_bytes 4 (w :: u32) = [ucast w, ucast (drop_bit 8 w), ucast (drop_bit 16 w), ucast (drop_bit 24 w)]"
  by (simp add: numeral_eq_Suc(1) drop_bit_drop_bit eval_nat_numeral)

lemma le_bytes_le_word4: "le_bytes 4 (le_word [a, b, c, d] :: u32) = [a, b, c, d]"
proof -
  have "ucast (le_word [a, b, c, d] :: u32) = a"
    by (rule bit_word_eqI) (auto simp: bit_simps dest: bit_imp_le_length)
  moreover have "ucast (drop_bit 8 (le_word [a, b, c, d] :: u32)) = b"
    by (rule bit_word_eqI) (auto simp: bit_simps dest: bit_imp_le_length)
  moreover have "ucast (drop_bit 16 (le_word [a, b, c, d] :: u32)) = c"
    by (rule bit_word_eqI) (auto simp: bit_simps dest: bit_imp_le_length)
  moreover have "ucast (drop_bit 24 (le_word [a, b, c, d] :: u32)) = d"
    by (rule bit_word_eqI) (auto simp: bit_simps dest: bit_imp_le_length)
  ultimately show ?thesis
    by (simp only: le_bytes4)
qed

lemma le_bytes_split_info:
  "le_bytes 4 (LC_SEGMENT_SPLIT_INFO :: u32) = [0x1e, 0, 0, 0]"
  "le_bytes 4 (0x4100001e :: u32) = [0x1e, 0, 0, 0x41]"
  by (simp_all add: le_bytes4)

lemma word_at_bytes: "rslice r off 4 = le_bytes 4 (word_at r off)"
proof -
  have "rslice r off 4 = [rbyte r off, rbyte r (off + 1), rbyte r (off + 2), rbyte r (off + 3)]"
    by (simp add: rslice_def upt_rec numeral_eq_Suc)
  then show ?thesis
    by (simp only: word_at_def le_bytes_le_word4)
qed

lemma word_at_byte: "i < 4 \<Longrightarrow> rbyte r (off + i) = le_bytes 4 (word_at r off) ! i"
  by (metis nth_rslice word_at_bytes)

section \<open>The walk over the load commands\<close>

fun lc_off :: "region \<Rightarrow> nat \<Rightarrow> nat" where
  "lc_off f 0 = 32"
| "lc_off f (Suc k) = lc_off f k + unat (word_at f (lc_off f k + 4))"

lemma lc_off_mono: "k \<le> j \<Longrightarrow> lc_off f k \<le> lc_off f j"
  by (rule lift_Suc_mono_le) simp_all

lemma lc_off_stuck: "word_at f (lc_off f k + 4) = 0 \<Longrightarrow> lc_off f (k + n) = lc_off f k"
  by (induction n) simp_all

text \<open>
  The parser's write to command \<open>j\<close> changes one byte. It may lie in an earlier command only if
  that command is shorter than 8 bytes, and then its size would contradict the bytes found.
\<close>

definition split_info_write :: "region \<Rightarrow> nat \<Rightarrow> region \<Rightarrow> bool" where
  "split_info_write f x f' \<longleftrightarrow>
     rsize f' = rsize f \<and> word_at f x = LC_SEGMENT_SPLIT_INFO
     \<and> (\<forall>i. i \<noteq> x + 3 \<longrightarrow> rbyte f' i = rbyte f i)"

lemma split_info_writeI:
  assumes "wr32 f x (LC_SEGMENT_SPLIT_INFO XOR 0x41000000) = Some f'" and "word_at f x = LC_SEGMENT_SPLIT_INFO"
  shows "split_info_write f x f'"
proof -
  have w: "rsize f' = rsize f"
    "\<forall>i. rbyte f' i = (if x \<le> i \<and> i < x + 4 then le_bytes 4 (LC_SEGMENT_SPLIT_INFO XOR 0x41000000 :: u32) ! (i - x) else rbyte f i)"
    using wr_bytes_SomeD [OF assms(1) [unfolded wr32_def]] by simp_all
  have "rbyte f' i = rbyte f i" if i: "i \<noteq> x + 3" for i
  proof (cases "x \<le> i \<and> i < x + 4")
    case True
    then have "i - x \<in> {0, 1, 2}" using i by auto
    moreover have "rbyte f i = le_bytes 4 (LC_SEGMENT_SPLIT_INFO :: u32) ! (i - x)"
      using word_at_byte [of "i - x" f x] True assms(2) by auto
    ultimately show ?thesis
      using w(2) True by (auto simp: le_bytes_split_info)
  qed (use w in auto)
  with w(1) assms(2) show ?thesis by (simp add: split_info_write_def)
qed

lemma split_info_size_same:
  assumes w: "split_info_write f (lc_off f j) f'" and k: "k \<le> j"
  shows "word_at f' (lc_off f k + 4) = word_at f (lc_off f k + 4)"
proof (rule field_cong(1))
  let ?x = "lc_off f k" and ?y = "lc_off f j"
  fix i assume i: "?x + 4 \<le> i" "i < ?x + 4 + 4"
  have "i \<noteq> ?y + 3"
  proof
    assume eq: "i = ?y + 3"
    let ?d = "?y - ?x" and ?n = "word_at f (?x + 4)"
    have d: "1 \<le> ?d" "?d \<le> 4" "?y = ?x + ?d" using i eq lc_off_mono [OF k] by simp_all
    then have kj: "k < j" using k by (cases "k = j") auto
    then have "lc_off f (Suc k) \<le> ?y" by (intro lc_off_mono) simp
    then have le: "unat ?n \<le> 4" using d by simp
    have "?n \<noteq> 0"
      using lc_off_stuck [of f k "j - k"] kj d(1) by auto
    then have pos: "1 \<le> unat ?n" by (simp add: Suc_le_eq unat_gt_0)
    have "rbyte f (?x + 4) = ucast ?n"
      using word_at_byte [of 0 f "?x + 4"] by (simp add: le_bytes4)
    then have low: "unat (rbyte f (?x + 4)) = unat ?n"
      using le by (simp add: unsigned_ucast_eq take_bit_nat_eq_self)
    have "rbyte f (?y + (4 - ?d)) = le_bytes 4 (LC_SEGMENT_SPLIT_INFO :: u32) ! (4 - ?d)"
      using word_at_byte [of "4 - ?d" f ?y] w d by (simp add: split_info_write_def)
    moreover have "?y + (4 - ?d) = ?x + 4" using d by simp
    moreover have "?d \<in> {1, 2, 3, 4}" using d by auto
    ultimately have "rbyte f (?x + 4) \<in> {0, 0x1e}"
      by (auto simp: le_bytes_split_info add.commute)
    with low le pos show False by auto
  qed
  then show "rbyte f' i = rbyte f i" using w by (simp add: split_info_write_def)
qed

lemma split_info_lc_off:
  assumes "split_info_write f (lc_off f j) f'"
  shows "k \<le> Suc j \<Longrightarrow> lc_off f' k = lc_off f k"
proof (induction k)
  case (Suc k)
  then show ?case using split_info_size_same [OF assms, of k] by simp
qed simp


section \<open>Segments\<close>

definition is_seg :: "region \<Rightarrow> nat \<Rightarrow> bool" where
  "is_seg f k \<longleftrightarrow> word_at f (lc_off f k) = LC_SEGMENT_64"

definition cmdsize_at :: "region \<Rightarrow> nat \<Rightarrow> nat" where
  "cmdsize_at f k = unat (word_at f (lc_off f k + 4))"

definition seg_vmaddr :: "region \<Rightarrow> nat \<Rightarrow> u64" where
  "seg_vmaddr f k = dword_at f (lc_off f k + 24)"

definition seg_vmsize :: "region \<Rightarrow> nat \<Rightarrow> u64" where
  "seg_vmsize f k = dword_at f (lc_off f k + 32)"

definition seg_fileoff :: "region \<Rightarrow> nat \<Rightarrow> u64" where
  "seg_fileoff f k = dword_at f (lc_off f k + 40)"

definition seg_filesize :: "region \<Rightarrow> nat \<Rightarrow> u64" where
  "seg_filesize f k = dword_at f (lc_off f k + 48)"

text \<open>The memory covered by the segments among the first \<open>k\<close> commands.\<close>

fun vm_before :: "region \<Rightarrow> nat \<Rightarrow> nat" where
  "vm_before f 0 = 0"
| "vm_before f (Suc k) = vm_before f k + (if is_seg f k then unat (seg_vmsize f k) else 0)"

lemma vm_before_mono: "k \<le> j \<Longrightarrow> vm_before f k \<le> vm_before f j"
  by (rule lift_Suc_mono_le) simp_all

definition first_seg :: "region \<Rightarrow> nat \<Rightarrow> bool" where
  "first_seg f k \<longleftrightarrow> is_seg f k \<and> (\<forall>i < k. \<not> is_seg f i)"

text \<open>What is known of segment \<open>k\<close> after the walk passed it.\<close>

definition seg_ok :: "region \<Rightarrow> u64 \<Rightarrow> u64 \<Rightarrow> nat \<Rightarrow> bool" where
  "seg_ok f fsize base k \<longleftrightarrow>
     72 \<le> cmdsize_at f k
     \<and> seg_fileoff f k \<le> fsize \<and> seg_fileoff f k + seg_filesize f k \<le> fsize
     \<and> seg_filesize f k \<le> seg_vmsize f k
     \<and> seg_vmaddr f k = base + word_of_nat (vm_before f k)
     \<and> (first_seg f k \<longrightarrow> seg_fileoff f k = 0 \<and> 32 + ucast (word_at f 20) \<le> seg_filesize f k)"

definition walk_ok :: "region \<Rightarrow> u64 \<Rightarrow> u64 \<Rightarrow> nat \<Rightarrow> bool" where
  "walk_ok f fsize base j \<longleftrightarrow>
     32 + unat (word_at f 20) \<le> unat fsize \<and> unat fsize \<le> rsize f
     \<and> (\<forall>k < j. lc_off f k + 8 \<le> 32 + unat (word_at f 20))
     \<and> lc_off f j \<le> 32 + unat (word_at f 20)
     \<and> (\<forall>k < j. is_seg f k \<longrightarrow> seg_ok f fsize base k)
     \<and> unat base + vm_before f j < 2 ^ 64"

text \<open>Fields in front of command \<open>j\<close> keep their value when command \<open>j\<close> is rewritten.\<close>

lemma split_info_fields:
  assumes "split_info_write f x f'"
  shows "off + 4 \<le> x + 3 \<Longrightarrow> word_at f' off = word_at f off"
    and "off + 8 \<le> x + 3 \<Longrightarrow> dword_at f' off = dword_at f off"
    and "x + 3 < off \<Longrightarrow> word_at f' off = word_at f off"
    and "x + 3 < off \<Longrightarrow> dword_at f' off = dword_at f off"
  using assms by (auto intro!: field_cong simp: split_info_write_def)

lemma split_info_is_seg:
  assumes w: "split_info_write f (lc_off f j) f'" and k: "k \<le> j"
  shows "is_seg f' k \<longleftrightarrow> is_seg f k"
proof -
  have off: "lc_off f' k = lc_off f k" using split_info_lc_off [OF w] k by simp
  have le: "lc_off f k \<le> lc_off f j" using lc_off_mono [OF k] .
  show ?thesis
  proof (cases "lc_off f k = lc_off f j")
    case True
    have "word_at f' (lc_off f j) \<noteq> LC_SEGMENT_64"
    proof
      assume "word_at f' (lc_off f j) = LC_SEGMENT_64"
      then have "rbyte f' (lc_off f j) = 0x19"
        using word_at_byte [of 0 f' "lc_off f j"] by (simp add: le_bytes4)
      moreover have "rbyte f (lc_off f j) = 0x1e"
        using w word_at_byte [of 0 f "lc_off f j"] by (simp add: split_info_write_def le_bytes4)
      ultimately show False using w by (auto simp: split_info_write_def)
    qed
    then show ?thesis
      using w True off by (simp add: is_seg_def split_info_write_def)
  next
    case False
    then have "word_at f' (lc_off f k) = word_at f (lc_off f k)"
      using split_info_fields(1) [OF w, of "lc_off f k"] le by simp
    then show ?thesis by (simp add: is_seg_def off)
  qed
qed

lemma split_info_walk:
  assumes w: "split_info_write f (lc_off f j) f'" and ok: "walk_ok f fsize base j"
  shows "walk_ok f' fsize base j" and "vm_before f' j = vm_before f j"
proof -
  note off = split_info_lc_off [OF w] and seg = split_info_is_seg [OF w]
  have hdr: "word_at f' 20 = word_at f 20"
    using split_info_fields(1) [OF w, of 20] lc_off_mono [of 0 j f] by simp
  have room: "lc_off f k + 72 \<le> lc_off f j" if "k < j" "is_seg f k" for k
  proof -
    have "lc_off f k + cmdsize_at f k \<le> lc_off f j"
      using lc_off_mono [of "Suc k" j f] that by (simp add: cmdsize_at_def)
    moreover have "seg_ok f fsize base k" using ok that by (simp add: walk_ok_def)
    ultimately show ?thesis by (simp add: seg_ok_def)
  qed
  have fields: "seg_vmaddr f' k = seg_vmaddr f k" "seg_vmsize f' k = seg_vmsize f k"
    "seg_fileoff f' k = seg_fileoff f k" "seg_filesize f' k = seg_filesize f k"
    "cmdsize_at f' k = cmdsize_at f k" if "k < j" "is_seg f k" for k
    using room [OF that] off [of k] that split_info_fields(2) [OF w] split_info_size_same [OF w, of k]
    by (simp_all add: seg_vmaddr_def seg_vmsize_def seg_fileoff_def seg_filesize_def cmdsize_at_def)
  have vm: "k \<le> j \<Longrightarrow> vm_before f' k = vm_before f k" for k
    by (induction k) (simp_all add: seg fields)
  have first: "first_seg f' k = first_seg f k" if "k < j" for k
    using that seg by (auto simp: first_seg_def)
  have "seg_ok f' fsize base k" if "k < j" "is_seg f k" for k
    using ok that fields [OF that] vm [of k] first [of k] hdr by (simp add: walk_ok_def seg_ok_def)
  then show "walk_ok f' fsize base j"
    using ok off seg vm hdr w by (auto simp: walk_ok_def split_info_write_def)
  show "vm_before f' j = vm_before f j" by (rule vm) simp
qed

section \<open>Symbol table commands\<close>

definition symtab_ok :: "region \<Rightarrow> u64 \<Rightarrow> nat \<Rightarrow> nat \<Rightarrow> bool" where
  "symtab_ok f fsize lim x \<longleftrightarrow>
     32 \<le> x \<and> x + 24 \<le> lim
     \<and> unat (word_at f (x + 8)) + 16 * unat (word_at f (x + 12)) \<le> unat fsize
     \<and> unat (word_at f (x + 16)) < unat fsize"

definition dysymtab_ok :: "region \<Rightarrow> u64 \<Rightarrow> nat \<Rightarrow> nat \<Rightarrow> bool" where
  "dysymtab_ok f fsize lim x \<longleftrightarrow>
     32 \<le> x \<and> x + 80 \<le> lim
     \<and> unat (word_at f (x + 64)) + 8 * unat (word_at f (x + 68)) \<le> unat fsize
     \<and> unat (word_at f (x + 72)) + 8 * unat (word_at f (x + 76)) \<le> unat fsize"

lemma symtab_ok_mono: "symtab_ok f fsize lim x \<Longrightarrow> lim \<le> lim' \<Longrightarrow> symtab_ok f fsize lim' x"
  by (simp add: symtab_ok_def)

lemma dysymtab_ok_mono: "dysymtab_ok f fsize lim x \<Longrightarrow> lim \<le> lim' \<Longrightarrow> dysymtab_ok f fsize lim' x"
  by (simp add: dysymtab_ok_def)

text \<open>\<open>x\<close> is where one of the first \<open>j\<close> commands starts; its kind is \<open>c\<close> and it has \<open>len\<close> bytes.\<close>

definition cmd_of :: "region \<Rightarrow> nat \<Rightarrow> u32 \<Rightarrow> nat \<Rightarrow> nat \<Rightarrow> bool" where
  "cmd_of f j c x len \<longleftrightarrow>
     (\<exists>i < j. x = lc_off f i \<and> x + len \<le> lc_off f (Suc i) \<and> word_at f x = c)"

lemma cmd_of_Suc: "cmd_of f j c x len \<Longrightarrow> cmd_of f (Suc j) c x len"
  unfolding cmd_of_def using less_SucI by blast

lemma split_info_cmd_of:
  assumes w: "split_info_write f (lc_off f j) f'" and c: "cmd_of f j c x len" and "4 \<le> len"
  shows "cmd_of f' j c x len"
proof -
  obtain i where i: "i < j" "x = lc_off f i" "x + len \<le> lc_off f (Suc i)" "word_at f x = c"
    using c by (auto simp: cmd_of_def)
  then have "lc_off f' i = lc_off f i" "lc_off f' (Suc i) = lc_off f (Suc i)"
    using split_info_lc_off [OF w, of i] split_info_lc_off [OF w, of "Suc i"] by simp_all
  moreover have "word_at f' x = c"
    using split_info_fields(1) [OF w, of x] lc_off_mono [of "Suc i" j f] i assms(3) by simp
  ultimately show ?thesis using i unfolding cmd_of_def by metis
qed

lemma split_info_symtab:
  assumes "split_info_write f y f'"
  shows "symtab_ok f fsize y x \<Longrightarrow> symtab_ok f' fsize y x"
    and "dysymtab_ok f fsize y x \<Longrightarrow> dysymtab_ok f' fsize y x"
  using split_info_fields(1) [OF assms] by (simp_all add: symtab_ok_def dysymtab_ok_def)

lemma unat_ucast_u32 [simp]: "unat (ucast (w :: u32) :: u64) = unat w"
  using unat_u32_less [of w] by (simp add: unsigned_ucast_eq take_bit_nat_eq_self)

text \<open>An array of \<open>n\<close> elements behind an offset: the 64-bit check does not overflow.\<close>

lemma array_check:
  "unat (ucast (o1 :: u32) + ucast (n :: u32) * 16 :: u64) = unat o1 + 16 * unat n"
  "unat (ucast o1 + ucast n * 8 :: u64) = unat o1 + 8 * unat n"
proof -
  have "ucast o1 + ucast n * 16 = (word_of_nat (unat o1 + 16 * unat n) :: u64)"
    "ucast o1 + ucast n * 8 = (word_of_nat (unat o1 + 8 * unat n) :: u64)"
    by (simp_all add: mult.commute)
  then show "unat (ucast o1 + ucast n * 16 :: u64) = unat o1 + 16 * unat n"
    "unat (ucast o1 + ucast n * 8 :: u64) = unat o1 + 8 * unat n"
    using unat_u32_less [of o1] unat_u32_less [of n] unat_of_nat [of "unat o1 + 16 * unat n", where 'a = 64]
      unat_of_nat [of "unat o1 + 8 * unat n", where 'a = 64]
    by (simp_all del: of_nat_add of_nat_mult of_nat_numeral)
qed

section \<open>The invariant of the walk\<close>

definition kext_inv :: "nat \<Rightarrow> u32 \<Rightarrow> u32 \<Rightarrow> u64 \<Rightarrow> nat \<Rightarrow> kext_walk \<Rightarrow> bool" where
  "kext_inv R ncmds szc fsize j w \<longleftrightarrow>
     rsize (w_file w) = R \<and> word_at (w_file w) 16 = ncmds \<and> word_at (w_file w) 20 = szc
     \<and> file_size (w_info w) = fsize \<and> kmod_info (w_info w) = 0
     \<and> walk_ok (w_file w) fsize (vm_base (w_info w)) j
     \<and> w_lc w = lc_off (w_file w) j
     \<and> (w_found w \<longleftrightarrow> (\<exists>k < j. is_seg (w_file w) k))
     \<and> (w_found w \<longrightarrow> w_vmaddr w = vm_base (w_info w) + word_of_nat (vm_before (w_file w) j))
     \<and> (\<not> w_found w \<longrightarrow> vm_base (w_info w) = 0 \<and> w_vmaddr w = 0)
     \<and> (\<forall>x. symtab (w_info w) = Some x \<longrightarrow> symtab_ok (w_file w) fsize (lc_off (w_file w) j) x
          \<and> cmd_of (w_file w) j LC_SYMTAB x 24)
     \<and> (\<forall>x. dysymtab (w_info w) = Some x \<longrightarrow> dysymtab_ok (w_file w) fsize (lc_off (w_file w) j) x
          \<and> cmd_of (w_file w) j LC_DYSYMTAB x 80)"

text \<open>The command at the cursor lies in the load commands.\<close>

definition lc_fits :: "u32 \<Rightarrow> nat \<Rightarrow> kext_walk \<Rightarrow> bool" where
  "lc_fits szc j w \<longleftrightarrow>
     lc_off (w_file w) j + 8 \<le> 32 + unat szc \<and> lc_off (w_file w) (Suc j) \<le> 32 + unat szc"

lemma destroy_split_info_inv:
  assumes inv: "kext_inv R ncmds szc fsize j w" and fits: "lc_fits szc j w"
  shows "wp (kext_destroy_split_info w) (\<lambda>w'. kext_inv R ncmds szc fsize j w' \<and> lc_fits szc j w')"
proof -
  let ?f = "w_file w" and ?x = "w_lc w"
  have x: "?x = lc_off ?f j" "32 \<le> ?x" "?x + 8 \<le> rsize ?f"
    using inv fits lc_off_mono [of 0 j ?f] by (auto simp: kext_inv_def lc_fits_def walk_ok_def)
  show ?thesis
  proof (cases "word_at ?f ?x = LC_SEGMENT_SPLIT_INFO")
    case False
    then show ?thesis
      using inv fits x by (simp add: kext_destroy_split_info_def wp_simps)
  next
    case True
    obtain f' where f': "wr32 ?f ?x (LC_SEGMENT_SPLIT_INFO XOR 0x41000000) = Some f'"
      using wr_not_None(2) [of ?f ?x "LC_SEGMENT_SPLIT_INFO XOR 0x41000000"] x by auto
    have sw: "split_info_write ?f (lc_off ?f j) f'"
      using split_info_writeI [OF f' True] x by simp
    note walk = split_info_walk [OF sw] and off = split_info_lc_off [OF sw]
    have hdr: "word_at f' 16 = word_at ?f 16" "word_at f' 20 = word_at ?f 20"
      using split_info_fields(1) [OF sw, of 16] split_info_fields(1) [OF sw, of 20] x by simp_all
    have "kext_inv R ncmds szc fsize j (w\<lparr>w_file := f'\<rparr>)"
      using inv walk off [of j] hdr split_info_symtab [OF sw] split_info_is_seg [OF sw]
        split_info_cmd_of [OF sw] sw
      by (auto simp: kext_inv_def split_info_write_def)
    moreover have "lc_fits szc j (w\<lparr>w_file := f'\<rparr>)"
      using fits off [of j] off [of "Suc j"] by (simp add: lc_fits_def del: lc_off.simps)
    ultimately show ?thesis
      using x f' True by (simp add: kext_destroy_split_info_def wp_simps)
  qed
qed

text \<open>
  After the test for \<open>LC_SEGMENT_64\<close>: everything but the cursor is as it will be at command \<open>j + 1\<close>.
\<close>

definition kext_mid :: "nat \<Rightarrow> u32 \<Rightarrow> u32 \<Rightarrow> u64 \<Rightarrow> nat \<Rightarrow> kext_walk \<Rightarrow> bool" where
  "kext_mid R ncmds szc fsize j w \<longleftrightarrow>
     w_lc w = lc_off (w_file w) j \<and> lc_fits szc j w
     \<and> kext_inv R ncmds szc fsize (Suc j) (w\<lparr>w_lc := lc_off (w_file w) (Suc j)\<rparr>)"

lemma kext_inv_room:
  assumes inv: "kext_inv R ncmds szc fsize j w" and fits: "lc_fits szc j w"
  shows "w_lc w = lc_off (w_file w) j" and "32 \<le> w_lc w"
    and "w_lc w + 8 \<le> 32 + unat szc" and "w_lc w + cmdsize_at (w_file w) j \<le> 32 + unat szc"
    and "32 + unat szc \<le> unat fsize" and "unat fsize \<le> rsize (w_file w)"
  using inv fits lc_off_mono [of 0 j "w_file w"]
  by (auto simp: kext_inv_def lc_fits_def walk_ok_def cmdsize_at_def)

lemma walk_ok_step:
  assumes ok: "walk_ok f fsize base j"
    and "lc_off f j + 8 \<le> 32 + unat (word_at f 20)" "lc_off f (Suc j) \<le> 32 + unat (word_at f 20)"
    and "is_seg f j \<Longrightarrow> seg_ok f fsize base j"
    and "unat base + vm_before f (Suc j) < 2 ^ 64"
  shows "walk_ok f fsize base (Suc j)"
  using assms by (auto simp: walk_ok_def less_Suc_eq)

lemma not_segment_mid:
  assumes inv: "kext_inv R ncmds szc fsize j w" and fits: "lc_fits szc j w"
    and "\<not> is_seg (w_file w) j"
  shows "kext_mid R ncmds szc fsize j w"
proof -
  let ?f = "w_file w"
  have le: "lc_off ?f j \<le> lc_off ?f (Suc j)" by simp
  have szc: "word_at ?f 20 = szc" "walk_ok ?f fsize (vm_base (w_info w)) j"
    "w_lc w = lc_off ?f j"
    using inv by (simp_all only: kext_inv_def)
  have vm: "vm_before ?f (Suc j) = vm_before ?f j" using assms(3) by simp
  have walk: "walk_ok ?f fsize (vm_base (w_info w)) (Suc j)"
    by (rule walk_ok_step [OF szc(2)])
      (use fits szc assms(3) in \<open>auto simp: lc_fits_def walk_ok_def vm simp del: vm_before.simps\<close>)
  have seg: "(\<exists>k < Suc j. is_seg ?f k) \<longleftrightarrow> (\<exists>k < j. is_seg ?f k)"
    using assms(3) by (auto simp: less_Suc_eq)
  show ?thesis
    using inv fits walk szc vm seg symtab_ok_mono [OF _ le] dysymtab_ok_mono [OF _ le] cmd_of_Suc
    by (auto simp: kext_mid_def kext_inv_def simp del: vm_before.simps lc_off.simps)
qed

lemma vm_before_none: "\<forall>k < j. \<not> is_seg f k \<Longrightarrow> vm_before f j = 0"
  by (induction j) simp_all

lemma no_wrap: "\<not> a + b < (a :: u64) \<Longrightarrow> unat a + unat b < 2 ^ 64"
  using no_olen_add_nat [of a b] by (simp add: not_less)

lemma unat_u64_add: "unat (b :: u64) + n < 2 ^ 64 \<Longrightarrow> unat (b + word_of_nat n) = unat b + n"
  by (simp add: unat_word_ariths unat_of_nat)

lemma parse_segment_mid:
  assumes inv: "kext_inv R ncmds szc fsize j w" and fits: "lc_fits szc j w"
    and seg: "is_seg (w_file w) j"
  shows "wp (kext_parse_segment w) (kext_mid R ncmds szc fsize j)"
proof -
  let ?f = "w_file w" and ?x = "w_lc w"
  note room = kext_inv_room [OF inv fits]
  have I: "rsize ?f = R" "word_at ?f 16 = ncmds" "word_at ?f 20 = szc"
    "file_size (w_info w) = fsize" "kmod_info (w_info w) = 0"
    "walk_ok ?f fsize (vm_base (w_info w)) j"
    "w_found w \<longleftrightarrow> (\<exists>k < j. is_seg ?f k)"
    "w_found w \<longrightarrow> w_vmaddr w = vm_base (w_info w) + word_of_nat (vm_before ?f j)"
    "\<not> w_found w \<longrightarrow> vm_base (w_info w) = 0 \<and> w_vmaddr w = 0"
    "\<forall>x. symtab (w_info w) = Some x \<longrightarrow> symtab_ok ?f fsize (lc_off ?f j) x \<and> cmd_of ?f j LC_SYMTAB x 24"
    "\<forall>x. dysymtab (w_info w) = Some x \<longrightarrow> dysymtab_ok ?f fsize (lc_off ?f j) x \<and> cmd_of ?f j LC_DYSYMTAB x 80"
    using inv unfolding kext_inv_def by blast+
  have size: "rd32 ?f (?x + 4) = Some (word_at ?f (?x + 4))" using room by simp
  show ?thesis
  proof (cases "72 \<le> cmdsize_at ?f j")
    case False
    then have "word_at ?f (?x + 4) < 72"
      using room(1) by (simp add: cmdsize_at_def word_less_nat_alt)
    then show ?thesis
      by (simp add: kext_parse_segment_def size wp_simps)
  next
    case True
    then have big: "\<not> word_at ?f (?x + 4) < 72"
      using room(1) by (simp add: cmdsize_at_def word_less_nat_alt)
    have fields: "rd64 ?f (?x + 24) = Some (seg_vmaddr ?f j)" "rd64 ?f (?x + 32) = Some (seg_vmsize ?f j)"
      "rd64 ?f (?x + 40) = Some (seg_fileoff ?f j)" "rd64 ?f (?x + 48) = Some (seg_filesize ?f j)"
      "rd32 ?f 20 = Some szc"
      using room True I(3) by (simp_all add: seg_vmaddr_def seg_vmsize_def seg_fileoff_def seg_filesize_def)
    define b where "b = (if w_found w then vm_base (w_info w) else seg_vmaddr ?f j)"
    define w1 where "w1 = (if w_found w then w
      else w\<lparr>w_found := True, w_vmaddr := seg_vmaddr ?f j,
             w_info := (w_info w)\<lparr>vm_base := seg_vmaddr ?f j\<rparr>\<rparr>)"
    let ?w = "w1\<lparr>w_vmaddr := w_vmaddr w1 + seg_vmsize ?f j\<rparr>"
    have w1: "w_file w1 = ?f" "w_lc w1 = ?x" "w_found w1" "vm_base (w_info w1) = b"
      "file_size (w_info w1) = fsize" "kmod_info (w_info w1) = 0"
      "symtab (w_info w1) = symtab (w_info w)" "dysymtab (w_info w1) = dysymtab (w_info w)"
      using I by (auto simp: w1_def b_def)
    let ?c1 = "seg_fileoff ?f j > fsize \<or> seg_fileoff ?f j + seg_filesize ?f j > fsize
      \<or> seg_filesize ?f j > seg_vmsize ?f j"
    let ?c2 = "seg_vmaddr ?f j + seg_vmsize ?f j < seg_vmaddr ?f j"
    let ?c3 = "\<not> w_found w \<and> (seg_fileoff ?f j \<noteq> 0 \<or> seg_filesize ?f j < 32 + ucast szc)"
    let ?c4 = "seg_vmaddr ?f j \<noteq> w_vmaddr w1"
    have run: "kext_parse_segment w =
      (if ?c1 then Some (Inl Segment_bad_size) else if ?c2 then Some (Inl Segment_vm_wrap)
       else if ?c3 then Some (Inl Segment_header_not_mapped)
       else if ?c4 then Some (Inl Segment_not_contiguous) else Some (Inr ?w))"
      by (simp only: kext_parse_segment_def Let_def size bind.bind_lunit fields I(4) w1_def [symmetric] big if_False)
    have mid: "kext_mid R ncmds szc fsize j ?w" if good: "\<not> ?c1" "\<not> ?c2" "\<not> ?c3" "\<not> ?c4"
    proof -
      have first: "first_seg ?f j \<longleftrightarrow> \<not> w_found w"
        using seg I(7) by (auto simp: first_seg_def)
      have none: "vm_before ?f j = 0" if "\<not> w_found w"
        using I(7) that by (intro vm_before_none) auto
      have addr: "seg_vmaddr ?f j = b + word_of_nat (vm_before ?f j)"
        using good(4) I(8) none by (auto simp: w1_def b_def)
      have "unat b + vm_before ?f j < 2 ^ 64"
        using I(6) none unsigned_less [where 'a = nat, of b] by (auto simp: b_def walk_ok_def)
      then have "unat (seg_vmaddr ?f j) = unat b + vm_before ?f j"
        using addr unat_u64_add by simp
      then have wrap: "unat b + vm_before ?f (Suc j) < 2 ^ 64"
        using no_wrap [OF good(2)] seg by simp
      have "walk_ok ?f fsize b j"
        using I(6,7) \<open>unat b + vm_before ?f j < 2 ^ 64\<close> by (auto simp: walk_ok_def b_def)
      then have walk: "walk_ok ?f fsize b (Suc j)"
        by (rule walk_ok_step)
          (use fits I(3) True good addr first wrap in \<open>auto simp: lc_fits_def seg_ok_def not_less simp del: lc_off.simps vm_before.simps\<close>)
      have vm: "w_vmaddr w1 + seg_vmsize ?f j = b + word_of_nat (vm_before ?f (Suc j))"
        using good(4) addr seg by simp
      have le: "lc_off ?f j \<le> lc_off ?f (Suc j)" by simp
      show ?thesis
        using I w1 walk vm seg fits room(1) symtab_ok_mono [OF _ le] dysymtab_ok_mono [OF _ le] cmd_of_Suc
        by (auto simp: kext_mid_def kext_inv_def lc_fits_def simp del: vm_before.simps lc_off.simps)
    qed
    show ?thesis
      using mid unfolding run wp_guard wp_result by blast
  qed
qed

end
