(* ===== verification/Kernelcache_Tables.thy ===== *)
theory Kernelcache_Tables
  imports Kernelcache_Symbols
begin

text \<open>
  What the symbol tables of \<^verbatim>\<open>kextload.c\<close> stand for: a list of names and addresses. A lookup is
  a search of that list, and filling a table from uploaded data that passes the checks of the
  command yields the list that the data encodes.
\<close>

section \<open>Representation\<close>

definition table_rep :: "symtab_object \<Rightarrow> (bytes \<times> u64) list \<Rightarrow> bool" where
  "table_rep t es \<longleftrightarrow>
     length es < 2 ^ 32
     \<and> rd64 (snd t) 8 = Some (word_of_nat (length es))
     \<and> rd64 (snd t) 16 = Some (fst t + 32)
     \<and> rd64 (snd t) 24 = Some (fst t + word_of_nat (32 + 8 * length es))
     \<and> (\<forall>i < length es.
          rd64 (snd t) (32 + 8 * length es + 8 * i) = Some (snd (es ! i))
          \<and> (\<exists>j < 2 ^ 64. rd64 (snd t) (32 + 8 * i) = Some (fst t + word_of_nat j)
                \<and> cstr_at (snd t) j = Some (fst (es ! i))))"

lemma lookup_entries_spec:
  assumes rep: "table_rep (base, obj) es" and sym: "0 \<notin> set symbol"
  shows "i + n = length es \<Longrightarrow> lookup_entries base obj symbol n i = Some (map_of (drop i es) symbol)"
proof (induction n arbitrary: i)
  case 0
  then show ?case by simp
next
  case (Suc n)
  then have i: "i < length es" by simp
  then obtain j where j: "j < 2 ^ 64" "rd64 obj (32 + 8 * i) = Some (base + word_of_nat j)"
    "cstr_at obj j = Some (fst (es ! i))" "rd64 obj (32 + 8 * length es + 8 * i) = Some (snd (es ! i))"
    using rep by (auto simp: table_rep_def)
  have arr: "rd64 obj 16 = Some (base + 32)" "rd64 obj 24 = Some (base + word_of_nat (32 + 8 * length es))"
    and len: "length es < 2 ^ 32"
    using rep by (simp_all add: table_rep_def)
  have uj: "unat (word_of_nat j :: u64) = j"
    using j(1) by (simp add: unat_of_nat)
  have ua: "unat (word_of_nat (32 + 8 * length es) :: u64) = 32 + 8 * length es"
    using len by (simp only: unat_of_nat) simp
  have "drop i es = es ! i # drop (Suc i) es"
    using i by (simp add: Cons_nth_drop_Suc)
  moreover have "c_streq obj j symbol = Some (fst (es ! i) = symbol)"
    using c_streq_cstr [OF j(3) sym] .
  moreover have "lookup_entries base obj symbol n (Suc i) = Some (map_of (drop (Suc i) es) symbol)"
    using Suc by simp
  ultimately show ?case
    using j(2,4) arr uj ua by (simp add: Option.bind_assoc del: of_nat_add of_nat_mult of_nat_numeral)
qed

text \<open>A chain stands for the concatenation of its tables.\<close>

definition chain_rep :: "symtab_object list \<Rightarrow> (bytes \<times> u64) list list \<Rightarrow> bool" where
  "chain_rep ts ess \<longleftrightarrow> list_all2 table_rep ts ess"

lemma symbol_table_lookup_spec:
  assumes "chain_rep ts ess" and "0 \<notin> set symbol"
  shows "symbol_table_lookup ts symbol
    = Some (case map_of (concat ess) symbol of None \<Rightarrow> 0 | Some a \<Rightarrow> a)"
  using assms(1) unfolding chain_rep_def
proof (induction rule: list_all2_induct)
  case Nil
  then show ?case by simp
next
  case (Cons t ts es ess)
  obtain base obj where t: "t = (base, obj)" by fastforce
  have len: "rd64 obj 8 = Some (word_of_nat (length es))" "length es < 2 ^ 32"
    using Cons(1) by (simp_all add: table_rep_def t)
  then have "unat (word_of_nat (length es) :: u64) = length es"
    by (simp add: unat_of_nat)
  then show ?case
    using lookup_entries_spec [OF Cons(1) [unfolded t] assms(2), of 0 "length es"] Cons(3) len
    by (simp add: t map_add_def split: option.split)
qed

section \<open>Filling a table\<close>

text \<open>The entries that the data encodes from offset \<open>p\<close>, and the strings from offset \<open>o\<close>.\<close>

definition sym_off :: "region \<Rightarrow> nat \<Rightarrow> nat \<Rightarrow> u32" where
  "sym_off data p i = le_word (rslice data (p + 12 * i) 4)"

definition sym_addr :: "region \<Rightarrow> nat \<Rightarrow> nat \<Rightarrow> u64" where
  "sym_addr data p i = le_word (rslice data (p + 12 * i + 4) 8)"

definition sym_ptr :: "region \<Rightarrow> nat \<Rightarrow> u64 \<Rightarrow> nat \<Rightarrow> nat \<Rightarrow> u64" where
  "sym_ptr data p base n i = base + word_of_nat (32 + 16 * n + unat (sym_off data p i))"

definition data_entry :: "region \<Rightarrow> nat \<Rightarrow> bytes \<Rightarrow> nat \<Rightarrow> bytes \<times> u64" where
  "data_entry data p str i =
     (takeWhile (\<lambda>c. c \<noteq> 0) (drop (unat (sym_off data p i)) str), sym_addr data p i)"

definition data_entries :: "region \<Rightarrow> nat \<Rightarrow> bytes \<Rightarrow> nat \<Rightarrow> (bytes \<times> u64) list" where
  "data_entries data p str n = map (data_entry data p str) [0..<n]"

text \<open>Entry \<open>i\<close> lies in the data and its string offset passes the check of the code.\<close>

definition entry_ok :: "region \<Rightarrow> nat \<Rightarrow> nat \<Rightarrow> u64 \<Rightarrow> nat \<Rightarrow> bool" where
  "entry_ok data p sz k i \<longleftrightarrow> p + 12 * Suc i \<le> sz \<and> ucast (sym_off data p i + 1) \<le> k"

definition fill_inv ::
  "region \<Rightarrow> nat \<Rightarrow> nat \<Rightarrow> u64 \<Rightarrow> u64 \<Rightarrow> nat \<Rightarrow> nat \<Rightarrow> nat \<Rightarrow> region \<times> nat \<Rightarrow> bool" where
  "fill_inv data p0 sz k base n S j s \<longleftrightarrow>
     rsize (fst s) = S \<and> snd s = p0 + 12 * j
     \<and> holds (fst s) 8 (le_bytes 8 (word_of_nat n :: u64) @ le_bytes 8 (base + 32)
         @ le_bytes 8 (base + word_of_nat (32 + 8 * n)))
     \<and> holds (fst s) 32 (concat (map (le_bytes 8) (map (sym_ptr data p0 base n) [0..<j])))
     \<and> holds (fst s) (32 + 8 * n) (concat (map (le_bytes 8) (map (sym_addr data p0) [0..<j])))
     \<and> (\<forall>i < j. entry_ok data p0 sz k i)"

lemma table_pointer:
  "base + 32 + ucast (c :: u32) * 8 + ucast c * 8 + ucast (w :: u32)
     = base + (word_of_nat (32 + 16 * unat c + unat w) :: u64)"
  "base + 32 + ucast c * 8 = base + (word_of_nat (32 + 8 * unat c) :: u64)"
  by (simp_all add: algebra_simps)

lemma put_symbol_step:
  assumes inv: "fill_inv data p0 sz k base n S j s" and j: "j < n" "n = unat c"
    and room: "32 + 16 * n \<le> S" "sz \<le> rsize data"
  shows "if entry_ok data p0 sz k j
    then wt (put_symbol data sz k base c j s) (fill_inv data p0 sz k base n S (Suc j))
    else put_symbol data sz k base c j s = Some (Inl Invalid_symbol_table)"
proof (cases "entry_ok data p0 sz k j")
  case False
  with inv room(2) show ?thesis
    by (auto simp: put_symbol_def get_u32_def get_u64_def entry_ok_def fill_inv_def rd32_def rd64_def
        sym_off_def add.assoc)
next
  case True
  let ?p = "p0 + 12 * j"
  have I: "rsize (fst s) = S" "snd s = ?p"
    "holds (fst s) 8 (le_bytes 8 (word_of_nat n :: u64) @ le_bytes 8 (base + 32)
         @ le_bytes 8 (base + word_of_nat (32 + 8 * n)))"
    "holds (fst s) 32 (concat (map (le_bytes 8) (map (sym_ptr data p0 base n) [0..<j])))"
    "holds (fst s) (32 + 8 * n) (concat (map (le_bytes 8) (map (sym_addr data p0) [0..<j])))"
    "\<forall>i < j. entry_ok data p0 sz k i"
    using inv unfolding fill_inv_def by blast+
  have ptr: "base + 32 + ucast c * 8 + ucast c * 8 + ucast (sym_off data p0 j) = sym_ptr data p0 base n j"
    by (simp only: table_pointer(1) sym_ptr_def j(2))
  obtain o1 where o1: "wr64 (fst s) (32 + 8 * j) (sym_ptr data p0 base n j) = Some o1"
    using I(1) room(1) j wr_not_None(3) [of "fst s" "32 + 8 * j" "sym_ptr data p0 base n j"] by auto
  then have s1: "rsize o1 = S" using I(1) by (simp add: wr64_SomeD)
  obtain o2 where o2: "wr64 o1 (32 + 8 * n + 8 * j) (sym_addr data p0 j) = Some o2"
    using s1 room(1) j wr_not_None(3) [of o1 "32 + 8 * n + 8 * j" "sym_addr data p0 j"] by auto
  then have s2: "rsize o2 = S" using s1 by (simp add: wr64_SomeD)
  note w1 = o1 [unfolded wr64_def] and w2 = o2 [unfolded wr64_def]
  have g: "get_u32 data sz ?p = Some (Inr (sym_off data p0 j, ?p + 4))"
    "get_u64 data sz (?p + 4) = Some (Inr (sym_addr data p0 j, p0 + 12 * Suc j))"
    "\<not> k < ucast (sym_off data p0 j + 1)"
    using True room(2)
    by (simp_all add: get_u32_def get_u64_def rd32_def rd64_def entry_ok_def sym_off_def sym_addr_def not_less)
  have run: "put_symbol data sz k base c j s = Some (Inr (o2, p0 + 12 * Suc j))"
    by (simp only: put_symbol_def I(2) g ebind_simps prod.case if_False ptr o1 o2 bind.bind_lunit
        j(2) [symmetric])
  have len: "length (concat (map (le_bytes 8) (map f [0..<j]))) = 8 * j" for f :: "nat \<Rightarrow> u64"
    by (simp only: u64.length_puts length_map length_upt diff_zero)
  have snoc: "concat (map (le_bytes 8) (map f [0..<Suc j]))
      = concat (map (le_bytes 8) (map f [0..<j])) @ le_bytes 8 (f j)" for f :: "nat \<Rightarrow> u64"
    by simp
  have "holds o2 8 (le_bytes 8 (word_of_nat n :: u64) @ le_bytes 8 (base + 32)
         @ le_bytes 8 (base + word_of_nat (32 + 8 * n)))"
    using holds_wr_other [OF holds_wr_other [OF I(3) w1] w2] by simp
  moreover have "holds o2 32 (concat (map (le_bytes 8) (map (sym_ptr data p0 base n) [0..<Suc j])))"
    unfolding snoc
    by (rule holds_wr_other [OF holds_wr_append [OF I(4) w1] w2]) (use len j(1) in simp_all)
  moreover have "holds o2 (32 + 8 * n) (concat (map (le_bytes 8) (map (sym_addr data p0) [0..<Suc j])))"
    unfolding snoc
    by (rule holds_wr_append [OF holds_wr_other [OF I(5) w1] w2]) (use len j(1) in simp_all)
  moreover have "\<forall>i < Suc j. entry_ok data p0 sz k i"
    using I(6) True by (simp add: less_Suc_eq)
  ultimately have "fill_inv data p0 sz k base n S (Suc j) (o2, p0 + 12 * Suc j)"
    using s2 by (simp only: fill_inv_def fst_conv snd_conv simp_thms)
  then show ?thesis
    using True by (simp add: run wp_simps)
qed


section \<open>The finished table\<close>

text \<open>What the loop and the two copies behind it leave in the allocation.\<close>

definition table_done ::
  "region \<Rightarrow> nat \<Rightarrow> nat \<Rightarrow> u64 \<Rightarrow> u64 \<Rightarrow> nat \<Rightarrow> bytes \<Rightarrow> region \<Rightarrow> bool" where
  "table_done data p0 sz k base n str obj \<longleftrightarrow>
     (\<exists>p. fill_inv data p0 sz k base n (rsize obj) n (obj, p))
     \<and> holds obj (32 + 16 * n) str"

lemma cstr_at_holds:
  assumes h: "holds r a str" and str: "0 \<in> set (drop o1 str)"
  shows "cstr_at r (a + o1) = Some (takeWhile (\<lambda>c. c \<noteq> 0) (drop o1 str))"
proof (rule cstr_at_append)
  let ?s = "takeWhile (\<lambda>c. c \<noteq> 0) (drop o1 str)"
  have less: "length ?s < length (drop o1 str)"
    using str by (metis (mono_tags, lifting) length_takeWhile_le le_neq_implies_less set_takeWhileD takeWhile_eq_take take_all_iff)
  then have "drop o1 str ! length ?s = 0"
    using nth_length_takeWhile [of "\<lambda>c. c \<noteq> 0" "drop o1 str"] by simp
  with less have z: "str ! (o1 + length ?s) = 0" "o1 + length ?s < length str"
    by simp_all
  have at: "rbyte r (a + i) = str ! i" if "i < length str" for i
    using h that nth_rslice [of i "length str" r a] by (simp add: holds_def)
  show "0 \<notin> set ?s" by (auto dest: set_takeWhileD)
  show "a + o1 + length ?s < rsize r"
    using h z(2) by (simp add: holds_def)
  show "rbyte r (a + o1 + length ?s) = 0"
    using at [OF z(2)] z(1) by (simp add: add.assoc)
  fix i assume i: "i < length ?s"
  then have "?s ! i = drop o1 str ! i" by (rule takeWhile_nth)
  then show "rbyte r (a + o1 + i) = ?s ! i"
    using at [of "o1 + i"] i z(2) less by (simp add: add.assoc)
qed

lemma last_zero: "str \<noteq> [] \<Longrightarrow> last str = 0 \<Longrightarrow> o1 < length str \<Longrightarrow> (0::u8) \<in> set (drop o1 str)"
  by (metis drop_eq_Nil last_drop last_in_set not_less)

text \<open>With every string offset inside the strings, the block represents the encoded entries.\<close>

lemma table_done_rep:
  assumes t: "table_done data p0 sz k base n str obj" and n: "n < 2 ^ 32"
    and str: "str \<noteq> []" "last str = 0" "\<And>i. i < n \<Longrightarrow> unat (sym_off data p0 i) < length str"
  shows "table_rep (base, obj) (data_entries data p0 str n)"
proof -
  obtain p where I: "fill_inv data p0 sz k base n (rsize obj) n (obj, p)"
    and strs: "holds obj (32 + 16 * n) str"
    using t by (auto simp: table_done_def)
  have h: "holds obj 8 (le_bytes 8 (word_of_nat n :: u64))" "holds obj 16 (le_bytes 8 (base + 32))"
    "holds obj 24 (le_bytes 8 (base + word_of_nat (32 + 8 * n)))"
    "holds obj 32 (concat (map (le_bytes 8) (map (sym_ptr data p0 base n) [0..<n])))"
    "holds obj (32 + 8 * n) (concat (map (le_bytes 8) (map (sym_addr data p0) [0..<n])))"
    using I unfolding fill_inv_def holds_append by simp_all
  have rd: "rd64 obj (32 + 8 * n + 8 * i) = Some (sym_addr data p0 i)"
    "rd64 obj (32 + 8 * i) = Some (sym_ptr data p0 base n i)" if "i < n" for i
    using u64.holds_chunk [OF h(5), of i] u64.holds_chunk [OF h(4), of i] that
    by (simp_all add: holds_rd(2))
  have str_at: "cstr_at obj (32 + 16 * n + unat (sym_off data p0 i)) = Some (fst (data_entry data p0 str i))"
    if "i < n" for i
    using cstr_at_holds [OF strs last_zero [OF str(1,2) str(3) [OF that]]] by (simp add: data_entry_def)
  have "\<exists>j < 2 ^ 64. rd64 obj (32 + 8 * i) = Some (base + word_of_nat j)
      \<and> cstr_at obj j = Some (fst (data_entry data p0 str i))" if "i < n" for i
    using rd(2) [OF that] str_at [OF that] n unat_u32_less [of "sym_off data p0 i"]
    by (intro exI [of _ "32 + 16 * n + unat (sym_off data p0 i)"])
      (simp add: sym_ptr_def del: of_nat_add of_nat_mult of_nat_numeral)
  with rd(1) show ?thesis
    using n holds_rd(2) [OF h(1)] holds_rd(2) [OF h(2)] holds_rd(2) [OF h(3)]
    unfolding table_rep_def
    by (simp add: data_entries_def data_entry_def del: of_nat_add of_nat_mult of_nat_numeral)
qed

section \<open>The command\<close>

lemma fill_inv_wr:
  assumes "fill_inv data p0 sz k base n S j (o1, p)" and "wr_bytes o1 a bs = Some o2"
    and "j \<le> n" and "a + length bs \<le> 8 \<or> 32 + 16 * n \<le> a"
  shows "fill_inv data p0 sz k base n S j (o2, p)"
proof -
  have len: "length (concat (map (le_bytes 8) (map f [0..<j]))) = 8 * j" for f :: "nat \<Rightarrow> u64"
    by (simp only: u64.length_puts length_map length_upt diff_zero)
  note keep = holds_wr_other [OF _ assms(2)]
  have "holds o2 8 (le_bytes 8 (word_of_nat n :: u64) @ le_bytes 8 (base + 32)
         @ le_bytes 8 (base + word_of_nat (32 + 8 * n)))"
    by (rule keep) (use assms in \<open>auto simp: fill_inv_def\<close>)
  moreover have "holds o2 32 (concat (map (le_bytes 8) (map (sym_ptr data p0 base n) [0..<j])))"
    by (rule keep) (use assms len in \<open>auto simp: fill_inv_def\<close>)
  moreover have "holds o2 (32 + 8 * n) (concat (map (le_bytes 8) (map (sym_addr data p0) [0..<j])))"
    by (rule keep) (use assms len in \<open>auto simp: fill_inv_def\<close>)
  ultimately show ?thesis
    using assms(1) wr_bytes_SomeD [OF assms(2)] by (simp add: fill_inv_def)
qed

lemma strings_size:
  "unat strings \<le> unat count \<Longrightarrow> unat (symbol_strings_size count strings) = unat count - unat strings"
proof -
  assume le: "unat strings \<le> unat count"
  have u: "unat (ucast (w :: u32) :: u64) = unat w" for w
    using unat_u32_less [of w] by (simp add: unsigned_ucast_eq take_bit_nat_eq_self)
  have "(ucast strings :: u64) \<le> ucast count"
    using le by (simp add: word_le_nat_alt u)
  then show ?thesis
    by (simp add: symbol_strings_size_def unat_sub u)
qed

lemma alloc_size:
  "unat k < 2 ^ 32 \<Longrightarrow> unat (table_alloc_size c k) = 32 + 16 * unat c + unat k"
proof -
  assume k: "unat k < 2 ^ 32"
  have "table_alloc_size c k = word_of_nat (32 + 16 * unat c + unat k)"
    by (simp add: table_alloc_size_def algebra_simps)
  moreover have "32 + 16 * unat c + unat k < 2 ^ LENGTH(64)"
    using k unat_u32_less [of c] by simp
  ultimately show ?thesis
    by (simp only: unat_of_nat mod_less)
qed

text \<open>The checks of the command beyond the strings offset.\<close>

definition upload_ok :: "region \<Rightarrow> nat \<Rightarrow> nat \<Rightarrow> u64 \<Rightarrow> nat \<Rightarrow> bool" where
  "upload_ok data p sz k n \<longleftrightarrow>
     unat k \<ge> 1 \<and> rbyte data (sz - 1) = 0 \<and> (\<forall>i < n. entry_ok data p sz k i)"

lemma fill_start:
  assumes "rsize obj = S" and "32 \<le> S" and n: "n = unat (c :: u32)" "32 + 16 * n \<le> S"
  obtains o1 o2 o3 where "wr64 obj 8 (ucast c) = Some o1" "wr64 o1 16 (base + 32) = Some o2"
    "wr64 o2 24 (base + 32 + ucast c * 8) = Some o3"
    "fill_inv data p sz k base n S 0 (o3, p)"
proof -
  obtain o1 where o1: "wr64 obj 8 (ucast c) = Some o1"
    using assms wr_not_None(3) [of obj 8 "ucast c"] by auto
  then have s1: "rsize o1 = S" using assms by (simp add: wr64_SomeD)
  obtain o2 where o2: "wr64 o1 16 (base + 32) = Some o2"
    using s1 assms wr_not_None(3) [of o1 16 "base + 32"] by auto
  then have s2: "rsize o2 = S" using s1 by (simp add: wr64_SomeD)
  obtain o3 where o3: "wr64 o2 24 (base + 32 + ucast c * 8) = Some o3"
    using s2 assms wr_not_None(3) [of o2 24 "base + 32 + ucast c * 8"] by auto
  then have s3: "rsize o3 = S" using s2 by (simp add: wr64_SomeD)
  note w = o1 [unfolded wr64_def] o2 [unfolded wr64_def] o3 [unfolded wr64_def]
  have "holds o2 8 (le_bytes 8 (ucast c :: u64) @ le_bytes 8 (base + 32))"
    using holds_wr_append [OF holds_wr_same [OF w(1)] w(2)] by simp
  then have "holds o3 8 ((le_bytes 8 (ucast c :: u64) @ le_bytes 8 (base + 32))
      @ le_bytes 8 (base + 32 + ucast c * 8))"
    by (rule holds_wr_append [OF _ w(3)]) simp
  then have "fill_inv data p sz k base n S 0 (o3, p)"
    using s3 assms by (simp add: fill_inv_def table_pointer(2) del: of_nat_add of_nat_mult of_nat_numeral)
  with o1 o2 o3 that show ?thesis by blast
qed

lemma wt_imp_wp: "wt r Q \<Longrightarrow> wp r Q"
  by (auto simp: wt_def wp_def)

lemma fill_finish:
  assumes I: "fill_inv data p0 sz k base n S n (o4, p)" and S: "S = 32 + 16 * n + length str"
  obtains o5 o6 where "wr_bytes o4 (32 + 8 * n + 8 * n) str = Some o5" "wr64 o5 0 nxt = Some o6"
    "table_done data p0 sz k base n str o6"
proof -
  have s4: "rsize o4 = S" using I by (simp add: fill_inv_def)
  obtain o5 where o5: "wr_bytes o4 (32 + 8 * n + 8 * n) str = Some o5"
    using s4 S wr_not_None(1) [of o4 "32 + 8 * n + 8 * n" str] by auto
  then have s5: "rsize o5 = S" using s4 wr_bytes_SomeD by auto
  obtain o6 where o6: "wr64 o5 0 nxt = Some o6"
    using s5 S wr_not_None(3) [of o5 0 nxt] by auto
  then have s6: "rsize o6 = S" using s5 by (simp add: wr64_SomeD)
  have I5: "fill_inv data p0 sz k base n S n (o5, p)"
    by (rule fill_inv_wr [OF I o5]) simp_all
  have "fill_inv data p0 sz k base n S n (o6, p)"
    by (rule fill_inv_wr [OF I5 o6 [unfolded wr64_def]]) simp_all
  moreover have "holds o6 (32 + 16 * n) str"
    using holds_wr_other [OF holds_wr_same [OF o5] o6 [unfolded wr64_def]] by (simp add: add.commute)
  ultimately have "table_done data p0 sz k base n str o6"
    unfolding table_done_def s6 by blast
  with o5 o6 that show ?thesis by blast
qed

lemma fill_table_spec:
  fixes count strings c :: u32 and data :: region
  defines "k \<equiv> symbol_strings_size count strings" and "n \<equiv> unat c"
  defines "str \<equiv> rslice data (unat strings) (unat k)"
  assumes le: "unat strings \<le> unat count" and data: "unat count \<le> rsize data"
    and obj: "rsize obj = unat (table_alloc_size c k)"
  shows "wp (fill_table data count c strings p base nxt obj)
      (\<lambda>o6. upload_ok data p (unat count) k n \<and> table_done data p (unat count) k base n str o6)"
    and "upload_ok data p (unat count) k n
      \<Longrightarrow> wt (fill_table data count c strings p base nxt obj)
        (table_done data p (unat count) k base n str)"
proof -
  let ?sz = "unat count" and ?S = "32 + 16 * n + length str"
  let ?P = "table_done data p ?sz k base n str"
  have k: "unat k = ?sz - unat strings" "length str = unat k"
    using strings_size [OF le] by (simp_all add: k_def str_def)
  have S: "rsize obj = ?S"
    using alloc_size [of k c] unat_u32_less [of count] obj k by (simp add: n_def)
  obtain o1 o2 o3 where w: "wr64 obj 8 (ucast c) = Some o1" "wr64 o1 16 (base + 32) = Some o2"
    "wr64 o2 24 (base + 32 + ucast c * 8) = Some o3" and I0: "fill_inv data p ?sz k base n ?S 0 (o3, p)"
    using fill_start [OF S _ n_def [THEN meta_eq_to_obj_eq], of base data p ?sz k] by auto
  define tl where "tl = (\<lambda>(o4 :: region, _ :: nat).
      if unat strings + unat k > ?sz then Some (Inl Invalid_symbol_table)
      else do {
        s \<leftarrow> rd_bytes data (unat strings) (unat k);
        o5 \<leftarrow> wr_bytes o4 (32 + 8 * unat c + 8 * unat c) s;
        o6 \<leftarrow> wr64 o5 0 nxt;
        Some (Inr o6)
      })"
  let ?loop = "for_loop (unat c) 0 (put_symbol data ?sz k base c) (o3, p)"
  let ?early = "unat k < 1 \<or> rbyte data (?sz - 1) \<noteq> 0"
  have bit: "k < 1 \<longleftrightarrow> unat k < 1" by (simp add: word_less_nat_alt)
  have run: "fill_table data count c strings p base nxt obj
      = (if ?early then Some (Inl Invalid_symbol_table) else ebind ?loop tl)"
  proof (cases "unat k < 1")
    case True
    then show ?thesis
      using le by (simp add: fill_table_def w bit k_def [symmetric] Let_def unat_eq_0)
  next
    case False
    then have "unat (k - 1) = unat k - 1"
      by (simp add: unat_sub word_le_nat_alt)
    then have "unat strings + unat (k - 1) = ?sz - 1" "?sz - 1 < rsize data"
      using False k le data by simp_all
    moreover have "\<not> k < 1" "\<not> unat count < unat strings" using False le bit by simp_all
    ultimately show ?thesis
      using False by (simp add: fill_table_def w k_def [symmetric] Let_def tl_def)
  qed
  have tl: "wt (tl s) ?P" if F: "fill_inv data p ?sz k base n ?S n s" for s
  proof -
    obtain o4 p' where s: "s = (o4, p')" by fastforce
    obtain o5 o6 where "wr_bytes o4 (32 + 8 * n + 8 * n) str = Some o5" "wr64 o5 0 nxt = Some o6" "?P o6"
      using fill_finish [OF F [unfolded s] refl, of nxt] by blast
    moreover have "rd_bytes data (unat strings) (unat k) = Some str"
      using k le data by (simp add: rd_bytes_def str_def)
    ultimately show ?thesis
      using k le by (simp add: tl_def s wp_simps n_def)
  qed
  have step: "if entry_ok data p ?sz k j
    then wt (put_symbol data ?sz k base c j t) (fill_inv data p ?sz k base n ?S (Suc j))
    else put_symbol data ?sz k base c j t = Some (Inl Invalid_symbol_table)"
    if "j < n" "fill_inv data p ?sz k base n ?S j t" for j t
    by (rule put_symbol_step [OF that(2,1) n_def [THEN meta_eq_to_obj_eq] _ data]) simp
  have "wp ?loop (fill_inv data p ?sz k base n ?S (0 + unat c))"
  proof (rule wp_for_loop [where I = "fill_inv data p ?sz k base n ?S"])
    show "fill_inv data p ?sz k base n ?S 0 (o3, p)" by (rule I0)
  next
    fix j t assume "0 \<le> j" and j: "j < 0 + unat c" and I: "fill_inv data p ?sz k base n ?S j t"
    show "wp (put_symbol data ?sz k base c j t) (fill_inv data p ?sz k base n ?S (Suc j))"
      using step [OF _ I] j by (auto simp: n_def wp_simps split: if_splits intro: wt_imp_wp)
  qed
  then have "wp (ebind ?loop tl) (\<lambda>o6. (\<forall>i < n. entry_ok data p ?sz k i) \<and> ?P o6)"
    unfolding wp_simps
  proof (rule wp_mono)
    fix s assume *: "fill_inv data p ?sz k base n ?S (0 + unat c) s"
    then have "wt (tl s) ?P" using tl by (simp add: n_def)
    then show "wp (tl s) (\<lambda>o6. (\<forall>i < n. entry_ok data p ?sz k i) \<and> ?P o6)"
      using * by (auto simp: fill_inv_def n_def wt_def wp_def)
  qed
  then show "wp (fill_table data count c strings p base nxt obj)
      (\<lambda>o6. upload_ok data p ?sz k n \<and> ?P o6)"
    unfolding run upload_ok_def by (auto simp: wp_simps elim!: wp_mono)
  assume ok: "upload_ok data p ?sz k n"
  have "wt ?loop (fill_inv data p ?sz k base n ?S (0 + unat c))"
  proof (rule wt_for_loop [where I = "fill_inv data p ?sz k base n ?S"])
    show "fill_inv data p ?sz k base n ?S 0 (o3, p)" by (rule I0)
  next
    fix j t assume "0 \<le> j" and j: "j < 0 + unat c" and I: "fill_inv data p ?sz k base n ?S j t"
    show "wt (put_symbol data ?sz k base c j t) (fill_inv data p ?sz k base n ?S (Suc j))"
      using step [OF _ I] j ok by (auto simp: n_def upload_ok_def)
  qed
  then have "wt (ebind ?loop tl) ?P"
    unfolding wp_simps by (rule wt_mono) (use tl in \<open>simp add: n_def\<close>)
  then show "wt (fill_table data count c strings p base nxt obj) ?P"
    using ok by (simp add: run upload_ok_def)
qed

text \<open>The search for the descriptor stays in the data and ends at a position of it.\<close>

lemma find_descriptor_wp:
  "sz \<le> rsize data \<Longrightarrow> length u = 16 \<Longrightarrow> wp (find_descriptor data sz u n p) (\<lambda>q. q \<le> sz)"
proof (induction n arbitrary: p)
  case 0
  then show ?case by (simp add: wp_simps)
next
  case (Suc n)
  show ?case
  proof (cases "p + 20 \<le> sz")
    case False
    then show ?thesis by (auto simp: get_u32_def wp_simps)
  next
    case True
    then obtain d where "c_memcmp data p (region_of u) 0 16 = Some d"
      using memcmp_spec [of p 16 data 0 "region_of u"] Suc.prems by auto
    with True Suc show ?thesis
      by (auto simp: get_u32_def rd32_def wp_simps)
  qed
qed

lemma select_kernelcache_wp:
  assumes "sz \<le> rsize data" and "length u = 16"
  shows "wp (select_kernelcache data sz u) (\<lambda>(c, strings, p). 8 \<le> sz \<and> p \<le> sz)"
proof -
  have get: "wp (get_u32 data sz p) (\<lambda>(w, q). q = p + 4 \<and> q \<le> sz)" for p
    using assms(1) by (auto simp: get_u32_def rd32_def wp_simps)
  have count: "wp (get_u32 data sz q) (\<lambda>x. 8 \<le> sz \<and> snd x \<le> sz)" if "8 \<le> sz" for q
    by (rule wp_mono [OF get]) (use that in auto)
  have desc: "wp (find_descriptor data sz u n q) (\<lambda>q. wp (get_u32 data sz q) (\<lambda>x. 8 \<le> sz \<and> snd x \<le> sz))"
    if "8 \<le> sz" for n q
    by (rule wp_mono [OF find_descriptor_wp [OF assms]]) (rule count [OF that])
  have second: "wp (get_u32 data sz 4) (\<lambda>x. wp (find_descriptor data sz u n (snd x))
      (\<lambda>q. wp (get_u32 data sz q) (\<lambda>x. 8 \<le> sz \<and> snd x \<le> sz)))" for n
    by (rule wp_mono [OF get]) (use desc in auto)
  show ?thesis
    unfolding select_kernelcache_def wp_simps split_def
    by (rule wp_mono [OF get]) (use second in \<open>simp add: split_def wp_simps\<close>)
qed

section \<open>The kernelcache UUID\<close>

text \<open>The load commands, and a UUID command that starts in them, lie in the kernel image.\<close>

definition kernel_ok :: "region \<Rightarrow> bool" where
  "kernel_ok mh \<longleftrightarrow> 32 + unat (le_word (rslice mh 20 4) :: u32) + 16 \<le> rsize mh"

lemma find_uuid_command_wp:
  "lc_end \<le> rsize mh \<Longrightarrow> wp (find_uuid_command mh lc_end n lc) (\<lambda>uc. uc + 8 \<le> lc_end)"
proof (induction n arbitrary: lc)
  case 0
  then show ?case by (simp add: wp_simps)
next
  case (Suc n)
  then show ?case by (auto simp: wp_simps rd32_def)
qed

lemma kernelcache_find_uuid_total:
  assumes "kernel_ok (mh_execute_header st)" and "length (kernelcache_uuid st) = 16"
  obtains u b where "length u = 16"
    "kernelcache_find_uuid st = Some (st\<lparr>kernelcache_uuid := u, kernelcache_uuid_found := b\<rparr>)"
proof (cases "kernelcache_uuid_found st")
  case True
  then have "kernelcache_find_uuid st
      = Some (st\<lparr>kernelcache_uuid := kernelcache_uuid st, kernelcache_uuid_found := True\<rparr>)"
    by (simp add: kernelcache_find_uuid_def)
  with assms(2) that show ?thesis by blast
next
  case False
  let ?mh = "mh_execute_header st"
  obtain s n where r: "rd32 ?mh 20 = Some s" "rd32 ?mh 16 = Some n" "32 + unat s + 16 \<le> rsize ?mh"
    using assms(1) by (auto simp: kernel_ok_def rd32_def)
  have "wp (find_uuid_command ?mh (32 + unat s) (unat n) 32) (\<lambda>uc. uc + 8 \<le> 32 + unat s)"
    using r(3) by (intro find_uuid_command_wp) simp
  then consider e where "find_uuid_command ?mh (32 + unat s) (unat n) 32 = Some (Inl e)"
    | uc where "find_uuid_command ?mh (32 + unat s) (unat n) 32 = Some (Inr uc)" "uc + 8 \<le> 32 + unat s"
    by (auto simp: wp_def split: option.splits sum.splits)
  then show ?thesis
  proof cases
    case 1
    then have "kernelcache_find_uuid st
        = Some (st\<lparr>kernelcache_uuid := kernelcache_uuid st, kernelcache_uuid_found := False\<rparr>)"
      using False r by (simp add: kernelcache_find_uuid_def)
    with assms(2) that show ?thesis by blast
  next
    case 2
    then have "kernelcache_find_uuid st
        = Some (st\<lparr>kernelcache_uuid := rslice ?mh (uc + 8) 16, kernelcache_uuid_found := True\<rparr>)"
      using False r by (simp add: kernelcache_find_uuid_def rd_bytes_def)
    with that show ?thesis by (metis length_rslice)
  qed
qed

section \<open>The command keeps the chain well formed\<close>

definition current_uuid :: "pongo_state \<Rightarrow> bytes" where
  "current_uuid st =
     (case kernelcache_find_uuid (st\<lparr>loader_xfer_recv_count := 0\<rparr>) of
        Some st' \<Rightarrow> kernelcache_uuid st' | None \<Rightarrow> [])"

text \<open>
  What the command relies on without checking it in time: the strings start inside the upload and
  no string offset is the one that overflows the check.
\<close>

definition upload_sane :: "region \<Rightarrow> u32 \<Rightarrow> bytes \<Rightarrow> bool" where
  "upload_sane data count u =
     (case select_kernelcache data (unat count) u of
        Some (Inr (c, strings, p)) \<Rightarrow>
          unat strings \<le> unat count
          \<and> (\<forall>i < unat c. p + 12 * Suc i \<le> unat count \<longrightarrow> sym_off data p i \<noteq> 0xFFFFFFFF)
      | _ \<Rightarrow> True)"

definition pongo_ok :: "pongo_state \<Rightarrow> bool" where
  "pongo_ok st \<longleftrightarrow>
     kernel_ok (mh_execute_header st) \<and> length (kernelcache_uuid st) = 16
     \<and> unat (loader_xfer_recv_count st) \<le> rsize (loader_xfer_recv_data st)
     \<and> (\<exists>ess. chain_rep (kernelcache_symbol_table st) ess)
     \<and> heap_live st = map fst (kernelcache_symbol_table st)"

lemma entry_ok_offset:
  assumes "entry_ok data p sz k i" and "sym_off data p i \<noteq> 0xFFFFFFFF"
  shows "unat (sym_off data p i) < unat k"
proof -
  let ?w = "sym_off data p i"
  have "?w + 1 \<noteq> 0"
  proof
    assume "?w + 1 = 0"
    then have "(?w + 1) - 1 = 0 - 1" by (rule arg_cong)
    then show False using assms(2) by simp
  qed
  then have "unat (ucast (?w + 1) :: u64) = Suc (unat ?w)"
    using unat_u32_less [of "?w + 1"] unat_u32_Suc [of ?w]
    by (simp add: unsigned_ucast_eq take_bit_nat_eq_self)
  with assms(1) show ?thesis
    by (simp add: entry_ok_def word_le_nat_alt)
qed

lemma rslice_last: "n \<noteq> 0 \<Longrightarrow> last (rslice r a n) = rbyte r (a + n - 1)"
  by (simp add: last_conv_nth flip: length_0_conv)

text \<open>A filled table represents the encoded entries.\<close>

lemma fill_table_rep:
  assumes le: "unat strings \<le> unat count" and data: "unat count \<le> rsize data"
    and obj: "rsize obj = unat (table_alloc_size c (symbol_strings_size count strings))"
    and off: "\<And>i. i < unat c \<Longrightarrow> p + 12 * Suc i \<le> unat count \<Longrightarrow> sym_off data p i \<noteq> 0xFFFFFFFF"
  shows "wp (fill_table data count c strings p base nxt obj)
    (\<lambda>o6. table_rep (base, o6)
       (data_entries data p (rslice data (unat strings) (unat count - unat strings)) (unat c)))"
proof (rule wp_mono [OF fill_table_spec(1) [OF le data obj]])
  let ?k = "symbol_strings_size count strings"
  let ?str = "rslice data (unat strings) (unat ?k)"
  have k: "unat ?k = unat count - unat strings" by (rule strings_size [OF le])
  fix o6 assume *: "upload_ok data p (unat count) ?k (unat c)
    \<and> table_done data p (unat count) ?k base (unat c) ?str o6"
  then have "unat ?k \<ge> 1" and "rbyte data (unat count - 1) = 0"
    and entries: "\<And>i. i < unat c \<Longrightarrow> entry_ok data p (unat count) ?k i"
    by (simp_all add: upload_ok_def)
  then have "?str \<noteq> []" "last ?str = 0"
    using k by (auto simp: rslice_last simp flip: length_0_conv)
  moreover have "unat (sym_off data p i) < length ?str" if "i < unat c" for i
    using entry_ok_offset [OF entries [OF that]] off [OF that] entries [OF that]
    by (simp add: entry_ok_def)
  ultimately show "table_rep (base, o6) (data_entries data p (rslice data (unat strings)
      (unat count - unat strings)) (unat c))"
    using table_done_rep [of data p "unat count" ?k base "unat c" ?str o6] * unat_u32_less [of c]
    by (simp add: k)
qed

lemma command_kernelcache_symbols_ok:
  assumes ok: "pongo_ok st"
    and sane: "upload_sane (loader_xfer_recv_data st) (loader_xfer_recv_count st) (current_uuid st)"
  obtains r st' where "command_kernelcache_symbols malloc st = Some (r, st')" and "pongo_ok st'"
    and "case r of Inl _ \<Rightarrow> kernelcache_symbol_table st' = kernelcache_symbol_table st
        | Inr n \<Rightarrow> \<exists>t es. kernelcache_symbol_table st' = t # kernelcache_symbol_table st
            \<and> table_rep t es \<and> length es = unat n"
proof -
  let ?data = "loader_xfer_recv_data st" and ?count = "loader_xfer_recv_count st"
  let ?st = "st\<lparr>loader_xfer_recv_count := 0\<rparr>"
  note ok' = ok [unfolded pongo_ok_def]
  obtain u b where u: "length u = 16"
    and find: "kernelcache_find_uuid ?st = Some (?st\<lparr>kernelcache_uuid := u, kernelcache_uuid_found := b\<rparr>)"
    using kernelcache_find_uuid_total [of ?st] ok' by auto
  let ?st1 = "?st\<lparr>kernelcache_uuid := u, kernelcache_uuid_found := b\<rparr>"
  have cur: "current_uuid st = u" by (simp add: current_uuid_def find)
  have selected: "wp (select_kernelcache ?data (unat ?count) u) (\<lambda>(c, strings, p). 8 \<le> unat ?count \<and> p \<le> unat ?count)"
    using ok' u by (intro select_kernelcache_wp) auto
  have st1: "pongo_ok ?st1"
    using ok' u by (simp add: pongo_ok_def)
  consider (err) e where "select_kernelcache ?data (unat ?count) u = Some (Inl e)"
    | (sel) c strings p where "select_kernelcache ?data (unat ?count) u = Some (Inr (c, strings, p))"
    using selected by (cases rule: wp_cases) auto
  then show thesis
  proof cases
    case err
    then have "command_kernelcache_symbols malloc st = Some (Inl e, ?st1)"
      by (simp add: command_kernelcache_symbols_def find Let_def)
    then show thesis using st1 by (rule that) simp
  next
    case sel
    let ?k = "symbol_strings_size ?count strings"
    show thesis
    proof (cases "malloc (table_alloc_size c ?k)")
      case None
      then have "command_kernelcache_symbols malloc st = Some (Inl Failed_to_allocate, ?st1)"
        using sel by (simp add: command_kernelcache_symbols_def find Let_def)
      then show thesis using st1 by (rule that) simp
    next
      case (Some blk)
      obtain base junk where m: "malloc (table_alloc_size c ?k) = Some (base, junk)"
        using Some by (cases blk) auto
      let ?obj = "\<lparr>rsize = unat (table_alloc_size c ?k), rbyte = junk\<rparr>"
      let ?r = "fill_table ?data ?count c strings p base (chain_head (kernelcache_symbol_table st)) ?obj"
      have sane': "unat strings \<le> unat ?count"
        "\<And>i. i < unat c \<Longrightarrow> p + 12 * Suc i \<le> unat ?count \<Longrightarrow> sym_off ?data p i \<noteq> 0xFFFFFFFF"
        using sane by (simp_all add: upload_sane_def cur sel)
      let ?es = "data_entries ?data p (rslice ?data (unat strings) (unat ?count - unat strings)) (unat c)"
      have "wp ?r (\<lambda>o6. table_rep (base, o6) ?es)"
        using fill_table_rep [OF sane'(1) _ _ sane'(2), where obj = ?obj] ok' by simp
      then consider (bad) e where "?r = Some (Inl e)"
        | (good) o6 where "?r = Some (Inr o6)" "table_rep (base, o6) ?es"
        by (cases rule: wp_cases)
      then show thesis
      proof cases
        case bad
        then have "command_kernelcache_symbols malloc st = Some (Inl e, ?st1)"
          using sel by (simp add: command_kernelcache_symbols_def find Let_def m)
        then show thesis using st1 by (rule that) simp
      next
        case good
        let ?st2 = "?st1\<lparr>heap_live := base # heap_live st,
          kernelcache_symbol_table := (base, o6) # kernelcache_symbol_table st\<rparr>"
        have "command_kernelcache_symbols malloc st = Some (Inr c, ?st2)"
          using sel good by (simp add: command_kernelcache_symbols_def find Let_def m)
        moreover have "pongo_ok ?st2"
          using ok' u good(2) by (auto simp: pongo_ok_def chain_rep_def list_all2_Cons1)
        moreover have "length ?es = unat c" by (simp add: data_entries_def)
        ultimately show thesis
          using good(2) by (intro that [of "Inr c" ?st2]) auto
      qed
    qed
  qed
qed

section \<open>The symbol table as a service\<close>

text \<open>
  What the kernel extension loader asks of the symbol table: as long as its state is well formed,
  a lookup of a C string returns.
\<close>

locale symbol_resolver =
  fixes resolve :: "'st \<Rightarrow> bytes \<Rightarrow> u64 option"
    and ready :: "'st \<Rightarrow> bool"
  assumes resolve_total: "ready st \<Longrightarrow> 0 \<notin> set s \<Longrightarrow> resolve st s \<noteq> None"
begin

lemma resolve_Some: "ready st \<Longrightarrow> 0 \<notin> set s \<Longrightarrow> \<exists>a. resolve st s = Some a"
  using resolve_total by blast

end

interpretation kernelcache: symbol_resolver kernelcache_symbol_table_lookup pongo_ok
proof
  fix st s assume "pongo_ok st" and s: "0 \<notin> set (s :: bytes)"
  then obtain ess where "chain_rep (kernelcache_symbol_table st) ess"
    by (auto simp: pongo_ok_def)
  from symbol_table_lookup_spec [OF this s]
  show "kernelcache_symbol_table_lookup st s \<noteq> None"
    by (simp add: kernelcache_symbol_table_lookup_def)
qed

end
