(* ===== verification/Kext_Parse_Safe.thy ===== *)
theory Kext_Parse_Safe
  imports Macho_Layout Kernelcache_Tables
begin

text \<open>
  \<open>kext_parse\<close> never reads or writes outside the uploaded file, and what it accepts has the
  structure that the later phases rely on.
\<close>

section \<open>The remaining steps of one command\<close>

lemma kext_mid_room:
  assumes mid: "kext_mid R ncmds szc fsize j w"
  shows "w_lc w = lc_off (w_file w) j" and "32 \<le> w_lc w" and "lc_fits szc j w"
    and "lc_off (w_file w) (Suc j) \<le> 32 + unat szc" and "w_lc w + 8 \<le> 32 + unat szc"
    and "32 + unat szc \<le> unat fsize" and "unat fsize \<le> rsize (w_file w)"
    and "file_size (w_info w) = fsize"
  using mid lc_off_mono [of 0 j "w_file w"]
  by (auto simp: kext_mid_def kext_inv_def lc_fits_def walk_ok_def simp del: lc_off.simps(2))

lemma kext_mid_update_symtab:
  assumes "kext_mid R ncmds szc fsize j w"
    and "symtab_ok (w_file w) fsize (lc_off (w_file w) (Suc j)) x" and "cmd_of (w_file w) (Suc j) LC_SYMTAB x 24"
  shows "kext_mid R ncmds szc fsize j (w\<lparr>w_info := (w_info w)\<lparr>symtab := Some x\<rparr>\<rparr>)"
  using assms by (auto simp: kext_mid_def kext_inv_def lc_fits_def simp del: lc_off.simps vm_before.simps)

lemma kext_mid_update_dysymtab:
  assumes "kext_mid R ncmds szc fsize j w"
    and "dysymtab_ok (w_file w) fsize (lc_off (w_file w) (Suc j)) x" and "cmd_of (w_file w) (Suc j) LC_DYSYMTAB x 80"
  shows "kext_mid R ncmds szc fsize j (w\<lparr>w_info := (w_info w)\<lparr>dysymtab := Some x\<rparr>\<rparr>)"
  using assms by (auto simp: kext_mid_def kext_inv_def lc_fits_def simp del: lc_off.simps vm_before.simps)

lemma parse_symtab_mid:
  assumes mid: "kext_mid R ncmds szc fsize j w" and cmd: "word_at (w_file w) (w_lc w) = LC_SYMTAB"
  shows "wp (kext_parse_symtab w) (kext_mid R ncmds szc fsize j)"
proof -
  let ?f = "w_file w" and ?x = "w_lc w"
  note room = kext_mid_room [OF mid]
  have size: "rd32 ?f (?x + 4) = Some (word_at ?f (?x + 4))" using room by simp
  show ?thesis
  proof (cases "word_at ?f (?x + 4) < 24")
    case True
    then show ?thesis by (simp add: kext_parse_symtab_def size wp_simps)
  next
    case False
    then have fin: "?x + 24 \<le> lc_off ?f (Suc j)"
      using room(1) by (simp add: word_less_nat_alt)
    have cmd_of: "cmd_of ?f (Suc j) LC_SYMTAB ?x 24"
      using fin cmd room(1) unfolding cmd_of_def by (intro exI [of _ j]) simp
    have ok: "symtab_ok ?f fsize (lc_off ?f (Suc j)) ?x"
      if "\<not> ucast (word_at ?f (?x + 8)) + ucast (word_at ?f (?x + 12)) * 16 > fsize"
        "\<not> ucast (word_at ?f (?x + 16)) \<ge> fsize"
      using that room(2) fin by (simp add: symtab_ok_def word_less_nat_alt word_le_nat_alt array_check)
    have fields: "rd32 ?f (?x + 12) = Some (word_at ?f (?x + 12))" "rd32 ?f (?x + 8) = Some (word_at ?f (?x + 8))"
      "rd32 ?f (?x + 16) = Some (word_at ?f (?x + 16))"
      using fin room by simp_all
    show ?thesis
      using kext_mid_update_symtab [OF mid ok cmd_of] False room(8)
      by (auto simp: kext_parse_symtab_def size fields Let_def wp_simps)
  qed
qed

lemma parse_dysymtab_mid:
  assumes mid: "kext_mid R ncmds szc fsize j w" and cmd: "word_at (w_file w) (w_lc w) = LC_DYSYMTAB"
  shows "wp (kext_parse_dysymtab w) (kext_mid R ncmds szc fsize j)"
proof -
  let ?f = "w_file w" and ?x = "w_lc w"
  note room = kext_mid_room [OF mid]
  have size: "rd32 ?f (?x + 4) = Some (word_at ?f (?x + 4))" using room by simp
  show ?thesis
  proof (cases "word_at ?f (?x + 4) < 80")
    case True
    then show ?thesis by (simp add: kext_parse_dysymtab_def size wp_simps)
  next
    case False
    then have fin: "?x + 80 \<le> lc_off ?f (Suc j)"
      using room(1) by (simp add: word_less_nat_alt)
    have cmd_of: "cmd_of ?f (Suc j) LC_DYSYMTAB ?x 80"
      using fin cmd room(1) unfolding cmd_of_def by (intro exI [of _ j]) simp
    have ok: "dysymtab_ok ?f fsize (lc_off ?f (Suc j)) ?x"
      if "\<not> ucast (word_at ?f (?x + 64)) + ucast (word_at ?f (?x + 68)) * 8 > fsize"
        "\<not> ucast (word_at ?f (?x + 72)) + ucast (word_at ?f (?x + 76)) * 8 > fsize"
      using that room(2) fin by (simp add: dysymtab_ok_def word_less_nat_alt array_check)
    have fields: "rd32 ?f (?x + 68) = Some (word_at ?f (?x + 68))" "rd32 ?f (?x + 64) = Some (word_at ?f (?x + 64))"
      "rd32 ?f (?x + 72) = Some (word_at ?f (?x + 72))" "rd32 ?f (?x + 76) = Some (word_at ?f (?x + 76))"
      using fin room by simp_all
    show ?thesis
      using kext_mid_update_dysymtab [OF mid ok cmd_of] False room(8)
      by (auto simp: kext_parse_dysymtab_def size fields Let_def wp_simps)
  qed
qed

lemma kext_when_mid:
  assumes mid: "kext_mid R ncmds szc fsize j w"
    and "word_at (w_file w) (w_lc w) = c \<Longrightarrow> wp (f w) (kext_mid R ncmds szc fsize j)"
  shows "wp (kext_when c f w) (kext_mid R ncmds szc fsize j)"
  using assms(2) kext_mid_room [OF mid] mid by (simp add: kext_when_def wp_simps)

lemma next_command_inv:
  assumes mid: "kext_mid R ncmds szc fsize j w"
  shows "wp (kext_next_command w) (kext_inv R ncmds szc fsize (Suc j))"
  using kext_mid_room [OF mid] mid by (simp add: kext_next_command_def kext_mid_def wp_simps)

lemma parse_command_inv:
  assumes inv: "kext_inv R ncmds szc fsize j w"
  shows "wp (kext_parse_command (32 + unat szc) i w) (kext_inv R ncmds szc fsize (Suc j))"
proof (cases "w_lc w + 8 \<le> 32 + unat szc \<and> lc_off (w_file w) (Suc j) \<le> 32 + unat szc")
  case False
  have lc: "w_lc w = lc_off (w_file w) j" "32 + unat szc \<le> rsize (w_file w)"
    using inv by (auto simp: kext_inv_def walk_ok_def)
  with False show ?thesis by (auto simp: kext_parse_command_def wp_simps)
next
  case True
  have lc: "w_lc w = lc_off (w_file w) j" using inv by (simp add: kext_inv_def)
  then have fits: "lc_fits szc j w" using True by (simp add: lc_fits_def)
  note room = kext_inv_room [OF inv fits]
  let ?K = "\<lambda>w. ebind (kext_when LC_SYMTAB kext_parse_symtab w) (\<lambda>w.
    ebind (kext_when LC_DYSYMTAB kext_parse_dysymtab w) kext_next_command)"
  have tail: "wp (?K w) (kext_inv R ncmds szc fsize (Suc j))" if "kext_mid R ncmds szc fsize j w" for w
    unfolding wp_ebind
    by (rule wp_mono [OF kext_when_mid [OF that]], rule parse_symtab_mid [OF that], assumption,
        rule wp_mono [OF kext_when_mid], assumption, rule parse_dysymtab_mid, assumption, assumption,
        rule next_command_inv)
  have seg: "wp (kext_when LC_SEGMENT_64 kext_parse_segment w) (kext_mid R ncmds szc fsize j)"
    if "kext_inv R ncmds szc fsize j w" "lc_fits szc j w" for w
    using parse_segment_mid [OF that] not_segment_mid [OF that] kext_inv_room [OF that]
    by (simp add: kext_when_def is_seg_def wp_simps)
  have rest: "wp (ebind (kext_destroy_split_info w) (\<lambda>w. ebind (kext_when LC_SEGMENT_64 kext_parse_segment w) ?K))
      (kext_inv R ncmds szc fsize (Suc j))"
    unfolding wp_ebind
    by (rule wp_mono [OF destroy_split_info_inv [OF inv fits]], elim conjE, rule wp_mono [OF seg],
        assumption, assumption) (rule tail [unfolded wp_ebind])
  show ?thesis
    using rest room True by (simp add: kext_parse_command_def kext_when_def [of LC_SEGMENT] wp_simps)
qed

lemma kext_parse_commands_wp:
  assumes room: "32 \<le> unat fsize" "unat fsize \<le> rsize file"
  shows "wp (kext_parse_commands file fsize) (\<lambda>w. kext_inv (rsize file) (word_at file 16) (word_at file 20) fsize
    (unat (word_at file 16)) w)"
proof -
  let ?szc = "word_at file 20" and ?ncmds = "word_at file 16"
  let ?w = "\<lparr>w_file = file, w_info = kext_load_info_zero\<lparr>file_size := fsize\<rparr>,
          w_vmaddr = 0, w_found = False, w_lc = 32\<rparr>"
  let ?I = "\<lambda>j w. j \<le> unat ?ncmds \<and> kext_inv (rsize file) ?ncmds ?szc fsize j w"
  have "wp (loop_u32 kext_ncmds (kext_parse_command (32 + unat ?szc)) 0 ?w)
      (\<lambda>w. kext_inv (rsize file) ?ncmds ?szc fsize (unat ?ncmds) w)"
    if fit: "\<not> 32 + ucast ?szc > fsize"
  proof (rule wp_loop_u32 [where I = ?I])
    have "unat (32 + ucast ?szc :: u64) = 32 + unat ?szc"
      using unat_u32_less [of ?szc] by (simp add: unat_word_ariths)
    then have "32 + unat ?szc \<le> unat fsize"
      using fit by (simp add: word_less_nat_alt)
    then show "?I 0 ?w"
      using room by (simp add: kext_inv_def walk_ok_def kext_load_info_zero_def)
  next
    fix j w assume I: "?I j w"
    have n: "kext_ncmds w = Some ?ncmds"
      using I room by (auto simp: kext_ncmds_def kext_inv_def)
    then show "\<exists>n. kext_ncmds w = Some n
        \<and> (j < unat n \<longrightarrow> wp (kext_parse_command (32 + unat ?szc) j w) (?I (Suc j)))
        \<and> (unat n \<le> j \<longrightarrow> kext_inv (rsize file) ?ncmds ?szc fsize (unat ?ncmds) w)"
      using I parse_command_inv [of "rsize file" ?ncmds ?szc fsize j w j]
      by (auto elim!: wp_mono simp: Suc_le_eq)
  qed
  then show ?thesis
    using room by (simp add: kext_parse_commands_def wp_simps)
qed

section \<open>Symbols\<close>

text \<open>
  The file offset of the name of the symbol at \<open>nl\<close>; that it is computed without overflow and the
  name ends in the file.
\<close>

definition sym_stroff :: "region \<Rightarrow> nat \<Rightarrow> nat \<Rightarrow> nat" where
  "sym_stroff f st nl = unat (word_at f (st + 16) + word_at f nl)"

definition sym_name_ok :: "region \<Rightarrow> nat \<Rightarrow> nat \<Rightarrow> nat \<Rightarrow> bool" where
  "sym_name_ok f st symoff i \<longleftrightarrow> cstr_at f (sym_stroff f st (symoff + 16 * i)) \<noteq> None
     \<and> word_at f (st + 16) \<le> word_at f (st + 16) + word_at f (symoff + 16 * i)"

definition kmod_info_ok :: "kext_load_info \<Rightarrow> u64 \<Rightarrow> bool" where
  "kmod_info_ok info vm_end \<longleftrightarrow>
     vm_base info \<le> kmod_info info \<and> unat (kmod_info info) + 196 \<le> unat vm_end"

lemma nlist_stroff_Some:
  "st + 20 \<le> rsize f \<Longrightarrow> nl + 16 \<le> rsize f \<Longrightarrow>
     nlist_stroff f st nl = Some (word_at f (st + 16), ucast (word_at f (st + 16) + word_at f nl))"
  by (simp add: nlist_stroff_def)

lemma strnlen_terminates:
  assumes "s + n \<le> rsize r" and "c_strnlen r s n = Some m" and "m \<noteq> n"
  shows "\<exists>t. cstr_at r s = Some t"
proof -
  let ?xs = "rslice r s n"
  have m: "m = length (takeWhile (\<lambda>c. c \<noteq> 0) ?xs)"
    using strnlen_spec [OF assms(1)] assms(2) by simp
  then have "m < n"
    using assms(3) length_takeWhile_le [of "\<lambda>c. c \<noteq> 0" ?xs] by simp
  then have "?xs ! m = 0"
    using nth_length_takeWhile [of "\<lambda>c. c \<noteq> 0" ?xs] m by simp
  then have "rbyte r (s + m) = 0" using \<open>m < n\<close> by simp
  with \<open>m < n\<close> assms(1) cstr_at_terminated [of s "s + m" r] show ?thesis by auto
qed

text \<open>What the load information keeps through the symbol loop.\<close>

definition sym_inv :: "region \<Rightarrow> nat \<Rightarrow> u64 \<Rightarrow> kext_load_info \<Rightarrow> nat \<Rightarrow> kext_load_info \<Rightarrow> bool" where
  "sym_inv f st vm_end info0 j info \<longleftrightarrow>
     (\<exists>a. info = info0\<lparr>kmod_info := a\<rparr> \<and> (a = 0 \<or> kmod_info_ok info vm_end))
     \<and> (\<forall>i < j. sym_name_ok f st (nlist info0) i)"

lemma parse_symbol_inv:
  assumes inv: "sym_inv f st vm_end info0 j info"
    and size: "unat (file_size info0) \<le> rsize f"
    and room: "st + 24 \<le> rsize f" "nlist info0 + 16 * j + 16 \<le> rsize f"
  shows "wp (kext_parse_symbol f st vm_end j info) (sym_inv f st vm_end info0 (Suc j))"
proof -
  let ?nl = "nlist info0 + 16 * j" and ?fs = "file_size info0"
  let ?s0 = "word_at f (st + 16)"
  define so where "so = (ucast (?s0 + word_at f ?nl) :: u64)"
  let ?max = "unat (?fs - so)"
  obtain a where info: "info = info0\<lparr>kmod_info := a\<rparr>" "a = 0 \<or> kmod_info_ok info vm_end"
    and names: "\<forall>i < j. sym_name_ok f st (nlist info0) i"
    using inv by (auto simp: sym_inv_def)
  have stroff: "nlist_stroff f st ?nl = Some (?s0, so)" "unat so = sym_stroff f st ?nl"
    using nlist_stroff_Some [of st f ?nl] room by (simp_all add: sym_stroff_def so_def)
  show ?thesis
  proof (cases "so < ucast ?s0 \<or> so \<ge> ?fs")
    case True
    then show ?thesis by (simp add: kext_parse_symbol_def info(1) stroff wp_simps)
  next
    case False
    then have max: "unat so + ?max = unat ?fs"
      using unat_sub [of so ?fs] by (simp add: not_le word_less_nat_alt word_le_nat_alt)
    then have len: "c_strnlen f (unat so) ?max = Some (length (takeWhile (\<lambda>c. c \<noteq> 0) (rslice f (unat so) ?max)))"
      using strnlen_spec [of "unat so" ?max f] size by simp
    obtain ty v where fields: "rd8 f (?nl + 4) = Some ty" "rd64 f (?nl + 8) = Some v"
      using room by simp
    let ?sect = "(ty AND N_STAB) = 0 \<and> (ty AND N_TYPE) = N_SECT"
    show ?thesis
    proof (cases "length (takeWhile (\<lambda>c. c \<noteq> 0) (rslice f (unat so) ?max)) = ?max")
      case True
      then show ?thesis
        using False by (simp add: kext_parse_symbol_def info(1) stroff(1) len Let_def wp_simps)
    next
      case unterminated: False
      then obtain name where name: "cstr_at f (unat so) = Some name"
        using strnlen_terminates [OF _ len] max size by auto
      moreover have "?s0 \<le> ?s0 + word_at f ?nl"
        using False by (simp add: so_def word_less_nat_alt word_le_nat_alt)
      ultimately have "sym_name_ok f st (nlist info0) j"
        by (simp add: sym_name_ok_def stroff(2) [symmetric])
      then have names': "\<forall>i < Suc j. sym_name_ok f st (nlist info0) i"
        using names by (simp add: less_Suc_eq)
      have eq: "c_streq f (unat so) kmod_info_name = Some (name = kmod_info_name)"
        by (rule c_streq_cstr [OF name]) (simp add: kmod_info_name_def)
      have keep: "sym_inv f st vm_end info0 (Suc j) info"
        using info names' by (auto simp: sym_inv_def)
      have new: "sym_inv f st vm_end info0 (Suc j) (info\<lparr>kmod_info := v\<rparr>)"
        if "\<not> (?sect \<and> (v < vm_base info \<or> vm_end < v))" "?sect" "\<not> (v + 196 < v \<or> v + 196 > vm_end)"
      proof -
        have "unat (v + 196) = unat v + 196"
          using that(3) no_wrap [of v 196] by (simp add: unat_word_ariths)
        then have "kmod_info_ok (info\<lparr>kmod_info := v\<rparr>) vm_end"
          using that by (simp add: kmod_info_ok_def word_le_nat_alt word_less_nat_alt)
        then show ?thesis using info(1) names' by (auto simp: sym_inv_def)
      qed
      show ?thesis
        using False unterminated keep new
        by (auto simp: kext_parse_symbol_def info(1) stroff(1) len fields eq Let_def wp_simps)
    qed
  qed
qed

lemma parse_symbols_wp:
  assumes size: "unat (file_size info) \<le> rsize f" and st: "symtab_ok f (file_size info) lim st"
    and lim: "lim \<le> rsize f" and kmod: "kmod_info info = 0"
  shows "wp (kext_parse_symbols f st vm_end info) (\<lambda>info'.
    (\<exists>a. info' = info\<lparr>nlist := unat (word_at f (st + 8)), kmod_info := a\<rparr>)
      \<and> kmod_info info' \<noteq> 0 \<and> kmod_info_ok info' vm_end
      \<and> (\<forall>i < unat (word_at f (st + 12)). sym_name_ok f st (nlist info') i))"
proof -
  let ?info = "info\<lparr>nlist := unat (word_at f (st + 8))\<rparr>" and ?n = "word_at f (st + 12)"
  have st': "st + 24 \<le> rsize f" "unat (word_at f (st + 8)) + 16 * unat ?n \<le> rsize f"
    using st lim size by (simp_all add: symtab_ok_def)
  have "wp (loop_u32 (\<lambda>_. rd32 f (st + 12)) (kext_parse_symbol f st vm_end) 0 ?info)
      (sym_inv f st vm_end ?info (unat ?n))"
  proof (rule wp_loop_u32 [where I = "\<lambda>j s. j \<le> unat ?n \<and> sym_inv f st vm_end ?info j s"])
    have "?info = ?info\<lparr>kmod_info := 0\<rparr>" using kmod by simp
    then show "0 \<le> unat ?n \<and> sym_inv f st vm_end ?info 0 ?info"
      unfolding sym_inv_def by blast
  next
    fix j s assume I: "j \<le> unat ?n \<and> sym_inv f st vm_end ?info j s"
    have "wp (kext_parse_symbol f st vm_end j s) (sym_inv f st vm_end ?info (Suc j))" if "j < unat ?n"
      by (rule parse_symbol_inv) (use I that st' size in auto)
    then show "\<exists>n. rd32 f (st + 12) = Some n
        \<and> (j < unat n \<longrightarrow> wp (kext_parse_symbol f st vm_end j s)
             (\<lambda>s. Suc j \<le> unat ?n \<and> sym_inv f st vm_end ?info (Suc j) s))
        \<and> (unat n \<le> j \<longrightarrow> sym_inv f st vm_end ?info (unat ?n) s)"
      using I st' by (auto elim!: wp_mono)
  qed
  then show ?thesis
    using st' by (auto simp: kext_parse_symbols_def wp_simps sym_inv_def elim!: wp_mono)
qed

section \<open>Relocations\<close>

definition extrel_ok ::
  "(bytes \<Rightarrow> u64 option) \<Rightarrow> region \<Rightarrow> nat \<Rightarrow> kext_load_info \<Rightarrow> nat \<Rightarrow> bool" where
  "extrel_ok lookup f st info e \<longleftrightarrow>
     (let bits = word_at f (extrel info + 8 * e + 4) in
      r_extern bits \<and> r_length bits = 3 \<and> r_symbolnum bits < word_at f (st + 12)
      \<and> \<not> reloc_bad_address info (word_at f (extrel info + 8 * e)) 3
      \<and> (case cstr_at f (sym_stroff f st (nlist info + 16 * unat (r_symbolnum bits))) of
           None \<Rightarrow> False
         | Some name \<Rightarrow> (case lookup name of None \<Rightarrow> False | Some a \<Rightarrow> a \<noteq> 0)))"

definition locrel_ok :: "region \<Rightarrow> kext_load_info \<Rightarrow> nat \<Rightarrow> bool" where
  "locrel_ok f info e \<longleftrightarrow>
     (let bits = word_at f (locrel info + 8 * e + 4) in
      \<not> r_extern bits \<and> r_length bits = 3
      \<and> \<not> reloc_bad_address info (word_at f (locrel info + 8 * e)) 3)"

lemma parse_locrel_inv:
  assumes "locrel info + 8 * j + 8 \<le> rsize f" and "\<forall>e < j. locrel_ok f info e"
  shows "wp (kext_parse_locrel f info j ()) (\<lambda>_. \<forall>e < Suc j. locrel_ok f info e)"
  using assms by (auto simp: kext_parse_locrel_def wp_simps locrel_ok_def less_Suc_eq Let_def)

context symbol_resolver
begin

lemma parse_extrel_inv:
  assumes ready: "ready s" and st: "st + 24 \<le> rsize f"
    and syms: "nlist info + 16 * unat (word_at f (st + 12)) \<le> rsize f"
      "\<forall>i < unat (word_at f (st + 12)). sym_name_ok f st (nlist info) i"
    and er: "extrel info + 8 * j + 8 \<le> rsize f"
    and inv: "m \<or> (\<forall>e < j. extrel_ok (resolve s) f st info e)"
  shows "wp (kext_parse_extrel (resolve s) f st info j m)
    (\<lambda>m. m \<or> (\<forall>e < Suc j. extrel_ok (resolve s) f st info e))"
proof -
  let ?er = "extrel info + 8 * j"
  define bits where "bits = word_at f (?er + 4)"
  define i where "i = unat (r_symbolnum bits)"
  have rd: "rd32 f (?er + 4) = Some bits" "rd32 f (st + 12) = Some (word_at f (st + 12))"
    "rd32 f ?er = Some (word_at f ?er)"
    using er st by (simp_all add: bits_def)
  show ?thesis
  proof (cases "\<not> r_extern bits \<or> r_length bits \<noteq> 3 \<or> r_symbolnum bits \<ge> word_at f (st + 12)")
    case True
    then show ?thesis
      by (auto simp: kext_parse_extrel_def rd Let_def wp_simps)
  next
    case False
    then have i: "i < unat (word_at f (st + 12))"
      by (simp add: i_def word_le_nat_alt)
    then obtain name where name: "cstr_at f (sym_stroff f st (nlist info + 16 * i)) = Some name"
      using syms(2) by (auto simp: sym_name_ok_def)
    have str: "nlist_stroff f st (nlist info + 16 * i)
        = Some (word_at f (st + 16), ucast (word_at f (st + 16) + word_at f (nlist info + 16 * i)))"
      using i syms(1) st by (intro nlist_stroff_Some) simp_all
    obtain a where a: "resolve s name = Some a"
      using resolve_Some [OF ready cstr_at_no_zero [OF name]] by blast
    have "extrel_ok (resolve s) f st info j"
      if "a \<noteq> 0" "\<not> reloc_bad_address info (word_at f ?er) 3"
      using False that name a by (simp add: extrel_ok_def Let_def bits_def [symmetric] i_def [symmetric] not_le)
    then show ?thesis
      using False name a inv
      by (auto simp: kext_parse_extrel_def rd Let_def wp_simps i_def [symmetric] str sym_stroff_def less_Suc_eq)
  qed
qed

lemma parse_relocations_wp:
  assumes ready: "ready s" and st: "st + 24 \<le> rsize f"
    and dst: "dysymtab_ok f fsize lim dst" and lim: "lim \<le> rsize f" and size: "unat fsize \<le> rsize f"
    and syms: "nlist info + 16 * unat (word_at f (st + 12)) \<le> rsize f"
      "\<forall>i < unat (word_at f (st + 12)). sym_name_ok f st (nlist info) i"
  shows "wp (kext_parse_relocations (resolve s) f st dst info) (\<lambda>info'.
    info' = info\<lparr>extrel := unat (word_at f (dst + 64)), locrel := unat (word_at f (dst + 72))\<rparr>
    \<and> (\<forall>e < unat (word_at f (dst + 68)). extrel_ok (resolve s) f st info' e)
    \<and> (\<forall>e < unat (word_at f (dst + 76)). locrel_ok f info' e))"
proof -
  let ?i1 = "info\<lparr>extrel := unat (word_at f (dst + 64))\<rparr>"
  let ?i2 = "?i1\<lparr>locrel := unat (word_at f (dst + 72))\<rparr>"
  let ?ne = "word_at f (dst + 68)" and ?nl = "word_at f (dst + 76)"
  have d: "dst + 80 \<le> rsize f" "unat (word_at f (dst + 64)) + 8 * unat ?ne \<le> rsize f"
    "unat (word_at f (dst + 72)) + 8 * unat ?nl \<le> rsize f"
    using dst lim size by (simp_all add: dysymtab_ok_def)
  have ext: "wp (loop_u32 (\<lambda>_. rd32 f (dst + 68)) (kext_parse_extrel (resolve s) f st ?i1) 0 False)
      (\<lambda>m. m \<or> (\<forall>e < unat ?ne. extrel_ok (resolve s) f st ?i1 e))"
  proof (rule wp_loop_u32 [where I = "\<lambda>j m. j \<le> unat ?ne \<and> (m \<or> (\<forall>e < j. extrel_ok (resolve s) f st ?i1 e))"])
    fix j m assume I: "j \<le> unat ?ne \<and> (m \<or> (\<forall>e < j. extrel_ok (resolve s) f st ?i1 e))"
    have "wp (kext_parse_extrel (resolve s) f st ?i1 j m)
        (\<lambda>m. m \<or> (\<forall>e < Suc j. extrel_ok (resolve s) f st ?i1 e))" if "j < unat ?ne"
      by (rule parse_extrel_inv) (use ready st syms d that I in auto)
    then show "\<exists>n. rd32 f (dst + 68) = Some n
        \<and> (j < unat n \<longrightarrow> wp (kext_parse_extrel (resolve s) f st ?i1 j m)
             (\<lambda>m. Suc j \<le> unat ?ne \<and> (m \<or> (\<forall>e < Suc j. extrel_ok (resolve s) f st ?i1 e))))
        \<and> (unat n \<le> j \<longrightarrow> m \<or> (\<forall>e < unat ?ne. extrel_ok (resolve s) f st ?i1 e))"
      using I d by (auto elim!: wp_mono)
  qed simp
  have loc: "wp (loop_u32 (\<lambda>_. rd32 f (dst + 76)) (kext_parse_locrel f ?i2) 0 ())
      (\<lambda>_. \<forall>e < unat ?nl. locrel_ok f ?i2 e)"
  proof (rule wp_loop_u32 [where I = "\<lambda>j _. j \<le> unat ?nl \<and> (\<forall>e < j. locrel_ok f ?i2 e)"])
    fix j :: nat and u :: unit assume I: "j \<le> unat ?nl \<and> (\<forall>e < j. locrel_ok f ?i2 e)"
    have "wp (kext_parse_locrel f ?i2 j u) (\<lambda>_. \<forall>e < Suc j. locrel_ok f ?i2 e)" if "j < unat ?nl"
      using parse_locrel_inv [of ?i2 j f] I d that by simp
    then show "\<exists>n. rd32 f (dst + 76) = Some n
        \<and> (j < unat n \<longrightarrow> wp (kext_parse_locrel f ?i2 j u)
             (\<lambda>_. Suc j \<le> unat ?nl \<and> (\<forall>e < Suc j. locrel_ok f ?i2 e)))
        \<and> (unat n \<le> j \<longrightarrow> (\<forall>e < unat ?nl. locrel_ok f ?i2 e))"
      using I d by (auto elim!: wp_mono)
  qed simp
  have same: "extrel_ok (resolve s) f st ?i2 e = extrel_ok (resolve s) f st ?i1 e" for e
    by (simp add: extrel_ok_def reloc_bad_address_def reloc_vm_addr_def)
  show ?thesis
    unfolding kext_parse_relocations_def wp_simps Let_def
  proof (intro exI conjI)
    show "rd32 f (dst + 64) = Some (word_at f (dst + 64))" using d by simp
    show "wp (loop_u32 (\<lambda>_. rd32 f (dst + 68)) (kext_parse_extrel (resolve s) f st ?i1) 0 False) (\<lambda>x.
        if x then True
        else \<exists>x. rd32 f (dst + 72) = Some x \<and>
          wp (loop_u32 (\<lambda>_. rd32 f (dst + 76)) (kext_parse_locrel f (?i1\<lparr>locrel := unat x\<rparr>)) 0 ()) (\<lambda>_.
            ?i1\<lparr>locrel := unat x\<rparr> = ?i2
            \<and> (\<forall>e < unat ?ne. extrel_ok (resolve s) f st (?i1\<lparr>locrel := unat x\<rparr>) e)
            \<and> (\<forall>e < unat ?nl. locrel_ok f (?i1\<lparr>locrel := unat x\<rparr>) e)))"
      by (rule wp_mono [OF ext]) (use d loc same in \<open>auto elim!: wp_mono\<close>)
  qed
qed

end

section \<open>The whole parser\<close>

definition kext_end :: "region \<Rightarrow> nat" where
  "kext_end f = 32 + unat (word_at f 20)"

definition kext_symtabs_ok ::
  "(bytes \<Rightarrow> u64 option) \<Rightarrow> region \<Rightarrow> kext_load_info \<Rightarrow> nat \<Rightarrow> nat \<Rightarrow> bool" where
  "kext_symtabs_ok lookup f info st dst \<longleftrightarrow>
     symtab info = Some st \<and> dysymtab info = Some dst
     \<and> symtab_ok f (file_size info) (kext_end f) st \<and> dysymtab_ok f (file_size info) (kext_end f) dst
     \<and> cmd_of f (unat (word_at f 16)) LC_SYMTAB st 24 \<and> cmd_of f (unat (word_at f 16)) LC_DYSYMTAB dst 80
     \<and> nlist info = unat (word_at f (st + 8))
     \<and> extrel info = unat (word_at f (dst + 64)) \<and> locrel info = unat (word_at f (dst + 72))
     \<and> (\<forall>i < unat (word_at f (st + 12)). sym_name_ok f st (nlist info) i)
     \<and> (\<forall>e < unat (word_at f (dst + 68)). extrel_ok lookup f st info e)
     \<and> (\<forall>e < unat (word_at f (dst + 76)). locrel_ok f info e)"

text \<open>What an accepted file looks like.\<close>

definition kext_parsed :: "(bytes \<Rightarrow> u64 option) \<Rightarrow> region \<Rightarrow> kext_load_info \<Rightarrow> bool" where
  "kext_parsed lookup f info \<longleftrightarrow>
     walk_ok f (file_size info) (vm_base info) (unat (word_at f 16))
     \<and> (\<exists>k < unat (word_at f 16). is_seg f k)
     \<and> unat (vm_size info) = vm_before f (unat (word_at f 16))
     \<and> vm_base info \<le> kmod_info info
     \<and> unat (kmod_info info - vm_base info) + 196 \<le> unat (vm_size info)
     \<and> (\<exists>st dst. kext_symtabs_ok lookup f info st dst)"

context symbol_resolver
begin

theorem kext_parse_wp:
  assumes ready: "ready s" and room: "32 \<le> unat fsize" "unat fsize \<le> rsize file"
  shows "wp (kext_parse (resolve s) file fsize) (\<lambda>(f, info).
    rsize f = rsize file \<and> file_size info = fsize \<and> kext_parsed (resolve s) f info)"
  unfolding kext_parse_def wp_ebind Let_def
proof (rule wp_mono [OF kext_parse_commands_wp [OF room]])
  fix w :: kext_walk
  let ?f = "w_file w" and ?n = "unat (word_at file 16)"
  let ?info = "(w_info w)\<lparr>vm_size := w_vmaddr w - vm_base (w_info w)\<rparr>"
  assume "kext_inv (rsize file) (word_at file 16) (word_at file 20) fsize ?n w"
  then have I: "rsize ?f = rsize file" "word_at ?f 16 = word_at file 16" "word_at ?f 20 = word_at file 20"
    "file_size (w_info w) = fsize" "kmod_info (w_info w) = 0"
    "walk_ok ?f fsize (vm_base (w_info w)) ?n"
    "w_found w \<longleftrightarrow> (\<exists>k < ?n. is_seg ?f k)"
    "w_found w \<longrightarrow> w_vmaddr w = vm_base (w_info w) + word_of_nat (vm_before ?f ?n)"
    "\<forall>x. symtab (w_info w) = Some x \<longrightarrow> symtab_ok ?f fsize (lc_off ?f ?n) x \<and> cmd_of ?f ?n LC_SYMTAB x 24"
    "\<forall>x. dysymtab (w_info w) = Some x \<longrightarrow> dysymtab_ok ?f fsize (lc_off ?f ?n) x \<and> cmd_of ?f ?n LC_DYSYMTAB x 80"
    unfolding kext_inv_def by blast+
  have lim: "lc_off ?f ?n \<le> kext_end ?f" "kext_end ?f \<le> rsize ?f"
    using I(6) by (auto simp: walk_ok_def kext_end_def)
  show "wp (if \<not> w_found w then Some (Inl (Segment_required, ?f))
       else case (symtab ?info, dysymtab ?info) of
            (None, _) \<Rightarrow> Some (Inl (Symtab_required, ?f))
          | (Some _, None) \<Rightarrow> Some (Inl (Dysymtab_required, ?f))
          | (Some st, Some dst) \<Rightarrow>
              ebind (with_file ?f (kext_parse_symbols ?f st (w_vmaddr w) ?info)) (\<lambda>info.
              ebind (with_file ?f (kext_parse_relocations (resolve s) ?f st dst info)) (\<lambda>info. Some (Inr (?f, info)))))
        (\<lambda>(f, info). rsize f = rsize file \<and> file_size info = fsize \<and> kext_parsed (resolve s) f info)"
  proof (cases "w_found w \<and> symtab (w_info w) \<noteq> None \<and> dysymtab (w_info w) \<noteq> None")
    case False
    then show ?thesis by (auto simp: wp_simps split: option.split)
  next
    case True
    then obtain st dst where sd: "symtab (w_info w) = Some st" "dysymtab (w_info w) = Some dst"
      by auto
    have st: "symtab_ok ?f fsize (kext_end ?f) st" and dst: "dysymtab_ok ?f fsize (kext_end ?f) dst"
      using I(9,10) sd symtab_ok_mono [OF _ lim(1)] dysymtab_ok_mono [OF _ lim(1)] by blast+
    have cmds: "cmd_of ?f (unat (word_at ?f 16)) LC_SYMTAB st 24" "cmd_of ?f (unat (word_at ?f 16)) LC_DYSYMTAB dst 80"
      unfolding I(2) using I(9,10) sd by blast+
    have vmaddr: "w_vmaddr w = vm_base (w_info w) + word_of_nat (vm_before ?f ?n)"
      "unat (vm_base (w_info w)) + vm_before ?f ?n < 2 ^ 64"
      using I(6,8) True by (auto simp: walk_ok_def)
    then have vm_end: "unat (w_vmaddr w) = unat (vm_base (w_info w)) + vm_before ?f ?n"
      by (simp only: unat_u64_add)
    have size: "unat (w_vmaddr w - vm_base (w_info w)) = vm_before ?f ?n"
      using vmaddr by (simp add: unat_of_nat)
    let ?sym = "\<lambda>info :: kext_load_info. (\<exists>a. info = ?info\<lparr>nlist := unat (word_at ?f (st + 8)), kmod_info := a\<rparr>)
      \<and> kmod_info info \<noteq> 0 \<and> kmod_info_ok info (w_vmaddr w)
      \<and> (\<forall>i < unat (word_at ?f (st + 12)). sym_name_ok ?f st (nlist info) i)"
    have syms: "wp (kext_parse_symbols ?f st (w_vmaddr w) ?info) ?sym"
      by (rule parse_symbols_wp) (use I st lim room in auto)
    have parsed0: "file_size info' = fsize \<and> kext_parsed (resolve s) ?f info'"
      if "file_size info = fsize" "vm_base info = vm_base (w_info w)"
        "vm_size info = w_vmaddr w - vm_base (w_info w)" "nlist info = unat (word_at ?f (st + 8))"
        "symtab info = Some st" "dysymtab info = Some dst" "vm_base info \<le> kmod_info info"
        "unat (kmod_info info - vm_base info) + 196 \<le> unat (vm_size info)"
        "\<forall>i < unat (word_at ?f (st + 12)). sym_name_ok ?f st (nlist info) i"
        "info' = info\<lparr>extrel := unat (word_at ?f (dst + 64)), locrel := unat (word_at ?f (dst + 72))\<rparr>
          \<and> (\<forall>e < unat (word_at ?f (dst + 68)). extrel_ok (resolve s) ?f st info' e)
          \<and> (\<forall>e < unat (word_at ?f (dst + 76)). locrel_ok ?f info' e)" for info info' :: kext_load_info
    proof -
      have i': "file_size info' = fsize" "vm_base info' = vm_base (w_info w)" "vm_size info' = vm_size info"
        "kmod_info info' = kmod_info info" "nlist info' = nlist info"
        "extrel info' = unat (word_at ?f (dst + 64))" "locrel info' = unat (word_at ?f (dst + 72))"
        "symtab info' = Some st" "dysymtab info' = Some dst"
        using that by simp_all
      have "kext_symtabs_ok (resolve s) ?f info' st dst"
        unfolding kext_symtabs_ok_def i' using that st dst cmds by blast
      moreover have "unat (vm_size info') = vm_before ?f (unat (word_at ?f 16))"
        unfolding i' using that size by (simp add: I(2))
      ultimately show ?thesis
        unfolding kext_parsed_def using I(6,7) True that i' by (auto simp: I(2))
    qed
    have parsed: "wp (kext_parse_relocations (resolve s) ?f st dst info)
        (\<lambda>info. file_size info = fsize \<and> kext_parsed (resolve s) ?f info)" if s: "?sym info" for info :: kext_load_info
    proof -
      have fields: "file_size info = fsize" "vm_base info = vm_base (w_info w)"
        "vm_size info = w_vmaddr w - vm_base (w_info w)" "nlist info = unat (word_at ?f (st + 8))"
        "symtab info = Some st" "dysymtab info = Some dst"
        using s I(4) sd by auto
      have kmod: "vm_base info \<le> kmod_info info"
        "unat (kmod_info info - vm_base info) + 196 \<le> unat (vm_size info)"
        using s vm_end size fields by (auto simp: kmod_info_ok_def unat_sub word_le_nat_alt)
      have "wp (kext_parse_relocations (resolve s) ?f st dst info) (\<lambda>info'.
          info' = info\<lparr>extrel := unat (word_at ?f (dst + 64)), locrel := unat (word_at ?f (dst + 72))\<rparr>
          \<and> (\<forall>e < unat (word_at ?f (dst + 68)). extrel_ok (resolve s) ?f st info' e)
          \<and> (\<forall>e < unat (word_at ?f (dst + 76)). locrel_ok ?f info' e))"
        by (rule parse_relocations_wp [OF ready _ dst lim(2)])
          (use st lim room I(1) s fields(4) in \<open>auto simp: symtab_ok_def\<close>)
      then show ?thesis
        by (rule wp_mono) (use parsed0 [OF fields kmod] s in blast)
    qed
    show ?thesis
      using True unfolding sd
      by (simp add: sd wp_simps) (rule wp_mono [OF syms], use I(1) parsed in \<open>auto elim!: wp_mono\<close>)
  qed
qed

end

end
