(* ===== verification/Kext_Accept.thy ===== *)
theory Kext_Accept
  imports Kext_Parse_Safe
begin

text \<open>
  Exactly which files \<open>kext_parse\<close> accepts, as a predicate on the file that does not run the parser,
  and the load information it gives for them. \<open>Kext_Parse_Safe\<close> shows what the later phases need of an
  accepted file; here the other direction is shown too, that no file of this form is refused.
\<close>

section \<open>The split info commands\<close>

text \<open>The file after the first \<open>j\<close> commands: each \<open>LC_SEGMENT_SPLIT_INFO\<close> has become command \<open>0x4100001e\<close>.\<close>

fun split_destroyed :: "region \<Rightarrow> nat \<Rightarrow> region" where
  "split_destroyed f 0 = f"
| "split_destroyed f (Suc j) =
     (let g = split_destroyed f j; x = lc_off g j in
      if word_at g x = LC_SEGMENT_SPLIT_INFO then g\<lparr>rbyte := (rbyte g)(x + 3 := 0x41)\<rparr> else g)"

lemma wr_split_info:
  assumes "word_at g x = LC_SEGMENT_SPLIT_INFO" and "x + 4 \<le> rsize g"
  shows "wr32 g x (LC_SEGMENT_SPLIT_INFO XOR 0x41000000) = Some (g\<lparr>rbyte := (rbyte g)(x + 3 := 0x41)\<rparr>)"
proof -
  define bs where "bs = le_bytes 4 (LC_SEGMENT_SPLIT_INFO XOR 0x41000000 :: u32)"
  have "(if x \<le> i \<and> i < x + 4 then bs ! (i - x) else rbyte g i) = ((rbyte g)(x + 3 := 0x41)) i" for i
  proof (cases "x \<le> i \<and> i < x + 4")
    case True
    then have "i - x \<in> {0, 1, 2, 3}" by auto
    moreover have "rbyte g i = le_bytes 4 (LC_SEGMENT_SPLIT_INFO :: u32) ! (i - x)"
      using word_at_byte [of "i - x" g x] True assms(1) by auto
    ultimately show ?thesis
      using True by (auto simp: bs_def le_bytes_split_info)
  qed auto
  then have "(\<lambda>i. if x \<le> i \<and> i < x + 4 then bs ! (i - x) else rbyte g i) = (rbyte g)(x + 3 := 0x41)"
    by (rule ext)
  moreover have "length bs = 4" by (simp add: bs_def)
  ultimately show ?thesis
    using assms(2) unfolding wr32_def bs_def [symmetric] wr_bytes_def by simp
qed

lemma split_step:
  obtains (kept) "split_destroyed f (Suc j) = split_destroyed f j"
      "word_at (split_destroyed f j) (lc_off (split_destroyed f j) j) \<noteq> LC_SEGMENT_SPLIT_INFO"
  | (destroyed) "split_info_write (split_destroyed f j) (lc_off (split_destroyed f j) j) (split_destroyed f (Suc j))"
  by (cases "word_at (split_destroyed f j) (lc_off (split_destroyed f j) j) = LC_SEGMENT_SPLIT_INFO")
    (auto simp: Let_def split_info_write_def intro: that)

text \<open>The region \<open>g\<close> reads as \<open>h\<close> where the parser looks at command \<open>j\<close>.\<close>

definition same_command :: "region \<Rightarrow> region \<Rightarrow> nat \<Rightarrow> bool" where
  "same_command g h j \<longleftrightarrow>
     rsize g = rsize h \<and> word_at g 0 = word_at h 0 \<and> word_at g 12 = word_at h 12
     \<and> word_at g 16 = word_at h 16 \<and> word_at g 20 = word_at h 20
     \<and> lc_off g j = lc_off h j \<and> word_at g (lc_off h j + 4) = word_at h (lc_off h j + 4)
     \<and> word_at g (lc_off h j) = word_at h (lc_off h j)
     \<and> (\<forall>off. lc_off h j \<le> off \<longrightarrow> off + 4 \<le> lc_off h (Suc j) \<longrightarrow> word_at g off = word_at h off)
     \<and> (\<forall>off. lc_off h j \<le> off \<longrightarrow> off + 8 \<le> lc_off h (Suc j) \<longrightarrow> dword_at g off = dword_at h off)"

lemma same_command_refl: "same_command g g j"
  by (simp add: same_command_def)

lemma same_command_trans: "same_command g h j \<Longrightarrow> same_command h k j \<Longrightarrow> same_command g k j"
  by (simp add: same_command_def del: lc_off.simps) (simp add: lc_off.simps)

lemma split_write_command:
  assumes w: "split_info_write g (lc_off g m) h" and j: "j < m"
    and kind: "word_at g (lc_off g j) \<noteq> LC_SEGMENT_SPLIT_INFO"
  shows "same_command g h j" and "word_at h (lc_off h j) = word_at g (lc_off g j)"
proof -
  note f = split_info_fields [OF w] and off = split_info_lc_off [OF w]
  have le: "lc_off g (Suc j) \<le> lc_off g m" "lc_off g j \<le> lc_off g m" "32 \<le> lc_off g m"
    using j lc_off_mono [of 0 m g] lc_off_mono [of "Suc j" m g] lc_off_mono [of j m g] by simp_all
  have eq: "lc_off h j = lc_off g j" "lc_off h (Suc j) = lc_off g (Suc j)"
    using off [of j] off [of "Suc j"] j by (simp_all del: lc_off.simps)
  have size: "word_at h (lc_off g j + 4) = word_at g (lc_off g j + 4)"
    using split_info_size_same [OF w, of j] j by simp
  have "lc_off g j \<noteq> lc_off g m" using kind w by (auto simp: split_info_write_def)
  then have kind': "word_at h (lc_off g j) = word_at g (lc_off g j)"
    using f(1) [of "lc_off g j"] le by simp
  then show "word_at h (lc_off h j) = word_at g (lc_off g j)" by (simp add: eq)
  show "same_command g h j"
    using w le eq kind' size f(1,2)
    by (simp add: same_command_def split_info_write_def del: lc_off.simps)
qed

text \<open>A destroyed command stays destroyed, and the commands already passed read as in the final file.\<close>

lemma destroyed_kind: "j < m \<Longrightarrow> word_at (split_destroyed f m) (lc_off (split_destroyed f m) j) \<noteq> LC_SEGMENT_SPLIT_INFO"
proof (induction m)
  case (Suc m)
  show ?case
  proof (cases rule: split_step [of f m, case_names kept destroyed])
    case kept
    then show ?thesis using Suc by (cases "j = m") (simp_all del: split_destroyed.simps)
  next
    case destroyed
    show ?thesis
    proof (cases "j = m")
      case True
      let ?g = "split_destroyed f m" and ?h = "split_destroyed f (Suc m)"
      have off: "lc_off ?h m = lc_off ?g m"
        by (rule split_info_lc_off [OF destroyed]) simp
      have "rbyte ?h (lc_off ?g m + 3) = 0x41"
        using destroyed by (simp add: Let_def split_info_write_def)
      then have "le_bytes 4 (word_at ?h (lc_off ?g m)) ! 3 = 0x41"
        using word_at_byte [of 3 ?h "lc_off ?g m"] by simp
      then show ?thesis by (auto simp: True off le_bytes_split_info simp del: split_destroyed.simps)
    next
      case False
      then show ?thesis
        using Suc split_write_command(2) [OF destroyed, of j] by (simp del: split_destroyed.simps)
    qed
  qed
qed simp

lemma passed_command: "m \<le> n \<Longrightarrow> j < m \<Longrightarrow> same_command (split_destroyed f m) (split_destroyed f n) j"
proof (induction n rule: dec_induct)
  case base
  show ?case by (rule same_command_refl)
next
  case (step n)
  have "same_command (split_destroyed f n) (split_destroyed f (Suc n)) j"
  proof (cases rule: split_step [of f n, case_names kept destroyed])
    case kept
    then show ?thesis by (simp add: same_command_refl)
  next
    case destroyed
    then show ?thesis
      by (rule split_write_command(1)) (use step destroyed_kind [of j n f] in simp_all)
  qed
  with step show ?case by (blast intro: same_command_trans)
qed

text \<open>The header and the place and size of the next command are not changed either.\<close>

lemma current_command:
  fixes f :: region
  assumes "m \<le> n"
  defines "g \<equiv> split_destroyed f m" and "h \<equiv> split_destroyed f n"
  shows "rsize g = rsize h" and "word_at g 0 = word_at h 0" and "word_at g 12 = word_at h 12"
    and "word_at g 16 = word_at h 16" and "word_at g 20 = word_at h 20"
    and "lc_off g m = lc_off h m"
proof -
  have *: "rsize g = rsize (split_destroyed f n) \<and> word_at g 0 = word_at (split_destroyed f n) 0
    \<and> word_at g 12 = word_at (split_destroyed f n) 12 \<and> word_at g 16 = word_at (split_destroyed f n) 16
    \<and> word_at g 20 = word_at (split_destroyed f n) 20 \<and> (\<forall>k \<le> m. lc_off (split_destroyed f n) k = lc_off g k)"
    using assms(1)
  proof (induction n rule: dec_induct)
    case base
    show ?case by (simp add: g_def)
  next
    case (step n)
    show ?case
    proof (cases rule: split_step [of f n, case_names kept destroyed])
      case kept
      with step show ?thesis by simp
    next
      case destroyed
      note off = split_info_lc_off [OF destroyed] and f = split_info_fields(1) [OF destroyed]
      have "32 \<le> lc_off (split_destroyed f n) n" using lc_off_mono [of 0 n "split_destroyed f n"] by simp
      with step destroyed off f show ?thesis
        by (auto simp: split_info_write_def simp del: split_destroyed.simps lc_off.simps)
    qed
  qed
  then show "rsize g = rsize h" "word_at g 0 = word_at h 0" "word_at g 12 = word_at h 12"
    "word_at g 16 = word_at h 16" "word_at g 20 = word_at h 20" "lc_off g m = lc_off h m"
    by (simp_all add: h_def)
qed

section \<open>Load commands\<close>

text \<open>Where the last of the first \<open>j\<close> commands of a kind starts, and the address of their first segment.\<close>

fun find_cmd :: "region \<Rightarrow> u32 \<Rightarrow> nat \<Rightarrow> nat option" where
  "find_cmd f c 0 = None"
| "find_cmd f c (Suc j) = (if word_at f (lc_off f j) = c then Some (lc_off f j) else find_cmd f c j)"

definition seg_found :: "region \<Rightarrow> nat \<Rightarrow> bool" where
  "seg_found f j \<longleftrightarrow> (\<exists>k < j. is_seg f k)"

fun seg_base :: "region \<Rightarrow> nat \<Rightarrow> u64" where
  "seg_base f 0 = 0"
| "seg_base f (Suc j) = (if is_seg f j \<and> \<not> seg_found f j then seg_vmaddr f j else seg_base f j)"

lemma seg_found_Suc: "seg_found f (Suc j) \<longleftrightarrow> seg_found f j \<or> is_seg f j"
  by (auto simp: seg_found_def less_Suc_eq)

lemma seg_found_vm: "\<not> seg_found f j \<Longrightarrow> vm_before f j = 0 \<and> seg_base f j = 0"
  by (induction j) (simp_all add: seg_found_Suc)

text \<open>
  A segment: room for its command, file contents inside the file (the sum is one of 64-bit words)
  and no longer than the memory, no wrap of the addresses; the first one maps the header, the others
  continue where the one before ends.
\<close>

definition segment_fits :: "region \<Rightarrow> u64 \<Rightarrow> nat \<Rightarrow> bool" where
  "segment_fits f fsize j \<longleftrightarrow>
     72 \<le> cmdsize_at f j
     \<and> seg_fileoff f j \<le> fsize \<and> seg_fileoff f j + seg_filesize f j \<le> fsize
     \<and> seg_filesize f j \<le> seg_vmsize f j
     \<and> seg_vmaddr f j \<le> seg_vmaddr f j + seg_vmsize f j
     \<and> (if seg_found f j then seg_vmaddr f j = seg_base f j + word_of_nat (vm_before f j)
        else seg_fileoff f j = 0 \<and> 32 + ucast (word_at f 20) \<le> seg_filesize f j)"

definition symtab_fits :: "region \<Rightarrow> u64 \<Rightarrow> nat \<Rightarrow> bool" where
  "symtab_fits f fsize j \<longleftrightarrow>
     24 \<le> cmdsize_at f j \<and> find_cmd f LC_SYMTAB j = None
     \<and> unat (word_at f (lc_off f j + 8)) + 16 * unat (word_at f (lc_off f j + 12)) \<le> unat fsize
     \<and> unat (word_at f (lc_off f j + 16)) < unat fsize"

definition dysymtab_fits :: "region \<Rightarrow> u64 \<Rightarrow> nat \<Rightarrow> bool" where
  "dysymtab_fits f fsize j \<longleftrightarrow>
     80 \<le> cmdsize_at f j \<and> find_cmd f LC_DYSYMTAB j = None
     \<and> unat (word_at f (lc_off f j + 64)) + 8 * unat (word_at f (lc_off f j + 68)) \<le> unat fsize
     \<and> unat (word_at f (lc_off f j + 72)) + 8 * unat (word_at f (lc_off f j + 76)) \<le> unat fsize"

definition command_fits :: "region \<Rightarrow> u64 \<Rightarrow> nat \<Rightarrow> bool" where
  "command_fits f fsize j \<longleftrightarrow>
     lc_off f j + 8 \<le> 32 + unat (word_at f 20) \<and> lc_off f (Suc j) \<le> 32 + unat (word_at f 20)
     \<and> word_at f (lc_off f j) \<noteq> LC_SEGMENT
     \<and> (is_seg f j \<longrightarrow> segment_fits f fsize j)
     \<and> (word_at f (lc_off f j) = LC_SYMTAB \<longrightarrow> symtab_fits f fsize j)
     \<and> (word_at f (lc_off f j) = LC_DYSYMTAB \<longrightarrow> dysymtab_fits f fsize j)"

definition walk_state :: "region \<Rightarrow> u64 \<Rightarrow> nat \<Rightarrow> kext_walk" where
  "walk_state f fsize j = \<lparr>w_file = f,
     w_info = kext_load_info_zero\<lparr>file_size := fsize, vm_base := seg_base f j, symtab := find_cmd f LC_SYMTAB j,
       dysymtab := find_cmd f LC_DYSYMTAB j\<rparr>,
     w_vmaddr = seg_base f j + word_of_nat (vm_before f j), w_found = seg_found f j, w_lc = lc_off f j\<rparr>"

lemma u32_less_cmdsize: "word_at f (lc_off f j + 4) < c \<longleftrightarrow> cmdsize_at f j < unat c"
  by (simp add: cmdsize_at_def word_less_nat_alt)

lemma same_command_reads:
  assumes "same_command g f j"
  shows "rsize g = rsize f" and "word_at g 20 = word_at f 20" and "word_at g (lc_off f j + 4) = word_at f (lc_off f j + 4)"
    and "word_at g (lc_off f j) = word_at f (lc_off f j)"
    and "i + 4 \<le> cmdsize_at f j \<Longrightarrow> word_at g (lc_off f j + i) = word_at f (lc_off f j + i)"
    and "i + 8 \<le> cmdsize_at f j \<Longrightarrow> dword_at g (lc_off f j + i) = dword_at f (lc_off f j + i)"
  using assms by (simp_all add: same_command_def cmdsize_at_def)

lemma parse_segment_exact:
  assumes same: "same_command g f j" and seg: "is_seg f j" and room: "lc_off f j + 8 \<le> rsize f" "lc_off f j + cmdsize_at f j \<le> rsize f" "24 \<le> rsize f"
  shows "kext_parse_segment ((walk_state f fsize j)\<lparr>w_file := g\<rparr>) = Some (Inr y)
    \<longleftrightarrow> segment_fits f fsize j \<and> y = (walk_state f fsize (Suc j))\<lparr>w_lc := lc_off f j, w_file := g\<rparr>"
proof (cases "72 \<le> cmdsize_at f j")
  case False
  with room same_command_reads(1,3) [OF same] show ?thesis
    by (simp add: kext_parse_segment_def walk_state_def segment_fits_def u32_less_cmdsize)
next
  case True
  have kinds: "word_at f (lc_off f j) \<noteq> LC_SYMTAB" "word_at f (lc_off f j) \<noteq> LC_DYSYMTAB"
    using seg by (simp_all add: is_seg_def)
  have fields: "rd64 g (lc_off f j + 24) = Some (seg_vmaddr f j)" "rd64 g (lc_off f j + 32) = Some (seg_vmsize f j)"
    "rd64 g (lc_off f j + 40) = Some (seg_fileoff f j)" "rd64 g (lc_off f j + 48) = Some (seg_filesize f j)"
    "rd32 g (lc_off f j + 4) = Some (word_at f (lc_off f j + 4))" "rd32 g 20 = Some (word_at f 20)"
    using room True same_command_reads [OF same] by (simp_all add: seg_vmaddr_def seg_vmsize_def seg_fileoff_def seg_filesize_def)
  show ?thesis
    using True kinds seg seg_found_vm [of f j]
    by (auto simp: kext_parse_segment_def walk_state_def segment_fits_def u32_less_cmdsize fields Let_def
        seg_found_Suc not_less not_le kext_load_info_zero_def)
qed

lemma parse_symtab_exact:
  assumes same: "same_command g f j" and cmd: "word_at f (lc_off f j) = LC_SYMTAB"
    and room: "lc_off f j + 8 \<le> rsize f" "lc_off f j + cmdsize_at f j \<le> rsize f"
  shows "kext_parse_symtab ((walk_state f fsize j)\<lparr>w_file := g\<rparr>) = Some (Inr y)
    \<longleftrightarrow> symtab_fits f fsize j \<and> y = (walk_state f fsize (Suc j))\<lparr>w_lc := lc_off f j, w_file := g\<rparr>"
proof (cases "24 \<le> cmdsize_at f j \<and> find_cmd f LC_SYMTAB j = None")
  case False
  with room same_command_reads(1,3) [OF same] show ?thesis
    by (cases "find_cmd f LC_SYMTAB j = None") (simp_all add: kext_parse_symtab_def walk_state_def symtab_fits_def u32_less_cmdsize)
next
  case True
  have kind: "\<not> is_seg f j" using cmd by (simp add: is_seg_def)
  have fields: "rd32 g (lc_off f j + 4) = Some (word_at f (lc_off f j + 4))"
    "rd32 g (lc_off f j + 8) = Some (word_at f (lc_off f j + 8))"
    "rd32 g (lc_off f j + 12) = Some (word_at f (lc_off f j + 12))"
    "rd32 g (lc_off f j + 16) = Some (word_at f (lc_off f j + 16))"
    using room True same_command_reads [OF same] by simp_all
  have big: "\<not> word_at f (lc_off f j + 4) < 24" using True by (simp add: u32_less_cmdsize)
  let ?c1 = "ucast (word_at f (lc_off f j + 8)) > fsize
    \<or> ucast (word_at f (lc_off f j + 8)) + ucast (word_at f (lc_off f j + 12)) * 16 > fsize"
  let ?c2 = "ucast (word_at f (lc_off f j + 16)) \<ge> fsize"
  have run: "kext_parse_symtab ((walk_state f fsize j)\<lparr>w_file := g\<rparr>)
    = (if ?c1 then Some (Inl Symtab_bad_symbols) else if ?c2 then Some (Inl Symtab_bad_strings)
       else Some (Inr ((walk_state f fsize (Suc j))\<lparr>w_lc := lc_off f j, w_file := g\<rparr>)))"
    using True cmd kind by (simp add: kext_parse_symtab_def walk_state_def big fields seg_found_Suc Let_def kext_load_info_zero_def)
  have "?c1 \<longleftrightarrow> unat fsize < unat (word_at f (lc_off f j + 8)) + 16 * unat (word_at f (lc_off f j + 12))"
    by (auto simp: word_less_nat_alt array_check)
  moreover have "?c2 \<longleftrightarrow> unat fsize \<le> unat (word_at f (lc_off f j + 16))"
    by (simp add: word_le_nat_alt)
  ultimately have "symtab_fits f fsize j \<longleftrightarrow> \<not> ?c1 \<and> \<not> ?c2"
    using True by (simp only: symtab_fits_def simp_thms not_less not_le)
  then show ?thesis unfolding run by simp blast
qed

lemma parse_dysymtab_exact:
  assumes same: "same_command g f j" and cmd: "word_at f (lc_off f j) = LC_DYSYMTAB"
    and room: "lc_off f j + 8 \<le> rsize f" "lc_off f j + cmdsize_at f j \<le> rsize f"
  shows "kext_parse_dysymtab ((walk_state f fsize j)\<lparr>w_file := g\<rparr>) = Some (Inr y)
    \<longleftrightarrow> dysymtab_fits f fsize j \<and> y = (walk_state f fsize (Suc j))\<lparr>w_lc := lc_off f j, w_file := g\<rparr>"
proof (cases "80 \<le> cmdsize_at f j \<and> find_cmd f LC_DYSYMTAB j = None")
  case False
  with room same_command_reads(1,3) [OF same] show ?thesis
    by (cases "find_cmd f LC_DYSYMTAB j = None") (simp_all add: kext_parse_dysymtab_def walk_state_def dysymtab_fits_def u32_less_cmdsize)
next
  case True
  have kind: "\<not> is_seg f j" using cmd by (simp add: is_seg_def)
  have fields: "rd32 g (lc_off f j + 4) = Some (word_at f (lc_off f j + 4))"
    "rd32 g (lc_off f j + 64) = Some (word_at f (lc_off f j + 64))"
    "rd32 g (lc_off f j + 68) = Some (word_at f (lc_off f j + 68))"
    "rd32 g (lc_off f j + 72) = Some (word_at f (lc_off f j + 72))"
    "rd32 g (lc_off f j + 76) = Some (word_at f (lc_off f j + 76))"
    using room True same_command_reads [OF same] by simp_all
  have big: "\<not> word_at f (lc_off f j + 4) < 80" using True by (simp add: u32_less_cmdsize)
  let ?c1 = "ucast (word_at f (lc_off f j + 64)) > fsize
    \<or> ucast (word_at f (lc_off f j + 64)) + ucast (word_at f (lc_off f j + 68)) * 8 > fsize"
  let ?c2 = "ucast (word_at f (lc_off f j + 72)) > fsize
    \<or> ucast (word_at f (lc_off f j + 72)) + ucast (word_at f (lc_off f j + 76)) * 8 > fsize"
  have run: "kext_parse_dysymtab ((walk_state f fsize j)\<lparr>w_file := g\<rparr>)
    = (if ?c1 then Some (Inl Dysymtab_bad_external) else if ?c2 then Some (Inl Dysymtab_bad_local)
       else Some (Inr ((walk_state f fsize (Suc j))\<lparr>w_lc := lc_off f j, w_file := g\<rparr>)))"
    using True cmd kind by (simp add: kext_parse_dysymtab_def walk_state_def big fields seg_found_Suc Let_def kext_load_info_zero_def)
  have "?c1 \<longleftrightarrow> unat fsize < unat (word_at f (lc_off f j + 64)) + 8 * unat (word_at f (lc_off f j + 68))"
    "?c2 \<longleftrightarrow> unat fsize < unat (word_at f (lc_off f j + 72)) + 8 * unat (word_at f (lc_off f j + 76))"
    by (auto simp: word_less_nat_alt array_check)
  then have "dysymtab_fits f fsize j \<longleftrightarrow> \<not> ?c1 \<and> \<not> ?c2"
    using True by (simp only: dysymtab_fits_def simp_thms not_less not_le)
  then show ?thesis unfolding run by simp blast
qed

text \<open>One command, on the file as it is when the walk reaches it.\<close>

definition walk_on :: "region \<Rightarrow> nat \<Rightarrow> u64 \<Rightarrow> nat \<Rightarrow> kext_walk" where
  "walk_on f n fsize j = (walk_state (split_destroyed f n) fsize j)\<lparr>w_file := split_destroyed f j\<rparr>"

lemma destroy_split_info_exact:
  assumes "j < n" and "lc_off (split_destroyed f n) j + 4 \<le> rsize (split_destroyed f n)"
  shows "kext_destroy_split_info (walk_on f n fsize j) = Some (Inr ((walk_on f n fsize j)\<lparr>w_file := split_destroyed f (Suc j)\<rparr>))"
proof -
  let ?g = "split_destroyed f j" and ?x = "lc_off (split_destroyed f n) j"
  have g: "lc_off ?g j = ?x" "rsize ?g = rsize (split_destroyed f n)"
    using current_command [of j n f] assms(1) by simp_all
  have w: "w_file (walk_on f n fsize j) = ?g" "w_lc (walk_on f n fsize j) = ?x"
    by (simp_all add: walk_on_def walk_state_def)
  have rd: "rd32 ?g ?x = Some (word_at ?g ?x)" using assms(2) g(2) by simp
  show ?thesis
  proof (cases "word_at ?g ?x = LC_SEGMENT_SPLIT_INFO")
    case True
    have "wr32 ?g ?x (LC_SEGMENT_SPLIT_INFO XOR 0x41000000) = Some (split_destroyed f (Suc j))"
      using wr_split_info [OF True] assms(2) g True
      by (simp only: split_destroyed.simps Let_def if_True refl simp_thms)
    with True show ?thesis
      unfolding kext_destroy_split_info_def w rd bind.bind_lunit True by (simp only: if_True bind.bind_lunit simp_thms)
  next
    case False
    then have "split_destroyed f (Suc j) = ?g" using g by (simp add: Let_def)
    moreover have "(walk_on f n fsize j)\<lparr>w_file := ?g\<rparr> = walk_on f n fsize j" by (simp add: walk_on_def)
    ultimately show ?thesis
      unfolding kext_destroy_split_info_def w rd bind.bind_lunit using False by (simp only: if_False)
  qed
qed

lemma current_command_head:
  fixes f :: region
  assumes "j < n"
  defines "g \<equiv> split_destroyed f j" and "h \<equiv> split_destroyed f n"
  shows "word_at g (lc_off h j + 4) = word_at h (lc_off h j + 4)"
    and "word_at g (lc_off h j) = LC_SEGMENT \<longleftrightarrow> word_at h (lc_off h j) = LC_SEGMENT"
proof -
  let ?k = "split_destroyed f (Suc j)"
  have off: "lc_off g j = lc_off h j" using current_command [of j n f] assms by simp
  have same: "same_command ?k h j" using passed_command [of "Suc j" n j f] assms by simp
  have "word_at g (lc_off h j + 4) = word_at h (lc_off h j + 4)
      \<and> (word_at g (lc_off h j) = LC_SEGMENT \<longleftrightarrow> word_at h (lc_off h j) = LC_SEGMENT)"
  proof (cases rule: split_step [of f j, case_names kept destroyed])
    case kept
    then show ?thesis using same_command_reads(3,4) [OF same] unfolding g_def by simp
  next
    case destroyed
    note w = destroyed [folded g_def, unfolded off]
    have "word_at ?k (lc_off h j + 4) = word_at g (lc_off h j + 4)"
      using split_info_size_same [OF destroyed, of j] off unfolding g_def by simp
    moreover have "rbyte ?k (lc_off h j) = 0x1e"
      using w word_at_byte [of 0 g "lc_off h j"] by (simp add: split_info_write_def le_bytes4 del: split_destroyed.simps)
    then have "word_at ?k (lc_off h j) \<noteq> LC_SEGMENT"
      using word_at_byte [of 0 ?k "lc_off h j"] by (auto simp: le_bytes4 simp del: split_destroyed.simps)
    moreover have "word_at g (lc_off h j) = LC_SEGMENT_SPLIT_INFO" using w by (simp add: split_info_write_def)
    ultimately show ?thesis using same_command_reads(3,4) [OF same] by simp
  qed
  then show "word_at g (lc_off h j + 4) = word_at h (lc_off h j + 4)"
    "word_at g (lc_off h j) = LC_SEGMENT \<longleftrightarrow> word_at h (lc_off h j) = LC_SEGMENT" by blast+
qed

lemma parse_command_exact:
  fixes f :: region
  assumes j: "j < n"
  defines "G \<equiv> split_destroyed f n"
  assumes room: "32 + unat (word_at G 20) \<le> rsize G"
  shows "kext_parse_command (32 + unat (word_at G 20)) i (walk_on f n fsize j) = Some (Inr y)
    \<longleftrightarrow> command_fits G fsize j \<and> y = walk_on f n fsize (Suc j)"
proof (cases "lc_off G j + 8 \<le> 32 + unat (word_at G 20)")
  case False
  then show ?thesis by (simp add: kext_parse_command_def walk_on_def walk_state_def command_fits_def G_def)
next
  case small: True
  let ?x = "lc_off G j" and ?g = "split_destroyed f j" and ?h = "split_destroyed f (Suc j)"
  let ?w = "walk_on f n fsize j" and ?v = "(walk_state G fsize j)\<lparr>w_file := ?h\<rparr>"
  let ?w' = "(walk_state G fsize (Suc j))\<lparr>w_lc := ?x, w_file := ?h\<rparr>"
  have same: "same_command ?h G j" using passed_command [of "Suc j" n j f] j by (simp add: G_def)
  note head = current_command_head [OF j, of f, folded G_def] and reads = same_command_reads [OF same]
  have size: "rsize ?g = rsize G" using current_command [of j n f] j by (simp add: G_def)
  have hd: "rd32 ?g (?x + 4) = Some (word_at G (?x + 4))" "rd32 ?g ?x = Some (word_at ?g ?x)"
    "rd32 ?h (?x + 4) = Some (word_at G (?x + 4))" "rd32 ?h ?x = Some (word_at G ?x)"
    using small room size head reads by simp_all
  have w: "w_file ?w = ?g" "w_lc ?w = ?x" "w_file ?v = ?h" "w_lc ?v = ?x" "w_file ?w' = ?h" "w_lc ?w' = ?x"
    by (simp_all add: walk_on_def walk_state_def G_def)
  show ?thesis
  proof (cases "lc_off G (Suc j) \<le> 32 + unat (word_at G 20)")
    case False
    then show ?thesis
      using hd w by (simp add: kext_parse_command_def command_fits_def)
  next
    case True
    then have fits: "?x + 8 \<le> rsize G" "?x + cmdsize_at G j \<le> rsize G" "24 \<le> rsize G"
      using small room lc_off_mono [of 0 j G] by (simp_all add: cmdsize_at_def)
    have destroy: "kext_destroy_split_info ?w = Some (Inr ?v)"
      using destroy_split_info_exact [OF j, of f fsize] fits by (simp add: walk_on_def G_def del: split_destroyed.simps)
    have next_cmd: "kext_next_command ?w' = Some (Inr (walk_on f n fsize (Suc j)))"
      unfolding kext_next_command_def w hd by (simp add: walk_on_def walk_state_def G_def del: split_destroyed.simps)
    have other: "?w' = ?v" if "\<not> is_seg G j" "word_at G ?x \<noteq> LC_SYMTAB" "word_at G ?x \<noteq> LC_DYSYMTAB"
      using that by (simp add: walk_state_def seg_found_Suc del: split_destroyed.simps)
    have "kext_parse_command (32 + unat (word_at G 20)) i ?w
      = (if word_at G ?x = LC_SEGMENT then Some (Inl (LC_SEGMENT_not_permitted, ?g))
         else ebind (kext_when LC_SEGMENT_64 kext_parse_segment ?v) (\<lambda>w.
              ebind (kext_when LC_SYMTAB kext_parse_symtab w) (\<lambda>w.
              ebind (kext_when LC_DYSYMTAB kext_parse_dysymtab w) kext_next_command)))"
      using small True hd head destroy
      by (simp add: kext_parse_command_def w kext_when_def [of LC_SEGMENT] del: split_destroyed.simps)
    then show ?thesis
      using parse_segment_exact [OF same _ fits, of fsize] parse_symtab_exact [OF same _ fits(1,2), of fsize]
        parse_dysymtab_exact [OF same _ fits(1,2), of fsize] small True next_cmd other
      by (cases "word_at G ?x = LC_SEGMENT_64"; cases "word_at G ?x = LC_SYMTAB"; cases "word_at G ?x = LC_DYSYMTAB")
        (auto simp: kext_when_def w hd command_fits_def is_seg_def simp del: lc_off.simps split_destroyed.simps)
  qed
qed

lemma parse_commands_exact:
  fixes f :: region
  assumes room: "32 \<le> unat fsize" "unat fsize \<le> rsize f"
  defines "G \<equiv> split_destroyed f (unat (word_at f 16))"
  shows "kext_parse_commands f fsize = Some (Inr w)
    \<longleftrightarrow> word_at G 0 = MH_MAGIC_64 \<and> word_at G 12 = MH_KEXT_BUNDLE \<and> 32 + unat (word_at G 20) \<le> unat fsize
      \<and> (\<forall>j < unat (word_at G 16). command_fits G fsize j) \<and> w = walk_state G fsize (unat (word_at G 16))"
proof -
  let ?n = "unat (word_at f 16)"
  have header: "rsize f = rsize G" "word_at f 0 = word_at G 0" "word_at f 12 = word_at G 12"
    "word_at f 16 = word_at G 16" "word_at f 20 = word_at G 20"
    using current_command(1-5) [of 0 ?n f, folded G_def] by simp_all
  have start: "\<lparr>w_file = f, w_info = kext_load_info_zero\<lparr>file_size := fsize\<rparr>, w_vmaddr = 0, w_found = False, w_lc = 32\<rparr>
      = walk_on f ?n fsize 0"
    by (simp add: walk_on_def walk_state_def seg_found_def kext_load_info_zero_def)
  have last: "walk_on f ?n fsize ?n = walk_state G fsize ?n"
    by (simp only: walk_on_def G_def [symmetric]) (simp add: walk_state_def)
  have size: "32 + ucast (word_at f 20) > fsize \<longleftrightarrow> \<not> 32 + unat (word_at f 20) \<le> unat fsize"
    using unat_u32_less [of "word_at f 20"] by (simp add: word_less_nat_alt unat_word_ariths not_le)
  have loop: "loop_u32 kext_ncmds (kext_parse_command (32 + unat (word_at f 20))) 0 (walk_on f ?n fsize 0) = Some (Inr w)
    \<longleftrightarrow> (\<forall>j < ?n. command_fits G fsize j) \<and> w = walk_on f ?n fsize ?n" if "32 + unat (word_at f 20) \<le> unat fsize"
  proof (rule loop_u32_exact [where S = "walk_on f ?n fsize"])
    show "kext_ncmds (walk_on f ?n fsize i) = Some (word_at f 16)" if "i \<le> ?n" for i
    proof -
      have "rsize (split_destroyed f i) = rsize f" "word_at (split_destroyed f i) 16 = word_at f 16"
        using current_command(1,4) [OF that, of f, folded G_def] header by simp_all
      moreover have "w_file (walk_on f ?n fsize i) = split_destroyed f i" by (simp add: walk_on_def)
      ultimately show ?thesis using room by (simp add: kext_ncmds_def)
    qed
    show "kext_parse_command (32 + unat (word_at f 20)) i (walk_on f ?n fsize i) = Some (Inr y)
        \<longleftrightarrow> command_fits G fsize i \<and> y = walk_on f ?n fsize (Suc i)" if "i < ?n" for i y
      using parse_command_exact [OF that, where f = f and i = i and fsize = fsize and y = y, folded G_def, folded header] room \<open>32 + _ \<le> unat fsize\<close> by simp
  qed simp
  have reads: "rd32 f 0 = Some (word_at f 0)" "rd32 f 12 = Some (word_at f 12)" "rd32 f 20 = Some (word_at f 20)"
    using room by simp_all
  show ?thesis
    unfolding kext_parse_commands_def reads bind.bind_lunit start header [symmetric] size
    using loop last by auto
qed

section \<open>Symbols\<close>

definition sym_value :: "region \<Rightarrow> nat \<Rightarrow> u64" where
  "sym_value f nl = dword_at f (nl + 8)"

definition is_sect :: "region \<Rightarrow> nat \<Rightarrow> bool" where
  "is_sect f nl \<longleftrightarrow> (rbyte f (nl + 4) AND N_STAB) = 0 \<and> (rbyte f (nl + 4) AND N_TYPE) = N_SECT"

definition is_kmod :: "region \<Rightarrow> nat \<Rightarrow> nat \<Rightarrow> bool" where
  "is_kmod f st nl \<longleftrightarrow> cstr_at f (sym_stroff f st nl) = Some kmod_info_name"

text \<open>The name ends in the file, and what is defined in a section lies in the image.\<close>

definition symbol_fits :: "region \<Rightarrow> u64 \<Rightarrow> u64 \<Rightarrow> u64 \<Rightarrow> nat \<Rightarrow> nat \<Rightarrow> bool" where
  "symbol_fits f fsize base vm_end st nl \<longleftrightarrow>
     word_at f (st + 16) \<le> word_at f (st + 16) + word_at f nl
     \<and> (\<exists>z \<in> {sym_stroff f st nl ..< unat fsize}. rbyte f z = 0)
     \<and> (is_sect f nl \<longrightarrow> base \<le> sym_value f nl \<and> sym_value f nl \<le> vm_end)
     \<and> (is_kmod f st nl \<longrightarrow> is_sect f nl \<and> sym_value f nl \<le> sym_value f nl + 196 \<and> sym_value f nl + 196 \<le> vm_end)"

text \<open>The address of \<open>_kmod_info\<close> among the first \<open>i\<close> symbols, 0 for none.\<close>

fun kmod_before :: "region \<Rightarrow> nat \<Rightarrow> nat \<Rightarrow> nat \<Rightarrow> u64" where
  "kmod_before f st symoff 0 = 0"
| "kmod_before f st symoff (Suc i) =
     (if is_kmod f st (symoff + 16 * i) then sym_value f (symoff + 16 * i) else kmod_before f st symoff i)"

lemma parse_symbol_exact:
  fixes info :: kext_load_info and i :: nat
  defines "nl \<equiv> nlist info + 16 * i"
  assumes size: "unat (file_size info) \<le> rsize f" and room: "st + 24 \<le> rsize f" "nl + 16 \<le> rsize f"
  shows "kext_parse_symbol f st vm_end i info = Some (Inr y)
    \<longleftrightarrow> symbol_fits f (file_size info) (vm_base info) vm_end st nl \<and> (is_kmod f st nl \<longrightarrow> kmod_info info = 0)
      \<and> y = (if is_kmod f st nl then info\<lparr>kmod_info := sym_value f nl\<rparr> else info)"
proof -
  let ?fs = "file_size info" and ?s0 = "word_at f (st + 16)" and ?v = "sym_value f nl" and ?ty = "rbyte f (nl + 4)"
  define so where "so = (ucast (?s0 + word_at f nl) :: u64)"
  have stroff: "nlist_stroff f st nl = Some (?s0, so)" "unat so = sym_stroff f st nl"
    using nlist_stroff_Some [of st f nl] room by (simp_all add: sym_stroff_def so_def)
  have s0: "so < ucast ?s0 \<longleftrightarrow> \<not> ?s0 \<le> ?s0 + word_at f nl"
    by (simp add: so_def word_less_nat_alt word_le_nat_alt not_le)
  have fields: "rd8 f (nl + 4) = Some ?ty" "rd64 f (nl + 8) = Some ?v"
    using room by (simp_all add: sym_value_def)
  show ?thesis
  proof (cases "so < ucast ?s0 \<or> so \<ge> ?fs")
    case True
    then have "\<not> symbol_fits f ?fs (vm_base info) vm_end st nl"
      using s0 stroff(2) by (auto simp: symbol_fits_def word_le_nat_alt)
    with True show ?thesis
      by (simp add: kext_parse_symbol_def nl_def [symmetric] stroff(1) Let_def)
  next
    case False
    let ?max = "unat (?fs - so)"
    have max: "unat so + ?max = unat ?fs"
      using False unat_sub [of so ?fs] by (simp add: not_le word_less_nat_alt word_le_nat_alt)
    then have "unat so + ?max \<le> rsize f" using size by simp
    note lim = strnlen_limit [OF this]
    obtain m where m: "c_strnlen f (unat so) ?max = Some m" using lim(2) by blast
    have ends: "m \<noteq> ?max \<longleftrightarrow> (\<exists>z \<in> {sym_stroff f st nl ..< unat ?fs}. rbyte f z = 0)"
      by (rule lim(1) [OF m, unfolded max, unfolded stroff(2)])
    show ?thesis
    proof (cases "m = ?max")
      case True
      then have "\<not> symbol_fits f ?fs (vm_base info) vm_end st nl"
        using ends by (auto simp: symbol_fits_def)
      with True False m show ?thesis
        by (simp add: kext_parse_symbol_def nl_def [symmetric] stroff(1) Let_def)
    next
      case ok: False
      then obtain name where name: "cstr_at f (unat so) = Some name"
        using strnlen_terminates [OF _ m] max size by auto
      have eq: "c_streq f (unat so) kmod_info_name = Some (is_kmod f st nl)"
        using c_streq_cstr [OF name, of kmod_info_name] name
        by (simp add: is_kmod_def stroff(2) [symmetric]) (simp add: kmod_info_name_def)
      have fits: "symbol_fits f ?fs (vm_base info) vm_end st nl \<longleftrightarrow>
          (is_sect f nl \<longrightarrow> \<not> (?v < vm_base info \<or> vm_end < ?v))
          \<and> (is_kmod f st nl \<longrightarrow> is_sect f nl \<and> \<not> (?v + 196 < ?v \<or> ?v + 196 > vm_end))"
        using ok ends False s0 by (auto simp: symbol_fits_def not_less)
      have run: "kext_parse_symbol f st vm_end i info =
        (if is_sect f nl \<and> (?v < vm_base info \<or> vm_end < ?v) then Some (Inl Symtab_bad_address)
         else if \<not> is_kmod f st nl then Some (Inr info)
         else if kmod_info info \<noteq> 0 then Some (Inl Kmod_info_repeated)
         else if \<not> is_sect f nl then Some (Inl Kmod_info_bad_type)
         else if ?v + 196 < ?v \<or> ?v + 196 > vm_end then Some (Inl Kmod_info_bad_address)
         else Some (Inr (info\<lparr>kmod_info := ?v\<rparr>)))"
        using False ok m by (simp add: kext_parse_symbol_def nl_def [symmetric] stroff(1) fields eq Let_def is_sect_def)
      show ?thesis
        unfolding run fits by auto
    qed
  qed
qed

lemma parse_symbols_exact:
  fixes info :: kext_load_info and f :: region and st :: nat
  defines "so \<equiv> unat (word_at f (st + 8))"
  defines "K \<equiv> kmod_before f st so"
  assumes size: "unat (file_size info) \<le> rsize f" and room: "st + 24 \<le> rsize f"
    and syms: "so + 16 * unat (word_at f (st + 12)) \<le> rsize f" and zero: "kmod_info info = 0"
  shows "kext_parse_symbols f st vm_end info = Some (Inr y)
    \<longleftrightarrow> (\<forall>i < unat (word_at f (st + 12)). symbol_fits f (file_size info) (vm_base info) vm_end st (so + 16 * i)
          \<and> (is_kmod f st (so + 16 * i) \<longrightarrow> K i = 0))
      \<and> K (unat (word_at f (st + 12))) \<noteq> 0
      \<and> y = info\<lparr>nlist := so, kmod_info := K (unat (word_at f (st + 12)))\<rparr>"
proof -
  let ?N = "word_at f (st + 12)" and ?S = "\<lambda>i. info\<lparr>nlist := so, kmod_info := K i\<rparr>"
  let ?P = "\<lambda>i. symbol_fits f (file_size info) (vm_base info) vm_end st (so + 16 * i)
    \<and> (is_kmod f st (so + 16 * i) \<longrightarrow> K i = 0)"
  have loop: "loop_u32 (\<lambda>_. rd32 f (st + 12)) (kext_parse_symbol f st vm_end) 0 (?S 0) = Some (Inr x)
      \<longleftrightarrow> (\<forall>i < unat ?N. ?P i) \<and> x = ?S (unat ?N)" for x
  proof (rule loop_u32_exact [where S = ?S])
    show "rd32 f (st + 12) = Some ?N" using room by simp
    show "kext_parse_symbol f st vm_end i (?S i) = Some (Inr x) \<longleftrightarrow> ?P i \<and> x = ?S (Suc i)"
      if "i < unat ?N" for i x
    proof -
      have "?S (Suc i) = (if is_kmod f st (so + 16 * i) then (?S i)\<lparr>kmod_info := sym_value f (so + 16 * i)\<rparr> else ?S i)"
        by (simp add: K_def)
      moreover have "so + 16 * i + 16 \<le> rsize f" using syms that by simp
      moreover have sel: "file_size (?S i) = file_size info" "vm_base (?S i) = vm_base info" "nlist (?S i) = so"
        "kmod_info (?S i) = K i"
        by simp_all
      ultimately show ?thesis
        using parse_symbol_exact [of "?S i" f st i vm_end x, unfolded sel, OF size room] by (simp only: conj_assoc)
    qed
  qed simp
  have start: "info\<lparr>nlist := so\<rparr> = ?S 0" using zero by (simp add: K_def)
  have rd: "rd32 f (st + 8) = Some (word_at f (st + 8))" using room by simp
  have run: "kext_parse_symbols f st vm_end info =
    ebind (loop_u32 (\<lambda>_. rd32 f (st + 12)) (kext_parse_symbol f st vm_end) 0 (?S 0))
      (\<lambda>info. if kmod_info info = 0 then Some (Inl Kmod_info_required) else Some (Inr info))"
    by (simp only: kext_parse_symbols_def rd bind.bind_lunit so_def [symmetric] start [symmetric])
  have last: "(if kmod_info (?S (unat ?N)) = 0 then Some (Inl Kmod_info_required) else Some (Inr (?S (unat ?N)))) = Some (Inr y)
      \<longleftrightarrow> K (unat ?N) \<noteq> 0 \<and> y = ?S (unat ?N)"
    by (cases "K (unat ?N) = 0") (simp, simp, blast)
  show ?thesis
    unfolding run ebind_unique [OF loop] last ..
qed

section \<open>Relocations\<close>

lemma parse_extrel_exact:
  assumes lookup: "\<And>s. 0 \<notin> set s \<Longrightarrow> lookup s \<noteq> None" and st: "st + 24 \<le> rsize f"
    and syms: "nlist info + 16 * unat (word_at f (st + 12)) \<le> rsize f"
      "\<forall>i < unat (word_at f (st + 12)). cstr_at f (sym_stroff f st (nlist info + 16 * i)) \<noteq> None"
    and er: "extrel info + 8 * e + 8 \<le> rsize f"
  shows "kext_parse_extrel lookup f st info e False = Some (Inr False) \<longleftrightarrow> extrel_ok lookup f st info e"
proof -
  let ?er = "extrel info + 8 * e"
  define bits where "bits = word_at f (?er + 4)"
  define i where "i = unat (r_symbolnum bits)"
  have rd: "rd32 f (?er + 4) = Some bits" "rd32 f (st + 12) = Some (word_at f (st + 12))"
    "rd32 f ?er = Some (word_at f ?er)"
    using er st by (simp_all add: bits_def)
  show ?thesis
  proof (cases "\<not> r_extern bits \<or> r_length bits \<noteq> 3 \<or> r_symbolnum bits \<ge> word_at f (st + 12)")
    case True
    then show ?thesis
      by (auto simp: kext_parse_extrel_def extrel_ok_def rd Let_def bits_def [symmetric])
  next
    case False
    then have i: "i < unat (word_at f (st + 12))" by (simp add: i_def word_le_nat_alt)
    then obtain name where name: "cstr_at f (sym_stroff f st (nlist info + 16 * i)) = Some name"
      using syms(2) by auto
    have str: "nlist_stroff f st (nlist info + 16 * i)
        = Some (word_at f (st + 16), ucast (word_at f (st + 16) + word_at f (nlist info + 16 * i)))"
      using i syms(1) st by (intro nlist_stroff_Some) simp_all
    obtain a where a: "lookup name = Some a"
      using lookup [OF cstr_at_no_zero [OF name]] by auto
    have "kext_parse_extrel lookup f st info e False
      = (if a = 0 then Some (Inr True) else if reloc_bad_address info (word_at f ?er) 3 then Some (Inl Extrel_bad_address)
         else Some (Inr False))"
      using False name a by (simp add: kext_parse_extrel_def rd Let_def i_def [symmetric] str sym_stroff_def)
    moreover have "extrel_ok lookup f st info e \<longleftrightarrow> a \<noteq> 0 \<and> \<not> reloc_bad_address info (word_at f ?er) 3"
      using False name a by (auto simp: extrel_ok_def Let_def bits_def [symmetric] i_def [symmetric] not_le)
    ultimately show ?thesis by auto
  qed
qed

lemma parse_extrel_sticky: "kext_parse_extrel lookup f st info e True \<noteq> Some (Inr False)"
  by (auto simp: kext_parse_extrel_def Let_def bind_eq_Some_conv split: if_splits)

lemma parse_relocations_exact:
  fixes info :: kext_load_info and f :: region and dst :: nat
  assumes lookup: "\<And>s. 0 \<notin> set s \<Longrightarrow> lookup s \<noteq> None" and st: "st + 24 \<le> rsize f" and dst: "dst + 80 \<le> rsize f"
    and tabs: "unat (word_at f (dst + 64)) + 8 * unat (word_at f (dst + 68)) \<le> rsize f"
      "unat (word_at f (dst + 72)) + 8 * unat (word_at f (dst + 76)) \<le> rsize f"
    and syms: "nlist info + 16 * unat (word_at f (st + 12)) \<le> rsize f"
      "\<forall>i < unat (word_at f (st + 12)). cstr_at f (sym_stroff f st (nlist info + 16 * i)) \<noteq> None"
  defines "info2 \<equiv> info\<lparr>extrel := unat (word_at f (dst + 64)), locrel := unat (word_at f (dst + 72))\<rparr>"
  shows "kext_parse_relocations lookup f st dst info = Some (Inr y)
    \<longleftrightarrow> (\<forall>e < unat (word_at f (dst + 68)). extrel_ok lookup f st info2 e)
      \<and> (\<forall>e < unat (word_at f (dst + 76)). locrel_ok f info2 e) \<and> y = info2"
proof -
  let ?i1 = "info\<lparr>extrel := unat (word_at f (dst + 64))\<rparr>"
  have rd: "rd32 f (dst + 64) = Some (word_at f (dst + 64))" "rd32 f (dst + 68) = Some (word_at f (dst + 68))"
    "rd32 f (dst + 72) = Some (word_at f (dst + 72))" "rd32 f (dst + 76) = Some (word_at f (dst + 76))"
    using dst by simp_all
  have same: "extrel_ok lookup f st info2 e = extrel_ok lookup f st ?i1 e" for e
    by (simp add: info2_def extrel_ok_def reloc_bad_address_def reloc_vm_addr_def)
  have ext: "loop_u32 (\<lambda>_. Some (word_at f (dst + 68))) (kext_parse_extrel lookup f st ?i1) 0 False = Some (Inr False)
      \<longleftrightarrow> (\<forall>e < unat (word_at f (dst + 68)). extrel_ok lookup f st info2 e)"
    unfolding same
    by (rule loop_u32_flag [OF refl parse_extrel_exact parse_extrel_sticky]) (use lookup st tabs syms in auto)
  have loc: "loop_u32 (\<lambda>_. Some (word_at f (dst + 76))) (kext_parse_locrel f info2) 0 () = Some (Inr u)
      \<longleftrightarrow> (\<forall>e < unat (word_at f (dst + 76)). locrel_ok f info2 e)" for u
    using loop_u32_exact [where S = "\<lambda>_. ()" and body = "kext_parse_locrel f info2" and P = "locrel_ok f info2"
        and n = "unat (word_at f (dst + 76))" and N = "word_at f (dst + 76)" and bound = "\<lambda>_. Some (word_at f (dst + 76))" and y = u]
      tabs(2) by (simp add: kext_parse_locrel_def locrel_ok_def info2_def Let_def)
  have "?i1\<lparr>locrel := unat (word_at f (dst + 72))\<rparr> = info2" by (simp add: info2_def)
  then show ?thesis
    using ext loc by (simp add: kext_parse_relocations_def rd Let_def) blast
qed

section \<open>The whole file\<close>

text \<open>The load information of an accepted file.\<close>

definition accepted_info :: "region \<Rightarrow> u64 \<Rightarrow> nat \<Rightarrow> nat \<Rightarrow> kext_load_info" where
  "accepted_info f fsize st dst =
     (let n = unat (word_at f 16) in
      \<lparr>kext = 0, file_size = fsize, vm_size = word_of_nat (vm_before f n), vm_base = seg_base f n,
       kmod_info = kmod_before f st (unat (word_at f (st + 8))) (unat (word_at f (st + 12))),
       symtab = Some st, dysymtab = Some dst, nlist = unat (word_at f (st + 8)),
       extrel = unat (word_at f (dst + 64)), locrel = unat (word_at f (dst + 72))\<rparr>)"

definition symbols_fit :: "region \<Rightarrow> u64 \<Rightarrow> nat \<Rightarrow> bool" where
  "symbols_fit f fsize st \<longleftrightarrow>
     (let n = unat (word_at f 16); symoff = unat (word_at f (st + 8)); nsyms = unat (word_at f (st + 12));
          base = seg_base f n in
      (\<forall>i < nsyms. symbol_fits f fsize base (base + word_of_nat (vm_before f n)) st (symoff + 16 * i)
         \<and> (is_kmod f st (symoff + 16 * i) \<longrightarrow> kmod_before f st symoff i = 0))
      \<and> kmod_before f st symoff nsyms \<noteq> 0)"

definition kext_accepts :: "(bytes \<Rightarrow> u64 option) \<Rightarrow> region \<Rightarrow> u64 \<Rightarrow> kext_load_info \<Rightarrow> bool" where
  "kext_accepts lookup f fsize info \<longleftrightarrow>
     word_at f 0 = MH_MAGIC_64 \<and> word_at f 12 = MH_KEXT_BUNDLE \<and> 32 + unat (word_at f 20) \<le> unat fsize
     \<and> (\<forall>j < unat (word_at f 16). command_fits f fsize j)
     \<and> seg_found f (unat (word_at f 16))
     \<and> (case (find_cmd f LC_SYMTAB (unat (word_at f 16)), find_cmd f LC_DYSYMTAB (unat (word_at f 16))) of
          (Some st, Some dst) \<Rightarrow>
            symbols_fit f fsize st
            \<and> info = accepted_info f fsize st dst
            \<and> (\<forall>e < unat (word_at f (dst + 68)). extrel_ok lookup f st info e)
            \<and> (\<forall>e < unat (word_at f (dst + 76)). locrel_ok f info e)
        | _ \<Rightarrow> False)"

lemma find_cmd_Some: "find_cmd f c n = Some x \<Longrightarrow> \<exists>j < n. x = lc_off f j \<and> word_at f x = c"
  by (induction n) (auto simp: less_Suc_eq split: if_splits)

lemma found_commands:
  assumes fits: "\<forall>j < n. command_fits f fsize j" and size: "32 + unat (word_at f 20) \<le> unat fsize"
    and found: "find_cmd f LC_SYMTAB n = Some st" "find_cmd f LC_DYSYMTAB n = Some dst"
  shows "st + 24 \<le> unat fsize" and "unat (word_at f (st + 8)) + 16 * unat (word_at f (st + 12)) \<le> unat fsize"
    and "dst + 80 \<le> unat fsize" and "unat (word_at f (dst + 64)) + 8 * unat (word_at f (dst + 68)) \<le> unat fsize"
    and "unat (word_at f (dst + 72)) + 8 * unat (word_at f (dst + 76)) \<le> unat fsize"
proof -
  obtain i where i: "i < n" "st = lc_off f i" "word_at f (lc_off f i) = LC_SYMTAB"
    using find_cmd_Some [OF found(1)] by auto
  then have "symtab_fits f fsize i" "lc_off f (Suc i) \<le> 32 + unat (word_at f 20)"
    using fits by (simp_all add: command_fits_def)
  then show "st + 24 \<le> unat fsize" "unat (word_at f (st + 8)) + 16 * unat (word_at f (st + 12)) \<le> unat fsize"
    using i size by (simp_all add: symtab_fits_def cmdsize_at_def)
  obtain k where k: "k < n" "dst = lc_off f k" "word_at f (lc_off f k) = LC_DYSYMTAB"
    using find_cmd_Some [OF found(2)] by auto
  then have "dysymtab_fits f fsize k" "lc_off f (Suc k) \<le> 32 + unat (word_at f 20)"
    using fits by (simp_all add: command_fits_def)
  then show "dst + 80 \<le> unat fsize" "unat (word_at f (dst + 64)) + 8 * unat (word_at f (dst + 68)) \<le> unat fsize"
    "unat (word_at f (dst + 72)) + 8 * unat (word_at f (dst + 76)) \<le> unat fsize"
    using k size by (simp_all add: dysymtab_fits_def cmdsize_at_def)
qed

lemma symbol_fits_name:
  assumes "symbol_fits f fsize base vm_end st nl" and "unat fsize \<le> rsize f"
  shows "cstr_at f (sym_stroff f st nl) \<noteq> None"
  using assms cstr_at_terminated by (fastforce simp: symbol_fits_def)

text \<open>The tables behind the load commands, for a file whose commands fit.\<close>

lemma parse_tables_exact:
  assumes lookup: "\<And>s. 0 \<notin> set s \<Longrightarrow> lookup s \<noteq> None" and room: "unat fsize \<le> rsize f"
    and fits: "\<forall>j < unat (word_at f 16). command_fits f fsize j" and size: "32 + unat (word_at f 20) \<le> unat fsize"
    and found: "find_cmd f LC_SYMTAB (unat (word_at f 16)) = Some st" "find_cmd f LC_DYSYMTAB (unat (word_at f 16)) = Some dst"
  defines "base \<equiv> seg_base f (unat (word_at f 16))" and "vm \<equiv> word_of_nat (vm_before f (unat (word_at f 16))) :: u64"
  defines "info0 \<equiv> kext_load_info_zero\<lparr>file_size := fsize, vm_size := vm, vm_base := base, symtab := Some st, dysymtab := Some dst\<rparr>"
  shows "ebind (with_file f (kext_parse_symbols f st (base + vm) info0)) (\<lambda>info.
      ebind (with_file f (kext_parse_relocations lookup f st dst info)) (\<lambda>info. Some (Inr (f, info)))) = Some (Inr (f', info))
    \<longleftrightarrow> f' = f \<and> symbols_fit f fsize st \<and> info = accepted_info f fsize st dst
      \<and> (\<forall>e < unat (word_at f (dst + 68)). extrel_ok lookup f st info e)
      \<and> (\<forall>e < unat (word_at f (dst + 76)). locrel_ok f info e)"
proof -
  let ?so = "unat (word_at f (st + 8))" and ?ns = "unat (word_at f (st + 12))"
  let ?info1 = "info0\<lparr>nlist := ?so, kmod_info := kmod_before f st ?so ?ns\<rparr>"
  let ?info2 = "?info1\<lparr>extrel := unat (word_at f (dst + 64)), locrel := unat (word_at f (dst + 72))\<rparr>"
  note b = found_commands [OF fits size found]
  have sel: "file_size info0 = fsize" "vm_base info0 = base" "kmod_info info0 = 0"
    by (simp_all add: info0_def kext_load_info_zero_def)
  have symbols: "kext_parse_symbols f st (base + vm) info0 = Some (Inr x) \<longleftrightarrow> symbols_fit f fsize st \<and> x = ?info1" for x
    using parse_symbols_exact [of info0 f st "base + vm" x] b room
    by (simp add: sel symbols_fit_def Let_def base_def vm_def)
  have info2: "?info2 = accepted_info f fsize st dst"
    by (simp add: accepted_info_def info0_def kext_load_info_zero_def base_def vm_def Let_def)
  have relocations: "kext_parse_relocations lookup f st dst ?info1 = Some (Inr y)
      \<longleftrightarrow> (\<forall>e < unat (word_at f (dst + 68)). extrel_ok lookup f st (accepted_info f fsize st dst) e)
        \<and> (\<forall>e < unat (word_at f (dst + 76)). locrel_ok f (accepted_info f fsize st dst) e)
        \<and> y = accepted_info f fsize st dst" if "symbols_fit f fsize st" for y
  proof -
    have "\<forall>i < ?ns. cstr_at f (sym_stroff f st (nlist ?info1 + 16 * i)) \<noteq> None"
      using that symbol_fits_name [OF _ room] by (auto simp: symbols_fit_def Let_def)
    moreover have "nlist ?info1 + 16 * ?ns \<le> rsize f" using b room by simp
    ultimately show ?thesis
      unfolding info2 [symmetric]
      by (intro parse_relocations_exact [OF lookup]) (use b room in auto)
  qed
  have symbols': "with_file f (kext_parse_symbols f st (base + vm) info0) = Some (Inr x) \<longleftrightarrow> symbols_fit f fsize st \<and> x = ?info1" for x
    using symbols by simp
  have "ebind (with_file f (kext_parse_symbols f st (base + vm) info0)) (\<lambda>info.
      ebind (with_file f (kext_parse_relocations lookup f st dst info)) (\<lambda>info. Some (Inr (f, info)))) = Some (Inr (f', info))
    \<longleftrightarrow> symbols_fit f fsize st \<and> kext_parse_relocations lookup f st dst ?info1 = Some (Inr info) \<and> f' = f"
    unfolding ebind_unique [OF symbols'] by auto
  then show ?thesis
    using relocations [of info] by (cases "symbols_fit f fsize st") auto
qed

theorem kext_parse_exact:
  fixes f :: region
  assumes lookup: "\<And>s. 0 \<notin> set s \<Longrightarrow> lookup s \<noteq> None" and room: "32 \<le> unat fsize" "unat fsize \<le> rsize f"
  defines "G \<equiv> split_destroyed f (unat (word_at f 16))"
  shows "kext_parse lookup f fsize = Some (Inr (f', info)) \<longleftrightarrow> f' = G \<and> kext_accepts lookup G fsize info"
proof -
  let ?n = "unat (word_at G 16)" and ?w = "walk_state G fsize (unat (word_at G 16))"
  let ?A = "word_at G 0 = MH_MAGIC_64 \<and> word_at G 12 = MH_KEXT_BUNDLE \<and> 32 + unat (word_at G 20) \<le> unat fsize
      \<and> (\<forall>j < ?n. command_fits G fsize j)"
  have size: "unat fsize \<le> rsize G"
    using room current_command(1) [of 0 "unat (word_at f 16)" f] by (simp add: G_def)
  have walk: "kext_parse_commands f fsize = Some (Inr w) \<longleftrightarrow> ?A \<and> w = ?w" for w
    using parse_commands_exact [OF room, of w, folded G_def] by blast
  have w: "w_file ?w = G" "w_vmaddr ?w = seg_base G ?n + word_of_nat (vm_before G ?n)" "w_found ?w = seg_found G ?n"
    "vm_base (w_info ?w) = seg_base G ?n" "symtab (w_info ?w) = find_cmd G LC_SYMTAB ?n"
    "dysymtab (w_info ?w) = find_cmd G LC_DYSYMTAB ?n"
    by (simp_all add: walk_state_def)
  let ?rest = "if \<not> seg_found G ?n then Some (Inl (Segment_required, G))
    else case (find_cmd G LC_SYMTAB ?n, find_cmd G LC_DYSYMTAB ?n) of
        (None, _) \<Rightarrow> Some (Inl (Symtab_required, G))
      | (Some _, None) \<Rightarrow> Some (Inl (Dysymtab_required, G))
      | (Some st, Some dst) \<Rightarrow>
          ebind (with_file G (kext_parse_symbols G st (seg_base G ?n + word_of_nat (vm_before G ?n))
              (kext_load_info_zero\<lparr>file_size := fsize, vm_size := word_of_nat (vm_before G ?n), vm_base := seg_base G ?n,
                symtab := Some st, dysymtab := Some dst\<rparr>))) (\<lambda>info.
          ebind (with_file G (kext_parse_relocations lookup G st dst info)) (\<lambda>info. Some (Inr (G, info))))"
  have "kext_parse lookup f fsize = Some (Inr (f', info)) \<longleftrightarrow> ?A \<and> ?rest = Some (Inr (f', info))"
    unfolding kext_parse_def ebind_unique [OF walk] Let_def w
    by (auto simp: walk_state_def kext_load_info_zero_def split: option.split)
  also have "\<dots> \<longleftrightarrow> f' = G \<and> kext_accepts lookup G fsize info"
  proof (cases "?A \<and> seg_found G ?n \<and> find_cmd G LC_SYMTAB ?n \<noteq> None \<and> find_cmd G LC_DYSYMTAB ?n \<noteq> None")
    case False
    then show ?thesis by (auto simp: kext_accepts_def split: option.split)
  next
    case True
    then obtain st dst where found: "find_cmd G LC_SYMTAB ?n = Some st" "find_cmd G LC_DYSYMTAB ?n = Some dst"
      by auto
    from True have A: "?A" "seg_found G ?n" by blast+
    then have fits: "\<forall>j < ?n. command_fits G fsize j" "32 + unat (word_at G 20) \<le> unat fsize" by blast+
    note tables = parse_tables_exact [OF lookup size fits found, where f' = f' and info = info]
    show ?thesis
      unfolding kext_accepts_def found prod.case option.case using A tables by simp
  qed
  finally show ?thesis .
qed

end
