(* ===== verification/Kext_Refused.thy ===== *)
theory Kext_Refused
  imports Kext_Accept
begin

text \<open>
  What a refused upload looks like afterwards: the parser destroys split info commands while it walks
  over the load commands, and an error that it then reports leaves those destroyed that it passed.
\<close>

section \<open>Errors with a condition\<close>

text \<open>If there is a result, an error satisfies \<open>E\<close> and a value satisfies \<open>Q\<close>.\<close>

definition ends :: "('e \<Rightarrow> bool) \<Rightarrow> ('a \<Rightarrow> bool) \<Rightarrow> ('e + 'a) option \<Rightarrow> bool" where
  "ends E Q r = (case r of None \<Rightarrow> True | Some (Inl e) \<Rightarrow> E e | Some (Inr x) \<Rightarrow> Q x)"

lemma ends_simps [simp]:
  "ends E Q None" "ends E Q (Some (Inl e)) = E e" "ends E Q (Some (Inr x)) = Q x"
  by (simp_all add: ends_def)

lemma ends_ebind: "ends E P r \<Longrightarrow> (\<And>x. P x \<Longrightarrow> ends E Q (f x)) \<Longrightarrow> ends E Q (ebind r f)"
  by (cases r; cases "the r") (simp_all add: ebind_def)

lemma ends_bind: "(\<And>x. m = Some x \<Longrightarrow> ends E Q (f x)) \<Longrightarrow> ends E Q (Option.bind m f)"
  by (cases m) simp_all

lemma ends_if: "(c \<Longrightarrow> ends E Q x) \<Longrightarrow> (\<not> c \<Longrightarrow> ends E Q y) \<Longrightarrow> ends E Q (if c then x else y)"
  by simp

lemma ends_loop_u32:
  assumes "I i s"
    and "\<And>j t n. I j t \<Longrightarrow> bound t = Some n \<Longrightarrow> j < unat n \<Longrightarrow> ends E (I (Suc j)) (body j t)"
    and "\<And>j t n. I j t \<Longrightarrow> bound t = Some n \<Longrightarrow> unat n \<le> j \<Longrightarrow> Q t"
  shows "ends E Q (loop_u32 bound body i s)"
  using assms(1)
proof (induction "4294967296 - i" arbitrary: i s rule: less_induct)
  case less
  show ?case
  proof (subst loop_u32.simps, rule ends_bind)
    fix n assume n: "bound s = Some n"
    show "ends E Q (if i < unat n then ebind (body i s) (loop_u32 bound body (Suc i)) else Some (Inr s))"
    proof (cases "i < unat n")
      case True
      have "ends E Q (ebind (body i s) (loop_u32 bound body (Suc i)))"
        by (rule ends_ebind [OF assms(2) [OF less.prems n True]], rule less.hyps)
          (use True unat_u32_less [of n] in auto)
      with True show ?thesis by simp
    next
      case False
      then show ?thesis using assms(3) [OF less.prems n] by simp
    qed
  qed
qed

section \<open>The walk\<close>

text \<open>After \<open>j\<close> commands the file is the upload with the split info commands among them destroyed.\<close>

definition walked :: "region \<Rightarrow> nat \<Rightarrow> kext_walk \<Rightarrow> bool" where
  "walked f j w \<longleftrightarrow> j \<le> unat (word_at f 16) \<and> w_file w = split_destroyed f j \<and> w_lc w = lc_off (w_file w) j"

text \<open>An error carries such a file.\<close>

definition refused_file :: "region \<Rightarrow> kext_error \<times> region \<Rightarrow> bool" where
  "refused_file f x \<longleftrightarrow> (\<exists>j \<le> unat (word_at f 16). snd x = split_destroyed f j)"

text \<open>After the split info test, command \<open>j\<close> included.\<close>

definition walking :: "region \<Rightarrow> nat \<Rightarrow> kext_walk \<Rightarrow> bool" where
  "walking f j w \<longleftrightarrow> Suc j \<le> unat (word_at f 16) \<and> w_file w = split_destroyed f (Suc j) \<and> w_lc w = lc_off (w_file w) j"

lemma walking_refused: "walking f j w \<Longrightarrow> snd x = w_file w \<Longrightarrow> refused_file f x"
  by (auto simp: walking_def refused_file_def)

lemma split_destroyed_lc_off: "lc_off (split_destroyed f (Suc j)) j = lc_off (split_destroyed f j) j"
proof (cases rule: split_step [of f j, case_names kept destroyed])
  case destroyed
  show ?thesis by (rule split_info_lc_off [OF destroyed]) simp
qed simp

lemma destroy_ends:
  assumes w: "walked f j w" and j: "j < unat (word_at f 16)"
  shows "ends (refused_file f) (walking f j) (kext_destroy_split_info w)"
  unfolding kext_destroy_split_info_def
proof (rule ends_bind)
  let ?g = "split_destroyed f j" and ?x = "lc_off (split_destroyed f j) j"
  have g: "w_file w = ?g" "w_lc w = ?x" using w by (simp_all add: walked_def)
  fix c assume "rd32 (w_file w) (w_lc w) = Some c"
  then have c: "c = word_at ?g ?x" "?x + 4 \<le> rsize ?g" by (simp_all add: g rd_field split: if_splits)
  show "ends (refused_file f) (walking f j) (if c = LC_SEGMENT_SPLIT_INFO
      then wr32 (w_file w) (w_lc w) (c XOR 0x41000000) \<bind> (\<lambda>file. Some (Inr (w\<lparr>w_file := file\<rparr>))) else Some (Inr w))"
  proof (cases "c = LC_SEGMENT_SPLIT_INFO")
    case True
    then have "wr32 ?g ?x (LC_SEGMENT_SPLIT_INFO XOR 0x41000000) = Some (split_destroyed f (Suc j))"
      using wr_split_info [of ?g ?x] c by (simp only: split_destroyed.simps Let_def if_True refl simp_thms)
    with True j show ?thesis
      by (simp add: g walking_def split_destroyed_lc_off del: split_destroyed.simps)
  next
    case False
    then have "split_destroyed f (Suc j) = ?g" using c by (simp add: Let_def)
    with False j show ?thesis
      by (simp add: g walking_def del: split_destroyed.simps)
  qed
qed

lemma steps_keep_file:
  "ends (\<lambda>_. True) (\<lambda>v. w_file v = w_file w \<and> w_lc v = w_lc w) (kext_parse_segment w)"
  "ends (\<lambda>_. True) (\<lambda>v. w_file v = w_file w \<and> w_lc v = w_lc w) (kext_parse_symtab w)"
  "ends (\<lambda>_. True) (\<lambda>v. w_file v = w_file w \<and> w_lc v = w_lc w) (kext_parse_dysymtab w)"
  subgoal unfolding kext_parse_segment_def Let_def by (intro ends_bind ends_if) simp_all
  subgoal unfolding kext_parse_symtab_def Let_def by (intro ends_bind ends_if) simp_all
  subgoal unfolding kext_parse_dysymtab_def Let_def by (intro ends_bind ends_if) simp_all
  done

lemma when_ends:
  assumes "walking f j w" and "ends (\<lambda>_. True) (\<lambda>v. w_file v = w_file w \<and> w_lc v = w_lc w) (step w)"
  shows "ends (refused_file f) (walking f j) (kext_when c step w)"
  unfolding kext_when_def
proof (rule ends_bind)
  fix x
  have "walking f j v" if "step w = Some (Inr v)" for v
    using assms that by (simp add: walking_def)
  moreover have "refused_file f (e, w_file w)" for e
    by (rule walking_refused [OF assms(1)]) simp
  ultimately show "ends (refused_file f) (walking f j) (if x = c then with_file (w_file w) (step w) else Some (Inr w))"
    using assms(1) by (cases "step w"; cases "the (step w)") simp_all
qed

lemma next_command_ends:
  assumes "walking f j w"
  shows "ends (refused_file f) (walked f (Suc j)) (kext_next_command w)"
  unfolding kext_next_command_def
  by (rule ends_bind) (use assms in \<open>auto simp: walking_def walked_def rd_field split: if_splits\<close>)

lemma parse_command_ends:
  assumes w: "walked f j w" and j: "j < unat (word_at f 16)"
  shows "ends (refused_file f) (walked f (Suc j)) (kext_parse_command lim i w)"
proof -
  have here: "refused_file f (e, w_file w)" for e
    using w by (auto simp: walked_def refused_file_def)
  let ?K = "\<lambda>w. ebind (kext_when LC_SEGMENT_64 kext_parse_segment w) (\<lambda>w.
          ebind (kext_when LC_SYMTAB kext_parse_symtab w) (\<lambda>w.
          ebind (kext_when LC_DYSYMTAB kext_parse_dysymtab w) kext_next_command))"
  have tail: "ends (refused_file f) (walked f (Suc j)) (?K v)" if "walking f j v" for v
    by (intro ends_ebind [where P = "walking f j"] when_ends next_command_ends steps_keep_file that)
  have "ends (refused_file f) (walked f j) (kext_when LC_SEGMENT (\<lambda>_. Some (Inl LC_SEGMENT_not_permitted)) w)"
    unfolding kext_when_def by (rule ends_bind) (use w here in simp)
  then have "ends (refused_file f) (walked f (Suc j))
      (ebind (kext_when LC_SEGMENT (\<lambda>_. Some (Inl LC_SEGMENT_not_permitted)) w) (\<lambda>w. ebind (kext_destroy_split_info w) ?K))"
    by (rule ends_ebind) (rule ends_ebind [OF destroy_ends [OF _ j]], assumption, rule tail)
  then show ?thesis
    unfolding kext_parse_command_def by (auto simp: here intro!: ends_bind)
qed

lemma parse_commands_ends:
  "ends (refused_file f) (walked f (unat (word_at f 16))) (kext_parse_commands f fsize)"
proof -
  have start: "refused_file f (e, f)" for e
    unfolding refused_file_def by (intro exI [of _ 0]) simp
  have "ends (refused_file f) (walked f (unat (word_at f 16))) (loop_u32 kext_ncmds (kext_parse_command lim) 0
         \<lparr>w_file = f, w_info = kext_load_info_zero\<lparr>file_size := fsize\<rparr>, w_vmaddr = 0, w_found = False, w_lc = 32\<rparr>)" for lim
  proof (rule ends_loop_u32 [where I = "walked f"])
    fix j t n assume t: "walked f j t" and n: "kext_ncmds t = Some n"
    have "word_at (split_destroyed f j) 16 = word_at f 16"
      using current_command(4) [of 0 j f] by simp
    then have n': "n = word_at f 16"
      using t n by (auto simp: walked_def kext_ncmds_def rd_field split: if_splits)
    show "j < unat n \<Longrightarrow> ends (refused_file f) (walked f (Suc j)) (kext_parse_command lim j t)"
      using parse_command_ends [OF t] n' by simp
    show "unat n \<le> j \<Longrightarrow> walked f (unat (word_at f 16)) t"
      using t n' by (simp add: walked_def)
  qed (simp add: walked_def)
  then show ?thesis
    unfolding kext_parse_commands_def by (auto simp: start intro!: ends_bind)
qed

theorem kext_parse_refused:
  assumes "kext_parse lookup f fsize = Some (Inl (e, g))"
  shows "\<exists>j \<le> unat (word_at f 16). g = split_destroyed f j"
proof -
  have rest: "refused_file f (e, w_file w)" if "walked f (unat (word_at f 16)) w" for e w
    using that by (auto simp: walked_def refused_file_def)
  have rest': "ends (refused_file f) Q (with_file (w_file w) r)"
    if "walked f (unat (word_at f 16)) w" "\<And>x. Q x" for w Q and r :: "'a kext_result"
    using rest [OF that(1)] that(2) by (cases r; cases "the r") simp_all
  have "ends (refused_file f) (\<lambda>_. True) (kext_parse lookup f fsize)"
    unfolding kext_parse_def Let_def
    by (rule ends_ebind [OF parse_commands_ends])
      (auto simp: rest intro!: ends_ebind [where P = "\<lambda>_. True"] rest' split: option.split)
  with assms show ?thesis by (auto simp: refused_file_def)
qed

end
