(* ===== verification/Text_Parser.thy ===== *)
theory Text_Parser
  imports Prelude
begin

text \<open>
  The text scanner of \<^verbatim>\<open>kext_loader.c\<close> (\<open>struct text_parser\<close> and the \<open>tp_\<close> functions).
  The pointers \<open>p\<close> and \<open>e\<close> are offsets into the mapped file \<open>tp_mem\<close>; the functions return
  the parser they leave behind together with their result. The lemmas show what the callers
  rely on: the end never moves, the position never moves back and stays within one byte of the
  end, no function looks at bytes at or beyond the end, and each scan stops where it should.
\<close>

section \<open>State\<close>

record text_parser =
  tp_mem :: string
  tp_p :: nat
  tp_e :: nat

definition hex_digit :: "char \<Rightarrow> int" where
  "hex_digit digit =
     (if CHR ''0'' \<le> digit \<and> digit \<le> CHR ''9'' then of_char digit - of_char CHR ''0''
      else if CHR ''A'' \<le> digit \<and> digit \<le> CHR ''F'' then of_char digit - of_char CHR ''A'' + 10
      else if CHR ''a'' \<le> digit \<and> digit \<le> CHR ''f'' then of_char digit - of_char CHR ''a'' + 10
      else -1)"

definition tp_end :: "text_parser \<Rightarrow> bool" where
  "tp_end tp \<longleftrightarrow> tp_p tp \<ge> tp_e tp"

text \<open>The loop the scans share: \<open>while (p < e && P(*p)) p++\<close>.\<close>

function tp_skip :: "(char \<Rightarrow> bool) \<Rightarrow> text_parser \<Rightarrow> text_parser" where
  "tp_skip P tp =
     (if tp_p tp < tp_e tp \<and> P (tp_mem tp ! tp_p tp)
      then tp_skip P (tp\<lparr>tp_p := tp_p tp + 1\<rparr>)
      else tp)"
  by pat_completeness auto
termination
  by (relation "measure (\<lambda>(P, tp). tp_e tp - tp_p tp)") auto

declare tp_skip.simps [simp del]

section \<open>Operations\<close>

definition tp_next_line :: "text_parser \<Rightarrow> text_parser" where
  "tp_next_line tp =
     (let tp' = tp_skip (\<lambda>c. c \<noteq> CHR ''\<newline>'') tp in tp'\<lparr>tp_p := tp_p tp' + 1\<rparr>)"

definition is_blank :: "char \<Rightarrow> bool" where
  "is_blank c \<longleftrightarrow> c = CHR '' '' \<or> c = CHR 0x09"

text \<open>\<open>skipped\<close> is set by the first iteration, so it says whether the position moved.\<close>

definition tp_space :: "text_parser \<Rightarrow> bool \<times> text_parser" where
  "tp_space tp = (let tp' = tp_skip is_blank tp in (tp_p tp' \<noteq> tp_p tp, tp'))"

definition tp_line_comment :: "text_parser \<Rightarrow> text_parser" where
  "tp_line_comment tp =
     (if tp_p tp < tp_e tp \<and> tp_mem tp ! tp_p tp = CHR ''#''
      then tp_skip (\<lambda>c. c \<noteq> CHR ''\<newline>'') tp
      else tp)"

lemma tp_skip_frame [simp]: "tp_mem (tp_skip P tp) = tp_mem tp" "tp_e (tp_skip P tp) = tp_e tp"
proof (induction P tp rule: tp_skip.induct)
  case (1 P tp)
  { case 1 show ?case using "1.IH"(1) by (subst tp_skip.simps) simp }
  { case 2 show ?case using "1.IH"(2) by (subst tp_skip.simps) simp }
qed

lemma tp_skip_ge: "tp_p tp \<le> tp_p (tp_skip P tp)"
proof (induction P tp rule: tp_skip.induct)
  case (1 P tp)
  then show ?case by (subst tp_skip.simps) auto
qed

lemma tp_next_line_frame [simp]:
  "tp_mem (tp_next_line tp) = tp_mem tp" "tp_e (tp_next_line tp) = tp_e tp"
  by (simp_all add: tp_next_line_def Let_def)

lemma tp_next_line_gt: "tp_p tp < tp_p (tp_next_line tp)"
  using tp_skip_ge [of tp "\<lambda>c. c \<noteq> CHR ''\<newline>''"] by (simp add: tp_next_line_def Let_def)

text \<open>The two loops that skip whole lines: each round moves past at least one byte.\<close>

function tp_comments :: "text_parser \<Rightarrow> text_parser" where
  "tp_comments tp =
     (if tp_p tp < tp_e tp \<and> tp_mem tp ! tp_p tp = CHR ''#''
      then tp_comments (tp_next_line tp)
      else tp)"
  by pat_completeness auto
termination
  by (relation "measure (\<lambda>tp. tp_e tp - tp_p tp)") (auto intro: diff_less_mono2 tp_next_line_gt)

declare tp_comments.simps [simp del]

function tp_comments_or_empty :: "text_parser \<Rightarrow> text_parser" where
  "tp_comments_or_empty tp =
     (if tp_p tp < tp_e tp
         \<and> (tp_mem tp ! tp_p tp = CHR ''#'' \<or> tp_mem tp ! tp_p tp = CHR ''\<newline>'')
      then tp_comments_or_empty (tp_next_line tp)
      else tp)"
  by pat_completeness auto
termination
  by (relation "measure (\<lambda>tp. tp_e tp - tp_p tp)") (auto intro: diff_less_mono2 tp_next_line_gt)

declare tp_comments_or_empty.simps [simp del]

text \<open>The C library's \<open>strncmp\<close> on byte sequences, as far as it looks.\<close>

fun c_strncmp :: "string \<Rightarrow> string \<Rightarrow> nat \<Rightarrow> int" where
  "c_strncmp xs ys 0 = 0"
| "c_strncmp (x # xs) (y # ys) (Suc n) =
     (if x \<noteq> y then of_char x - of_char y
      else if x = CHR 0x00 then 0
      else c_strncmp xs ys n)"
| "c_strncmp xs ys (Suc n) = 0"

definition tp_match :: "text_parser \<Rightarrow> string \<Rightarrow> bool \<times> text_parser" where
  "tp_match tp str =
     (let len = length str in
      if tp_p tp < tp_e tp \<and> tp_p tp + len \<le> tp_e tp
      then (if c_strncmp (drop (tp_p tp) (tp_mem tp)) (str @ [CHR 0x00]) len = 0
            then (True, tp\<lparr>tp_p := tp_p tp + len\<rparr>)
            else (False, tp))
      else (False, tp))"

definition is_ident :: "char \<Rightarrow> bool" where
  "is_ident ch \<longleftrightarrow>
     (CHR ''a'' \<le> ch \<and> ch \<le> CHR ''z'') \<or> (CHR ''A'' \<le> ch \<and> ch \<le> CHR ''Z'')
     \<or> (CHR ''0'' \<le> ch \<and> ch \<le> CHR ''9'') \<or> ch = CHR ''_''"

text \<open>An identifier is given by its position and length, as in the code.\<close>

definition tp_ident :: "text_parser \<Rightarrow> (nat \<times> nat) option \<times> text_parser" where
  "tp_ident tp =
     (let tp' = tp_skip is_ident tp in
      if tp_p tp' = tp_p tp then (None, tp)
      else (Some (tp_p tp, tp_p tp' - tp_p tp), tp'))"

definition tp_hex_byte :: "text_parser \<Rightarrow> u8 option \<times> text_parser" where
  "tp_hex_byte tp =
     (if tp_p tp + 2 \<le> tp_e tp
      then (let hi = hex_digit (tp_mem tp ! tp_p tp);
                lo = hex_digit (tp_mem tp ! (tp_p tp + 1)) in
            if hi \<noteq> -1 \<and> lo \<noteq> -1
            then (Some (push_bit 4 (word_of_int hi AND 0xF) OR (word_of_int lo AND 0xF)),
                  tp\<lparr>tp_p := tp_p tp + 2\<rparr>)
            else (None, tp))
      else (None, tp))"

text \<open>The eight rounds of \<open>tp_hex_u64\<close>; \<open>None\<close> is the jump to \<open>fail\<close>.\<close>

fun tp_hex_bytes :: "nat \<Rightarrow> u64 \<Rightarrow> text_parser \<Rightarrow> (u64 \<times> text_parser) option" where
  "tp_hex_bytes 0 v tp = Some (v, tp)"
| "tp_hex_bytes (Suc n) v tp =
     (case tp_hex_byte tp of
        (None, _) \<Rightarrow> None
      | (Some byte, tp') \<Rightarrow> tp_hex_bytes n (push_bit 8 v OR ucast byte) tp')"

definition tp_hex_u64 :: "text_parser \<Rightarrow> u64 option \<times> text_parser" where
  "tp_hex_u64 tp =
     (case tp_match tp ''0x'' of
        (False, _) \<Rightarrow> (None, tp)
      | (True, tp1) \<Rightarrow>
          (case tp_hex_bytes 8 0 tp1 of
             None \<Rightarrow> (None, tp)
           | Some (v, tp2) \<Rightarrow>
               if tp_p tp2 < tp_e tp2 \<and> hex_digit (tp_mem tp2 ! tp_p tp2) \<noteq> -1
               then (None, tp)
               else (Some v, tp2)))"


section \<open>The text still to be read\<close>

text \<open>
  The abstraction: a parser stands for the text between its position and its end. It is well
  formed when the end lies in the mapped file and the position is at most one past the end
  (\<open>tp_next_line\<close> steps over a newline that may be missing on the last line).
\<close>

definition tp_wf :: "text_parser \<Rightarrow> bool" where
  "tp_wf tp \<longleftrightarrow> tp_e tp \<le> length (tp_mem tp) \<and> tp_p tp \<le> Suc (tp_e tp)"

definition tp_rest :: "text_parser \<Rightarrow> string" where
  "tp_rest tp = drop (tp_p tp) (take (tp_e tp) (tp_mem tp))"

lemma tp_rest_Nil_iff: "tp_wf tp \<Longrightarrow> tp_rest tp = [] \<longleftrightarrow> tp_end tp"
  by (auto simp: tp_wf_def tp_rest_def tp_end_def)

lemma tp_rest_Cons:
  "tp_wf tp \<Longrightarrow> tp_p tp < tp_e tp \<Longrightarrow>
     tp_rest tp = tp_mem tp ! tp_p tp # tp_rest (tp\<lparr>tp_p := Suc (tp_p tp)\<rparr>)"
  by (simp add: tp_wf_def tp_rest_def Cons_nth_drop_Suc [symmetric])

lemma tp_rest_advance:
  "tp_rest (tp\<lparr>tp_p := tp_p tp + n\<rparr>) = drop n (tp_rest tp)"
  by (simp add: tp_rest_def add.commute)

lemma length_tp_rest: "tp_wf tp \<Longrightarrow> length (tp_rest tp) = tp_e tp - tp_p tp"
  by (simp add: tp_wf_def tp_rest_def)

lemma tp_rest_nth:
  "tp_wf tp \<Longrightarrow> tp_p tp + i < tp_e tp \<Longrightarrow> tp_rest tp ! i = tp_mem tp ! (tp_p tp + i)"
  by (simp add: tp_wf_def tp_rest_def)

text \<open>The position moved forward over the same text.\<close>

definition tp_leads :: "text_parser \<Rightarrow> text_parser \<Rightarrow> bool" where
  "tp_leads tp t \<longleftrightarrow> tp_mem t = tp_mem tp \<and> tp_e t = tp_e tp \<and> tp_p tp \<le> tp_p t"

lemma tp_leads_refl [simp]: "tp_leads tp tp"
  by (simp add: tp_leads_def)

lemma tp_leads_trans: "tp_leads a b \<Longrightarrow> tp_leads b c \<Longrightarrow> tp_leads a c"
  by (simp add: tp_leads_def)

text \<open>One run of a scanning function from \<open>tp\<close> to \<open>t\<close> with result \<open>r\<close>, against its meaning.\<close>

definition tp_step :: "(string \<Rightarrow> 'r \<times> string) \<Rightarrow> text_parser \<Rightarrow> 'r \<Rightarrow> text_parser \<Rightarrow> bool" where
  "tp_step sem tp r t \<longleftrightarrow>
     tp_leads tp t \<and> (tp_wf tp \<longrightarrow> tp_wf t \<and> sem (tp_rest tp) = (r, tp_rest t))"

section \<open>The contract of a scanning function\<close>

text \<open>
  \<open>sem\<close> is the function on the remaining text that the scanning function \<open>op\<close> implements:
  it gives the same result and leaves the same text behind. From the contract follows that
  \<open>op\<close> never depends on a byte at or beyond the end and never moves its position out of
  bounds.
\<close>

locale scanner =
  fixes op :: "text_parser \<Rightarrow> 'r \<times> text_parser"
    and sem :: "string \<Rightarrow> 'r \<times> string"
  assumes result: "tp_wf tp \<Longrightarrow> fst (op tp) = fst (sem (tp_rest tp))"
    and rest: "tp_wf tp \<Longrightarrow> tp_rest (snd (op tp)) = snd (sem (tp_rest tp))"
    and wf: "tp_wf tp \<Longrightarrow> tp_wf (snd (op tp))"
    and mem: "tp_mem (snd (op tp)) = tp_mem tp"
    and fixed_end: "tp_e (snd (op tp)) = tp_e tp"
    and forward: "tp_p tp \<le> tp_p (snd (op tp))"
begin

lemma run: "op tp = (r, t) \<Longrightarrow> tp_step sem tp r t"
  using result [of tp] rest [of tp] wf [of tp] mem [of tp] fixed_end [of tp] forward [of tp]
  by (auto simp: tp_step_def tp_leads_def prod_eq_iff)

lemma ignores_beyond_end:
  assumes "tp_wf tp" and "take (tp_e tp) m = take (tp_e tp) (tp_mem tp)" and "tp_e tp \<le> length m"
  shows "fst (op (tp\<lparr>tp_mem := m\<rparr>)) = fst (op tp)"
    and "tp_rest (snd (op (tp\<lparr>tp_mem := m\<rparr>))) = tp_rest (snd (op tp))"
proof -
  have wf': "tp_wf (tp\<lparr>tp_mem := m\<rparr>)" and rest': "tp_rest (tp\<lparr>tp_mem := m\<rparr>) = tp_rest tp"
    using assms by (simp_all add: tp_wf_def tp_rest_def)
  then show "fst (op (tp\<lparr>tp_mem := m\<rparr>)) = fst (op tp)"
    "tp_rest (snd (op (tp\<lparr>tp_mem := m\<rparr>))) = tp_rest (snd (op tp))"
    using assms(1) by (simp_all add: result rest)
qed

lemma shrinks: "tp_wf tp \<Longrightarrow> length (snd (sem (tp_rest tp))) \<le> length (tp_rest tp)"
proof -
  assume tp: "tp_wf tp"
  have "length (tp_rest (snd (op tp))) \<le> length (tp_rest tp)"
    using tp wf [OF tp] forward [of tp] fixed_end [of tp] by (simp add: length_tp_rest)
  with tp show ?thesis by (simp add: rest)
qed

lemma in_bounds: "tp_wf tp \<Longrightarrow> tp_p (snd (op tp)) \<le> Suc (tp_e tp)"
  using wf [of tp] fixed_end [of tp] by (simp add: tp_wf_def)

end

lemma scannerI: "(\<And>tp r t. op tp = (r, t) \<Longrightarrow> tp_step sem tp r t) \<Longrightarrow> scanner op sem"
  by unfold_locales (metis tp_step_def tp_leads_def fst_conv snd_conv prod.collapse)+

section \<open>What each function computes\<close>

abbreviation not_newline :: "char \<Rightarrow> bool" where
  "not_newline c \<equiv> c \<noteq> CHR ''\<newline>''"

lemma tp_skip_wf: "tp_wf tp \<Longrightarrow> tp_wf (tp_skip P tp)"
proof (induction P tp rule: tp_skip.induct)
  case (1 P tp)
  then show ?case by (subst tp_skip.simps) (auto simp: tp_wf_def)
qed

lemma tp_skip_rest: "tp_wf tp \<Longrightarrow> tp_rest (tp_skip P tp) = dropWhile P (tp_rest tp)"
proof (induction P tp rule: tp_skip.induct)
  case (1 P tp)
  show ?case
  proof (cases "tp_p tp < tp_e tp")
    case True
    with "1.prems" have *: "tp_rest tp = tp_mem tp ! tp_p tp # tp_rest (tp\<lparr>tp_p := Suc (tp_p tp)\<rparr>)"
      by (rule tp_rest_Cons)
    show ?thesis
    proof (cases "P (tp_mem tp ! tp_p tp)")
      case P: True
      have "tp_wf (tp\<lparr>tp_p := tp_p tp + 1\<rparr>)"
        using True "1.prems" by (simp add: tp_wf_def)
      with "1.IH" True P show ?thesis by (subst tp_skip.simps) (simp add: *)
    next
      case False
      then show ?thesis by (subst tp_skip.simps) (simp add: *)
    qed
  next
    case False
    with "1.prems" have "tp_rest tp = []" by (simp add: tp_rest_Nil_iff tp_end_def)
    with False show ?thesis by (subst tp_skip.simps) simp
  qed
qed

lemma tp_skip_p: "tp_wf tp \<Longrightarrow> tp_p (tp_skip P tp) = tp_p tp + length (takeWhile P (tp_rest tp))"
proof (induction P tp rule: tp_skip.induct)
  case (1 P tp)
  show ?case
  proof (cases "tp_p tp < tp_e tp")
    case True
    with "1.prems" have *: "tp_rest tp = tp_mem tp ! tp_p tp # tp_rest (tp\<lparr>tp_p := Suc (tp_p tp)\<rparr>)"
      by (rule tp_rest_Cons)
    have "tp_wf (tp\<lparr>tp_p := tp_p tp + 1\<rparr>)"
      using True "1.prems" by (simp add: tp_wf_def)
    with "1.IH" True show ?thesis by (subst tp_skip.simps) (simp add: *)
  next
    case False
    with "1.prems" have "tp_rest tp = []" by (simp add: tp_rest_Nil_iff tp_end_def)
    with False show ?thesis by (subst tp_skip.simps) simp
  qed
qed

definition sem_space :: "string \<Rightarrow> bool \<times> string" where
  "sem_space s = (s \<noteq> [] \<and> is_blank (hd s), dropWhile is_blank s)"

interpretation space: scanner tp_space sem_space
proof
  fix tp assume tp: "tp_wf tp"
  have "takeWhile is_blank s = [] \<longleftrightarrow> s = [] \<or> \<not> is_blank (hd s)" for s
    by (cases s) auto
  then show "fst (tp_space tp) = fst (sem_space (tp_rest tp))"
    using tp by (auto simp: tp_space_def sem_space_def Let_def tp_skip_p)
  show "tp_rest (snd (tp_space tp)) = snd (sem_space (tp_rest tp))"
    using tp by (simp add: tp_space_def sem_space_def Let_def tp_skip_rest)
  show "tp_wf (snd (tp_space tp))"
    using tp by (simp add: tp_space_def Let_def tp_skip_wf)
qed (simp_all add: tp_space_def Let_def tp_skip_ge)

definition sem_line_comment :: "string \<Rightarrow> unit \<times> string" where
  "sem_line_comment s = ((), if s \<noteq> [] \<and> hd s = CHR ''#'' then dropWhile not_newline s else s)"

interpretation line_comment: scanner "\<lambda>tp. ((), tp_line_comment tp)" sem_line_comment
proof
  fix tp assume tp: "tp_wf tp"
  have "tp_rest tp \<noteq> [] \<and> hd (tp_rest tp) = CHR ''#''
      \<longleftrightarrow> tp_p tp < tp_e tp \<and> tp_mem tp ! tp_p tp = CHR ''#''"
    using tp by (cases "tp_p tp < tp_e tp") (auto simp: tp_rest_Cons tp_rest_Nil_iff tp_end_def)
  then show "tp_rest (snd ((), tp_line_comment tp)) = snd (sem_line_comment (tp_rest tp))"
    using tp by (auto simp: tp_line_comment_def sem_line_comment_def tp_skip_rest)
qed (auto simp: tp_line_comment_def sem_line_comment_def tp_skip_wf tp_skip_ge)


lemma tp_next_line_rest: "tp_wf tp \<Longrightarrow> tp_rest (tp_next_line tp) = tl (dropWhile not_newline (tp_rest tp))"
proof -
  assume tp: "tp_wf tp"
  let ?t = "tp_skip not_newline tp"
  have "tp_rest (tp_next_line tp) = drop 1 (tp_rest ?t)"
    using tp_rest_advance [of ?t 1] by (simp add: tp_next_line_def Let_def)
  with tp show ?thesis by (simp add: tp_skip_rest drop_Suc)
qed

lemma tp_next_line_wf:
  assumes "tp_wf tp" and "tp_p tp \<le> tp_e tp"
  shows "tp_wf (tp_next_line tp)"
proof -
  let ?n = "length (takeWhile not_newline (tp_rest tp))"
  have "?n \<le> tp_e tp - tp_p tp"
    using length_takeWhile_le [of not_newline "tp_rest tp"] length_tp_rest [OF assms(1)] by simp
  then have "tp_p tp + ?n \<le> tp_e tp"
    using assms(2) by linarith
  moreover have "tp_p (tp_next_line tp) = Suc (tp_p tp + ?n)"
    using assms(1) by (simp add: tp_next_line_def Let_def tp_skip_p)
  ultimately show ?thesis
    using assms(1) by (simp add: tp_wf_def)
qed

function sem_lines :: "(char \<Rightarrow> bool) \<Rightarrow> string \<Rightarrow> string" where
  "sem_lines Q s =
     (if s \<noteq> [] \<and> Q (hd s) then sem_lines Q (tl (dropWhile not_newline s)) else s)"
  by pat_completeness auto
termination
proof (relation "measure (\<lambda>(Q, s). length s)")
  fix Q :: "char \<Rightarrow> bool" and s :: string
  assume "s \<noteq> [] \<and> Q (hd s)"
  moreover have "length (dropWhile not_newline s) \<le> length s"
    by (rule length_dropWhile_le)
  ultimately show "((Q, tl (dropWhile not_newline s)), Q, s) \<in> measure (\<lambda>(Q, s). length s)"
    by (cases s) auto
qed simp

declare sem_lines.simps [simp del]

lemma sem_lines_step:
  "s \<noteq> [] \<Longrightarrow> Q (hd s) \<Longrightarrow> sem_lines Q s = sem_lines Q (tl (dropWhile not_newline s))"
  by (subst sem_lines.simps) simp

lemma sem_lines_id: "\<not> (s \<noteq> [] \<and> Q (hd s)) \<Longrightarrow> sem_lines Q s = s"
  by (subst sem_lines.simps) auto

lemma sem_lines_stop [simp]:
  "sem_lines Q [] = []" "\<not> Q c \<Longrightarrow> sem_lines Q (c # s) = c # s"
  by (simp_all add: sem_lines_id)

abbreviation is_hash :: "char \<Rightarrow> bool" where
  "is_hash c \<equiv> c = CHR ''#''"

abbreviation is_hash_or_newline :: "char \<Rightarrow> bool" where
  "is_hash_or_newline c \<equiv> c = CHR ''#'' \<or> c = CHR ''\<newline>''"

lemma tp_rest_hd:
  "tp_wf tp \<Longrightarrow> tp_rest tp \<noteq> [] \<and> Q (hd (tp_rest tp)) \<longleftrightarrow> tp_p tp < tp_e tp \<and> Q (tp_mem tp ! tp_p tp)"
  by (cases "tp_p tp < tp_e tp") (auto simp: tp_rest_Cons tp_rest_Nil_iff tp_end_def)

lemma tp_comments_props:
  "tp_mem (tp_comments tp) = tp_mem tp \<and> tp_e (tp_comments tp) = tp_e tp
   \<and> tp_p tp \<le> tp_p (tp_comments tp)
   \<and> (tp_wf tp \<longrightarrow> tp_wf (tp_comments tp) \<and> tp_rest (tp_comments tp) = sem_lines is_hash (tp_rest tp))"
proof (induction tp rule: tp_comments.induct)
  case (1 tp)
  show ?case
  proof (cases "tp_p tp < tp_e tp \<and> tp_mem tp ! tp_p tp = CHR ''#''")
    case True
    then have "tp_comments tp = tp_comments (tp_next_line tp)"
      by (subst tp_comments.simps) simp
    moreover have "tp_wf tp \<Longrightarrow> sem_lines is_hash (tp_rest tp)
        = sem_lines is_hash (tp_rest (tp_next_line tp))"
      using True tp_rest_hd [of tp is_hash] sem_lines_step [of "tp_rest tp" is_hash]
        tp_next_line_rest [of tp]
      by (simp only: simp_thms)
    ultimately show ?thesis
      using "1.IH" [OF True] True tp_next_line_gt [of tp] tp_next_line_wf [of tp] by auto
  next
    case False
    then have "tp_comments tp = tp"
      by (subst tp_comments.simps) (simp only: if_False)
    moreover have "tp_wf tp \<Longrightarrow> sem_lines is_hash (tp_rest tp) = tp_rest tp"
      using False tp_rest_hd [of tp is_hash] sem_lines_id [of "tp_rest tp" is_hash]
      by (simp only: simp_thms)
    ultimately show ?thesis by simp
  qed
qed

interpretation comments: scanner "\<lambda>tp. ((), tp_comments tp)" "\<lambda>s. ((), sem_lines is_hash s)"
  by unfold_locales (use tp_comments_props in auto)

lemma tp_comments_or_empty_props:
  "tp_mem (tp_comments_or_empty tp) = tp_mem tp \<and> tp_e (tp_comments_or_empty tp) = tp_e tp
   \<and> tp_p tp \<le> tp_p (tp_comments_or_empty tp)
   \<and> (tp_wf tp \<longrightarrow> tp_wf (tp_comments_or_empty tp)
        \<and> tp_rest (tp_comments_or_empty tp) = sem_lines is_hash_or_newline (tp_rest tp))"
proof (induction tp rule: tp_comments_or_empty.induct)
  case (1 tp)
  show ?case
  proof (cases "tp_p tp < tp_e tp \<and> is_hash_or_newline (tp_mem tp ! tp_p tp)")
    case True
    then have "tp_comments_or_empty tp = tp_comments_or_empty (tp_next_line tp)"
      by (subst tp_comments_or_empty.simps) simp
    moreover have "tp_wf tp \<Longrightarrow> sem_lines is_hash_or_newline (tp_rest tp)
        = sem_lines is_hash_or_newline (tp_rest (tp_next_line tp))"
      using True tp_rest_hd [of tp is_hash_or_newline] sem_lines_step [of "tp_rest tp" is_hash_or_newline]
        tp_next_line_rest [of tp]
      by (simp only: simp_thms)
    ultimately show ?thesis
      using "1.IH" [OF True] True tp_next_line_gt [of tp] tp_next_line_wf [of tp] by auto
  next
    case False
    then have "tp_comments_or_empty tp = tp"
      by (subst tp_comments_or_empty.simps) (simp only: if_False)
    moreover have "tp_wf tp \<Longrightarrow> sem_lines is_hash_or_newline (tp_rest tp) = tp_rest tp"
      using False tp_rest_hd [of tp is_hash_or_newline] sem_lines_id [of "tp_rest tp" is_hash_or_newline]
      by (simp only: simp_thms)
    ultimately show ?thesis by simp
  qed
qed

interpretation comments_or_empty: scanner "\<lambda>tp. ((), tp_comments_or_empty tp)"
  "\<lambda>s. ((), sem_lines is_hash_or_newline s)"
  by unfold_locales (use tp_comments_or_empty_props in auto)

text \<open>\<open>tp_match\<close>: a literal without a zero byte matches exactly when it is a prefix of the text.\<close>

lemma c_strncmp_0:
  "CHR 0x00 \<notin> set str \<Longrightarrow> length str \<le> length xs \<Longrightarrow>
     c_strncmp xs (str @ t) (length str) = 0 \<longleftrightarrow> take (length str) xs = str"
proof (induction str arbitrary: xs)
  case Nil
  then show ?case by simp
next
  case (Cons c str)
  then obtain x xs' where xs: "xs = x # xs'" by (cases xs) auto
  have "(of_char x :: int) = of_char c \<longleftrightarrow> x = c" by simp
  with Cons xs show ?case by auto
qed

definition sem_match :: "string \<Rightarrow> string \<Rightarrow> bool \<times> string" where
  "sem_match str s =
     (if s \<noteq> [] \<and> take (length str) s = str then (True, drop (length str) s) else (False, s))"

lemma tp_match_frame:
  "tp_mem (snd (tp_match tp str)) = tp_mem tp" "tp_e (snd (tp_match tp str)) = tp_e tp"
  "tp_p tp \<le> tp_p (snd (tp_match tp str))"
  by (simp_all add: tp_match_def Let_def)

lemma tp_match_wf: "tp_wf tp \<Longrightarrow> tp_wf (snd (tp_match tp str))"
  by (simp add: tp_match_def Let_def tp_wf_def)

lemma tp_match_sem:
  assumes "CHR 0x00 \<notin> set str" and tp: "tp_wf tp"
  shows "fst (tp_match tp str) = fst (sem_match str (tp_rest tp))"
    and "tp_rest (snd (tp_match tp str)) = snd (sem_match str (tp_rest tp))"
proof -
  let ?len = "length str"
  have fits: "tp_p tp < tp_e tp \<and> tp_p tp + ?len \<le> tp_e tp
      \<longleftrightarrow> tp_rest tp \<noteq> [] \<and> ?len \<le> length (tp_rest tp)"
    using tp by (auto simp: length_tp_rest tp_rest_Nil_iff tp_end_def)
  have "c_strncmp (drop (tp_p tp) (tp_mem tp)) (str @ [CHR 0x00]) ?len = 0
      \<longleftrightarrow> take ?len (tp_rest tp) = str" if "tp_p tp < tp_e tp \<and> tp_p tp + ?len \<le> tp_e tp"
  proof -
    have "take ?len (tp_rest tp) = take ?len (drop (tp_p tp) (tp_mem tp))"
      using that by (simp add: tp_rest_def drop_take min_absorb1 le_diff_conv2 add.commute)
    moreover have "?len \<le> length (drop (tp_p tp) (tp_mem tp))"
      using that tp unfolding tp_wf_def length_drop by linarith
    ultimately show ?thesis
      using assms(1) by (simp add: c_strncmp_0)
  qed
  moreover have "take ?len (tp_rest tp) = str \<Longrightarrow> ?len \<le> length (tp_rest tp)"
    by (metis length_take min.cobounded1 min_def)
  ultimately show "fst (tp_match tp str) = fst (sem_match str (tp_rest tp))"
    "tp_rest (snd (tp_match tp str)) = snd (sem_match str (tp_rest tp))"
    using fits tp_rest_advance [of tp ?len]
    by (auto simp: tp_match_def sem_match_def Let_def)
qed


text \<open>\<open>tp_ident\<close> as its callers use it: the characters of the identifier.\<close>

definition tp_text :: "text_parser \<Rightarrow> nat \<times> nat \<Rightarrow> string" where
  "tp_text tp w = take (snd w) (drop (fst w) (tp_mem tp))"

definition sem_ident :: "string \<Rightarrow> string option \<times> string" where
  "sem_ident s =
     (if takeWhile is_ident s = [] then (None, s)
      else (Some (takeWhile is_ident s), dropWhile is_ident s))"

lemma take_length_takeWhile: "take (length (takeWhile P xs)) xs = takeWhile P xs"
  by (metis append_eq_conv_conj takeWhile_dropWhile_id)

interpretation ident: scanner "\<lambda>tp. (map_option (tp_text tp) (fst (tp_ident tp)), snd (tp_ident tp))"
  sem_ident
proof
  fix tp assume tp: "tp_wf tp"
  let ?n = "length (takeWhile is_ident (tp_rest tp))"
  have "?n \<le> tp_e tp - tp_p tp"
    using length_takeWhile_le [of is_ident "tp_rest tp"] by (simp add: length_tp_rest tp)
  then have "take ?n (drop (tp_p tp) (tp_mem tp)) = take ?n (tp_rest tp)"
    by (simp add: tp_rest_def drop_take min_absorb1)
  then have "take ?n (drop (tp_p tp) (tp_mem tp)) = takeWhile is_ident (tp_rest tp)"
    by (simp only: take_length_takeWhile)
  then show "fst (map_option (tp_text tp) (fst (tp_ident tp)), snd (tp_ident tp)) =
      fst (sem_ident (tp_rest tp))"
    using tp by (simp add: tp_ident_def sem_ident_def Let_def tp_skip_p tp_text_def)
  show "tp_rest (snd (map_option (tp_text tp) (fst (tp_ident tp)), snd (tp_ident tp))) =
      snd (sem_ident (tp_rest tp))"
    using tp by (simp add: tp_ident_def sem_ident_def Let_def tp_skip_p tp_skip_rest)
  show "tp_wf (snd (map_option (tp_text tp) (fst (tp_ident tp)), snd (tp_ident tp)))"
    using tp by (simp add: tp_ident_def Let_def tp_skip_wf)
qed (simp_all add: tp_ident_def Let_def tp_skip_ge)

definition hex_pair :: "char \<Rightarrow> char \<Rightarrow> u8" where
  "hex_pair a b =
     push_bit 4 (word_of_int (hex_digit a) AND 0xF) OR (word_of_int (hex_digit b) AND 0xF)"

fun sem_hex_byte :: "string \<Rightarrow> u8 option \<times> string" where
  "sem_hex_byte (a # b # s) =
     (if hex_digit a \<noteq> -1 \<and> hex_digit b \<noteq> -1 then (Some (hex_pair a b), s) else (None, a # b # s))"
| "sem_hex_byte s = (None, s)"

lemma tp_rest_two:
  assumes "tp_wf tp" and "tp_p tp + 2 \<le> tp_e tp"
  shows "tp_rest tp = tp_mem tp ! tp_p tp # tp_mem tp ! (tp_p tp + 1) # drop 2 (tp_rest tp)"
proof -
  have "2 \<le> length (tp_rest tp)"
    using assms by (simp add: length_tp_rest)
  then obtain a b s where rest: "tp_rest tp = a # b # s"
    by (cases "tp_rest tp"; cases "tl (tp_rest tp)") auto
  moreover have "tp_rest tp ! 0 = tp_mem tp ! tp_p tp" "tp_rest tp ! 1 = tp_mem tp ! (tp_p tp + 1)"
    using assms tp_rest_nth [of tp 0] tp_rest_nth [of tp 1] by simp_all
  ultimately show ?thesis by simp
qed

interpretation hex_byte: scanner tp_hex_byte sem_hex_byte
proof
  fix tp assume tp: "tp_wf tp"
  have "fst (tp_hex_byte tp) = fst (sem_hex_byte (tp_rest tp))
      \<and> tp_rest (snd (tp_hex_byte tp)) = snd (sem_hex_byte (tp_rest tp))"
  proof (cases "tp_p tp + 2 \<le> tp_e tp")
    case True
    let ?a = "tp_mem tp ! tp_p tp" and ?b = "tp_mem tp ! (tp_p tp + 1)"
    have rest: "tp_rest tp = ?a # ?b # drop 2 (tp_rest tp)"
      using tp True by (rule tp_rest_two)
    then have "sem_hex_byte (tp_rest tp) =
        (if hex_digit ?a \<noteq> -1 \<and> hex_digit ?b \<noteq> -1 then (Some (hex_pair ?a ?b), drop 2 (tp_rest tp))
         else (None, tp_rest tp))"
      by (metis sem_hex_byte.simps(1))
    with True tp_rest_advance [of tp 2] show ?thesis
      by (simp add: tp_hex_byte_def Let_def hex_pair_def)
  next
    case False
    then have "length (tp_rest tp) < 2"
      using tp by (simp add: length_tp_rest)
    then have "sem_hex_byte (tp_rest tp) = (None, tp_rest tp)"
      by (cases "tp_rest tp" rule: sem_hex_byte.cases) auto
    with False show ?thesis by (simp add: tp_hex_byte_def)
  qed
  then show "fst (tp_hex_byte tp) = fst (sem_hex_byte (tp_rest tp))"
    and "tp_rest (snd (tp_hex_byte tp)) = snd (sem_hex_byte (tp_rest tp))"
    by simp_all
  show "tp_wf (snd (tp_hex_byte tp))"
    using tp by (simp add: tp_hex_byte_def Let_def tp_wf_def)
qed (simp_all add: tp_hex_byte_def Let_def)

fun sem_hex_bytes :: "nat \<Rightarrow> u64 \<Rightarrow> string \<Rightarrow> (u64 \<times> string) option" where
  "sem_hex_bytes 0 v s = Some (v, s)"
| "sem_hex_bytes (Suc n) v s =
     (case sem_hex_byte s of
        (None, _) \<Rightarrow> None
      | (Some byte, s') \<Rightarrow> sem_hex_bytes n (push_bit 8 v OR ucast byte) s')"

lemma tp_hex_bytes_frame:
  "tp_hex_bytes n v tp = Some (v', tp') \<Longrightarrow>
     tp_mem tp' = tp_mem tp \<and> tp_e tp' = tp_e tp \<and> tp_p tp \<le> tp_p tp' \<and> (tp_wf tp \<longrightarrow> tp_wf tp')"
proof (induction n v tp rule: tp_hex_bytes.induct)
  case (1 v tp)
  then show ?case by simp
next
  case (2 n v tp)
  from "2.prems" obtain byte t where t: "tp_hex_byte tp = (Some byte, t)"
    and rest: "tp_hex_bytes n (push_bit 8 v OR ucast byte) t = Some (v', tp')"
    by (auto split: prod.splits option.splits)
  show ?case
    using "2.IH" [OF t [symmetric] refl rest] hex_byte.mem [of tp] hex_byte.fixed_end [of tp]
      hex_byte.forward [of tp] hex_byte.wf [of tp] t by auto
qed

lemma tp_hex_bytes_sem:
  "tp_wf tp \<Longrightarrow>
     map_option (\<lambda>(v, t). (v, tp_rest t)) (tp_hex_bytes n v tp) = sem_hex_bytes n v (tp_rest tp)"
proof (induction n arbitrary: v tp)
  case 0
  then show ?case by simp
next
  case (Suc n)
  obtain b t where t: "tp_hex_byte tp = (b, t)" by fastforce
  then have "sem_hex_byte (tp_rest tp) = (b, tp_rest t)" and "tp_wf t"
    using hex_byte.result [OF Suc.prems] hex_byte.rest [OF Suc.prems] hex_byte.wf [OF Suc.prems]
    by (simp_all add: prod_eq_iff)
  with t Suc.IH show ?case by (simp split: option.split)
qed

definition sem_hex_u64 :: "string \<Rightarrow> u64 option \<times> string" where
  "sem_hex_u64 s =
     (if take 2 s = ''0x''
      then (case sem_hex_bytes 8 0 (drop 2 s) of
              None \<Rightarrow> (None, s)
            | Some (v, s') \<Rightarrow> if s' \<noteq> [] \<and> hex_digit (hd s') \<noteq> -1 then (None, s) else (Some v, s'))
      else (None, s))"


lemma tp_hex_u64_sem:
  assumes tp: "tp_wf tp"
  shows "fst (tp_hex_u64 tp) = fst (sem_hex_u64 (tp_rest tp))
    \<and> tp_rest (snd (tp_hex_u64 tp)) = snd (sem_hex_u64 (tp_rest tp)) \<and> tp_wf (snd (tp_hex_u64 tp))"
proof -
  obtain ok t where m: "tp_match tp ''0x'' = (ok, t)" by fastforce
  have "sem_match ''0x'' (tp_rest tp) = (ok, tp_rest t)"
    using tp_match_sem [OF _ tp, of "''0x''"] m by (simp add: prod_eq_iff)
  then have ok: "ok \<longleftrightarrow> take 2 (tp_rest tp) = ''0x''" and t: "ok \<Longrightarrow> tp_rest t = drop 2 (tp_rest tp)"
    by (auto simp: sem_match_def numeral_2_eq_2 split: if_splits)
  have wf: "tp_wf t"
    using tp_match_wf [OF tp, of "''0x''"] m by simp
  show ?thesis
  proof (cases ok)
    case False
    with m ok tp show ?thesis by (auto simp: tp_hex_u64_def sem_hex_u64_def)
  next
    case True
    show ?thesis
    proof (cases "tp_hex_bytes 8 0 t")
      case None
      then have "sem_hex_bytes 8 0 (tp_rest t) = None"
        using tp_hex_bytes_sem [OF wf, of 8 0] by simp
      with None True m ok t tp show ?thesis by (simp add: tp_hex_u64_def sem_hex_u64_def)
    next
      case (Some vt)
      then obtain v t2 where t2: "tp_hex_bytes 8 0 t = Some (v, t2)" by (cases vt) auto
      then have sem: "sem_hex_bytes 8 0 (tp_rest t) = Some (v, tp_rest t2)"
        using tp_hex_bytes_sem [OF wf, of 8 0] by simp
      have wf2: "tp_wf t2"
        using tp_hex_bytes_frame [OF t2] wf by simp
      show ?thesis
        using tp_rest_hd [OF wf2, of "\<lambda>c. hex_digit c \<noteq> -1"] True m ok t tp t2 sem wf2
        by (auto simp: tp_hex_u64_def sem_hex_u64_def)
    qed
  qed
qed

lemma tp_hex_u64_frame:
  "tp_mem (snd (tp_hex_u64 tp)) = tp_mem tp \<and> tp_e (snd (tp_hex_u64 tp)) = tp_e tp
   \<and> tp_p tp \<le> tp_p (snd (tp_hex_u64 tp))"
proof -
  obtain ok t where m: "tp_match tp ''0x'' = (ok, t)" by fastforce
  then have t: "tp_mem t = tp_mem tp" "tp_e t = tp_e tp" "tp_p tp \<le> tp_p t"
    using tp_match_frame [of tp "''0x''"] by simp_all
  show ?thesis
  proof (cases "ok \<and> tp_hex_bytes 8 0 t \<noteq> None")
    case True
    then obtain v t' where "ok" and t': "tp_hex_bytes 8 0 t = Some (v, t')" by auto
    with m t tp_hex_bytes_frame [OF t'] show ?thesis by (auto simp: tp_hex_u64_def)
  next
    case False
    with m show ?thesis by (cases ok; cases "tp_hex_bytes 8 0 t") (auto simp: tp_hex_u64_def)
  qed
qed

interpretation hex_u64: scanner tp_hex_u64 sem_hex_u64
  by unfold_locales (use tp_hex_u64_sem tp_hex_u64_frame in auto)


text \<open>\<open>tp_match\<close> meets the contract for every literal the code passes.\<close>

lemma tp_match_scanner: "CHR 0x00 \<notin> set str \<Longrightarrow> scanner (\<lambda>tp. tp_match tp str) (sem_match str)"
  by unfold_locales (simp_all add: tp_match_sem tp_match_wf tp_match_frame)

lemma tp_match_run:
  "tp_match tp str = (ok, t) \<Longrightarrow> CHR 0x00 \<notin> set str \<Longrightarrow> tp_step (sem_match str) tp ok t"
  using scanner.run [OF tp_match_scanner] by blast

lemma tp_match_True: "tp_match tp str = (True, t) \<Longrightarrow> tp_p t \<le> tp_e t"
  by (auto simp: tp_match_def Let_def split: if_splits)

lemma tp_step_seq:
  "tp_step sem tp r t \<Longrightarrow> tp_step sem' t r' t' \<Longrightarrow>
     (\<And>s u v. sem s = (r, u) \<Longrightarrow> sem' u = (r', v) \<Longrightarrow> sem'' s = (r'', v)) \<Longrightarrow>
     tp_step sem'' tp r'' t'"
  unfolding tp_step_def by (blast intro: tp_leads_trans)

lemma tp_step_weaken:
  "tp_step sem tp r t \<Longrightarrow> (\<And>s u. sem s = (r, u) \<Longrightarrow> sem' s = (r', u)) \<Longrightarrow> tp_step sem' tp r' t"
  by (simp add: tp_step_def)

end
