(* ===== verification/Symbols_File.thy ===== *)
theory Symbols_File
  imports Text_Parser
begin

text \<open>
  The kernelcache symbols file parser of \<^verbatim>\<open>kext_loader.c\<close>: the header with the kernelcache
  UUID and the \<open>DEVICE\<close> lines, and one symbol line. Both are scanners over the file; the
  functions \<open>sem_header\<close> and \<open>sem_symbol\<close> on plain text are what they compute.
\<close>

section \<open>The header\<close>

datatype header_error = Expected_uuid | Bad_uuid | Bad_directive

text \<open>
  The loop over the sixteen UUID bytes, from index \<open>i\<close>, with \<open>n\<close> bytes to go: after the bytes
  3, 5, 7, 9 a dash follows and after the last a newline.
\<close>

definition uuid_sep :: "nat \<Rightarrow> bool" where
  "uuid_sep i \<longleftrightarrow> i = 3 \<or> i = 5 \<or> i = 7 \<or> i = 9 \<or> i = 15"

fun parse_uuid :: "nat \<Rightarrow> nat \<Rightarrow> bytes \<Rightarrow> text_parser \<Rightarrow> bytes option \<times> text_parser" where
  "parse_uuid 0 i acc tp = (Some acc, tp)"
| "parse_uuid (Suc n) i acc tp =
     (case tp_hex_byte tp of
        (None, tp') \<Rightarrow> (None, tp')
      | (Some b, tp') \<Rightarrow>
          if uuid_sep i
          then (case tp_match tp' (if i = 15 then ''\<newline>'' else ''-'') of
                  (True, tp'') \<Rightarrow> parse_uuid n (Suc i) (acc @ [b]) tp''
                | (False, tp'') \<Rightarrow> (None, tp''))
          else parse_uuid n (Suc i) (acc @ [b]) tp')"

text \<open>The \<open>DEVICE\<close> and comment lines, up to the blank line that ends the header.\<close>

function parse_directives :: "text_parser \<Rightarrow> bool \<times> text_parser" where
  "parse_directives tp =
     (let tp1 = tp_comments tp in
      case tp_match tp1 ''DEVICE:'' of
        (True, tp2) \<Rightarrow> parse_directives (tp_next_line tp2)
      | (False, tp2) \<Rightarrow> tp_match tp2 ''\<newline>'')"
  by pat_completeness auto
termination
proof (relation "measure (\<lambda>tp. tp_e tp - tp_p tp)", goal_cases)
  case (2 tp tp1 ok tp2)
  then have "tp_p tp1 < tp_e tp1" "tp_p tp1 < tp_p tp2" "tp_e tp2 = tp_e tp1" "tp_e tp1 = tp_e tp"
    "tp_p tp \<le> tp_p tp1"
    using comments.forward [of tp] comments.fixed_end [of tp]
    by (auto simp: tp_match_def Let_def split: if_splits)
  with tp_next_line_gt [of tp2] show ?case by simp
qed simp

declare parse_directives.simps [simp del]

definition parse_kernelcache_symbols_header ::
  "text_parser \<Rightarrow> (header_error + bytes) \<times> text_parser" where
  "parse_kernelcache_symbols_header tp =
     (case tp_match (tp_comments tp) ''KERNELCACHE UUID:'' of
        (False, tp1) \<Rightarrow> (Inl Expected_uuid, tp1)
      | (True, tp1) \<Rightarrow>
          (case parse_uuid 16 0 [] (snd (tp_space tp1)) of
             (None, tp2) \<Rightarrow> (Inl Bad_uuid, tp2)
           | (Some uuid, tp2) \<Rightarrow>
               (case parse_directives tp2 of
                  (True, tp3) \<Rightarrow> (Inr uuid, tp3)
                | (False, tp3) \<Rightarrow> (Inl Bad_directive, tp3))))"

section \<open>A symbol\<close>

datatype symbol_error = Expected_symbol | Expected_space | Expected_address | Expected_eol

text \<open>\<open>strndup\<close>: a copy of at most \<open>n\<close> bytes, ended by the first zero.\<close>

definition c_strndup :: "string \<Rightarrow> nat \<Rightarrow> string" where
  "c_strndup s n = takeWhile (\<lambda>c. c \<noteq> CHR 0x00) (take n s)"

text \<open>After the address: spaces, a comment, then a newline or the end of the file.\<close>

definition parse_eol :: "text_parser \<Rightarrow> bool \<times> text_parser" where
  "parse_eol tp3 =
     (let tp4 = tp_line_comment (snd (tp_space tp3)) in
      if tp_end tp4 then (True, tp4) else tp_match tp4 ''\<newline>'')"

text \<open>
  \<open>Inr None\<close> is the end of the file: success with \<open>*symbol\<close> still null. The length the code
  also returns is the length of the identifier, that is, of the returned string.
\<close>

definition parse_kernelcache_symbols_symbol ::
  "text_parser \<Rightarrow> (symbol_error + (string \<times> u64) option) \<times> text_parser" where
  "parse_kernelcache_symbols_symbol tp =
     (let tp0 = tp_comments_or_empty tp in
      if tp_end tp0 then (Inr None, tp0)
      else
        (case tp_ident tp0 of
           (None, tp1) \<Rightarrow> (Inl Expected_symbol, tp1)
         | (Some (ident, len), tp1) \<Rightarrow>
             (case tp_space tp1 of
                (False, tp2) \<Rightarrow> (Inl Expected_space, tp2)
              | (True, tp2) \<Rightarrow>
                  (case tp_hex_u64 tp2 of
                     (None, tp3) \<Rightarrow> (Inl Expected_address, tp3)
                   | (Some address, tp3) \<Rightarrow>
                       (case parse_eol tp3 of
                          (False, tp5) \<Rightarrow> (Inl Expected_eol, tp5)
                        | (True, tp5) \<Rightarrow>
                            (Inr (Some (c_strndup (drop ident (tp_mem tp5)) len, address)), tp5))))))"

section \<open>What the parsers compute\<close>

fun sem_uuid :: "nat \<Rightarrow> nat \<Rightarrow> bytes \<Rightarrow> string \<Rightarrow> bytes option \<times> string" where
  "sem_uuid 0 i acc s = (Some acc, s)"
| "sem_uuid (Suc n) i acc s =
     (case sem_hex_byte s of
        (None, s') \<Rightarrow> (None, s')
      | (Some b, s') \<Rightarrow>
          if uuid_sep i
          then (case sem_match (if i = 15 then ''\<newline>'' else ''-'') s' of
                  (True, s'') \<Rightarrow> sem_uuid n (Suc i) (acc @ [b]) s''
                | (False, s'') \<Rightarrow> (None, s''))
          else sem_uuid n (Suc i) (acc @ [b]) s')"

lemma parse_uuid_run: "parse_uuid n i acc tp = (r, t) \<Longrightarrow> tp_step (sem_uuid n i acc) tp r t"
proof (induction n arbitrary: i acc tp)
  case 0
  then show ?case by (simp add: tp_step_def)
next
  case (Suc n)
  obtain b tp1 where b: "tp_hex_byte tp = (b, tp1)" by fastforce
  note s1 = hex_byte.run [OF b]
  obtain ok tp2 where m: "tp_match tp1 (if i = 15 then ''\<newline>'' else ''-'') = (ok, tp2)" by fastforce
  then have s2: "tp_step (sem_match (if i = 15 then ''\<newline>'' else ''-'')) tp1 ok tp2"
    by (rule tp_match_run) simp
  show ?case
  proof (cases b)
    case None
    with Suc.prems b s1 show ?thesis by (auto simp: tp_step_def)
  next
    case (Some byte)
    show ?thesis
    proof (cases "uuid_sep i")
      case True
      show ?thesis
      proof (cases ok)
        case ok: True
        then have "parse_uuid n (Suc i) (acc @ [byte]) tp2 = (r, t)"
          using Suc.prems b m Some True by simp
        from Suc.IH [OF this] s1 s2 Some True ok m show ?thesis
          by (auto simp: tp_step_def elim: tp_leads_trans)
      next
        case False
        with Suc.prems b m Some True s1 s2 show ?thesis
          by (auto simp: tp_step_def elim: tp_leads_trans)
      qed
    next
      case False
      then have "parse_uuid n (Suc i) (acc @ [byte]) tp1 = (r, t)"
        using Suc.prems b Some by simp
      from Suc.IH [OF this] s1 Some False show ?thesis
        by (auto simp: tp_step_def elim: tp_leads_trans)
    qed
  qed
qed

lemma length_sem_lines: "length (sem_lines Q s) \<le> length s"
proof (induction Q s rule: sem_lines.induct)
  case (1 Q s)
  have "length (tl (dropWhile not_newline s)) \<le> length s"
    using length_dropWhile_le [of not_newline s] by simp
  with 1 show ?case by (subst sem_lines.simps) auto
qed

function sem_directives :: "string \<Rightarrow> bool \<times> string" where
  "sem_directives s =
     (case sem_match ''DEVICE:'' (sem_lines is_hash s) of
        (True, s') \<Rightarrow> sem_directives (tl (dropWhile not_newline s'))
      | (False, s') \<Rightarrow> sem_match ''\<newline>'' s')"
  by pat_completeness auto
termination
proof (relation "measure length", goal_cases)
  case (2 s ok s')
  have "length (sem_lines is_hash s) \<le> length s"
    by (rule length_sem_lines)
  moreover have "length s' < length (sem_lines is_hash s)"
    using 2 by (auto simp: sem_match_def split: if_splits)
  moreover have "length (tl (dropWhile not_newline s')) \<le> length s'"
    using length_dropWhile_le [of not_newline s'] by simp
  ultimately show ?case by simp
qed simp

declare sem_directives.simps [simp del]

lemma parse_directives_run: "parse_directives tp = (r, t) \<Longrightarrow> tp_step sem_directives tp r t"
proof (induction tp rule: parse_directives.induct)
  case (1 tp)
  let ?tp1 = "tp_comments tp"
  have s1: "tp_step (\<lambda>s. ((), sem_lines is_hash s)) tp () ?tp1"
    by (rule comments.run) simp
  obtain ok tp2 where m: "tp_match ?tp1 ''DEVICE:'' = (ok, tp2)" by fastforce
  then have s2: "tp_step (sem_match ''DEVICE:'') ?tp1 ok tp2"
    by (rule tp_match_run) simp
  show ?case
  proof (cases ok)
    case True
    then have "parse_directives (tp_next_line tp2) = (r, t)"
      using "1.prems" m by (simp add: parse_directives.simps [of tp] Let_def)
    then have s4: "tp_step sem_directives (tp_next_line tp2) r t"
      using "1.IH" m True by metis
    have lead: "tp_leads tp2 (tp_next_line tp2)"
      using tp_next_line_gt [of tp2] by (simp add: tp_leads_def)
    have "tp_p tp2 \<le> tp_e tp2"
      using m True tp_match_True [of ?tp1 "''DEVICE:''" tp2] by simp
    then have s3: "tp_wf tp2 \<Longrightarrow> tp_wf (tp_next_line tp2)"
      "tp_wf tp2 \<Longrightarrow> tp_rest (tp_next_line tp2) = tl (dropWhile not_newline (tp_rest tp2))"
      by (simp_all add: tp_next_line_wf tp_next_line_rest)
    have "sem_directives (tp_rest tp) = (r, tp_rest t)" if "tp_wf tp"
      using that s1 s2 s3 s4 True by (subst sem_directives.simps) (auto simp: tp_step_def)
    moreover have "tp_wf tp \<Longrightarrow> tp_wf t"
      using s1 s2 s3 s4 by (auto simp: tp_step_def)
    moreover have "tp_leads tp t"
      using s1 s2 s4 lead by (simp add: tp_step_def tp_leads_def)
    ultimately show ?thesis by (simp add: tp_step_def)
  next
    case False
    then have "tp_match tp2 ''\<newline>'' = (r, t)"
      using "1.prems" m by (simp add: parse_directives.simps [of tp] Let_def)
    then have s3: "tp_step (sem_match ''\<newline>'') tp2 r t"
      by (rule tp_match_run) simp
    have "sem_directives (tp_rest tp) = (r, tp_rest t)" if "tp_wf tp"
      using that s1 s2 s3 False by (subst sem_directives.simps) (auto simp: tp_step_def)
    moreover have "tp_wf tp \<Longrightarrow> tp_wf t" and "tp_leads tp t"
      using s1 s2 s3 by (auto simp: tp_step_def elim: tp_leads_trans)
    ultimately show ?thesis by (simp add: tp_step_def)
  qed
qed


definition sem_header :: "string \<Rightarrow> (header_error + bytes) \<times> string" where
  "sem_header s =
     (case sem_match ''KERNELCACHE UUID:'' (sem_lines is_hash s) of
        (False, s1) \<Rightarrow> (Inl Expected_uuid, s1)
      | (True, s1) \<Rightarrow>
          (case sem_uuid 16 0 [] (snd (sem_space s1)) of
             (None, s2) \<Rightarrow> (Inl Bad_uuid, s2)
           | (Some uuid, s2) \<Rightarrow>
               (case sem_directives s2 of
                  (True, s3) \<Rightarrow> (Inr uuid, s3)
                | (False, s3) \<Rightarrow> (Inl Bad_directive, s3))))"

interpretation header: scanner parse_kernelcache_symbols_header sem_header
proof (rule scannerI)
  fix tp r t
  assume run: "parse_kernelcache_symbols_header tp = (r, t)"
  obtain ok tp1 where m: "tp_match (tp_comments tp) ''KERNELCACHE UUID:'' = (ok, tp1)" by fastforce
  have s1: "tp_step (\<lambda>s. ((), sem_lines is_hash s)) tp () (tp_comments tp)"
    by (rule comments.run) simp
  have "tp_step (sem_match ''KERNELCACHE UUID:'') (tp_comments tp) ok tp1"
    by (rule tp_match_run [OF m]) simp
  then have s2: "tp_step (\<lambda>s. sem_match ''KERNELCACHE UUID:'' (sem_lines is_hash s)) tp ok tp1"
    by (rule tp_step_seq [OF s1]) simp
  show "tp_step sem_header tp r t"
  proof (cases ok)
    case False
    with run m s2 show ?thesis
      by (auto simp: parse_kernelcache_symbols_header_def sem_header_def elim!: tp_step_weaken)
  next
    case True
    obtain sk tp2 where sp: "tp_space tp1 = (sk, tp2)" by fastforce
    obtain u tp3 where pu: "parse_uuid 16 0 [] tp2 = (u, tp3)" by fastforce
    have "tp_step (\<lambda>s. sem_uuid 16 0 [] (snd (sem_space s))) tp1 u tp3"
      by (rule tp_step_seq [OF space.run [OF sp] parse_uuid_run [OF pu]]) simp
    then have s3: "tp_step (\<lambda>s. sem_uuid 16 0 [] (snd (sem_space
        (snd (sem_match ''KERNELCACHE UUID:'' (sem_lines is_hash s)))))) tp u tp3"
      by (rule tp_step_seq [OF s2]) simp
    show ?thesis
    proof (cases u)
      case None
      with run m sp pu True s2 s3 show ?thesis
        by (auto simp: parse_kernelcache_symbols_header_def sem_header_def tp_step_def)
    next
      case (Some uuid)
      obtain ok' tp4 where d: "parse_directives tp3 = (ok', tp4)" by fastforce
      from run m sp pu True Some d s2 s3 parse_directives_run [OF d] show ?thesis
        by (auto simp: parse_kernelcache_symbols_header_def sem_header_def tp_step_def
            elim: tp_leads_trans split: bool.splits)
    qed
  qed
qed

definition sem_eol :: "string \<Rightarrow> bool \<times> string" where
  "sem_eol s = (if s = [] then (True, []) else sem_match ''\<newline>'' s)"

definition sem_symbol :: "string \<Rightarrow> (symbol_error + (string \<times> u64) option) \<times> string" where
  "sem_symbol s =
     (let s0 = sem_lines is_hash_or_newline s in
      if s0 = [] then (Inr None, s0)
      else
        (case sem_ident s0 of
           (None, s1) \<Rightarrow> (Inl Expected_symbol, s1)
         | (Some name, s1) \<Rightarrow>
             (case sem_space s1 of
                (False, s2) \<Rightarrow> (Inl Expected_space, s2)
              | (True, s2) \<Rightarrow>
                  (case sem_hex_u64 s2 of
                     (None, s3) \<Rightarrow> (Inl Expected_address, s3)
                   | (Some address, s3) \<Rightarrow>
                       (case sem_eol (snd (sem_line_comment (snd (sem_space s3)))) of
                          (False, s5) \<Rightarrow> (Inl Expected_eol, s5)
                        | (True, s5) \<Rightarrow> (Inr (Some (name, address)), s5))))))"


lemma is_ident_not_zero: "is_ident c \<Longrightarrow> c \<noteq> CHR 0x00"
  by (auto simp: is_ident_def)

lemma c_strndup_ident: "\<forall>c \<in> set (take n s). is_ident c \<Longrightarrow> c_strndup s n = take n s"
  unfolding c_strndup_def by (rule takeWhile_eq_all_conv [THEN iffD2]) (blast dest: is_ident_not_zero)

lemma parse_eol_run:
  "parse_eol tp = (ok, t) \<Longrightarrow>
     tp_step (\<lambda>s. sem_eol (snd (sem_line_comment (snd (sem_space s))))) tp ok t"
proof -
  assume run: "parse_eol tp = (ok, t)"
  obtain sk tp1 where sp: "tp_space tp = (sk, tp1)" by fastforce
  have "tp_step sem_line_comment tp1 () (tp_line_comment tp1)"
    by (rule line_comment.run) simp
  then have s1: "tp_step (\<lambda>s. sem_line_comment (snd (sem_space s))) tp () (tp_line_comment tp1)"
    by (rule tp_step_seq [OF space.run [OF sp]]) simp
  have "tp_step sem_eol (tp_line_comment tp1) ok t"
  proof (cases "tp_end (tp_line_comment tp1)")
    case True
    with run sp show ?thesis
      by (auto simp: parse_eol_def tp_step_def sem_eol_def tp_rest_Nil_iff [symmetric])
  next
    case False
    then have "tp_match (tp_line_comment tp1) ''\<newline>'' = (ok, t)"
      using run sp by (simp add: parse_eol_def)
    then have "tp_step (sem_match ''\<newline>'') (tp_line_comment tp1) ok t"
      by (rule tp_match_run) simp
    with False show ?thesis
      by (auto simp: tp_step_def sem_eol_def tp_rest_Nil_iff)
  qed
  then show ?thesis by (rule tp_step_seq [OF s1]) simp
qed

text \<open>The part of a symbol line after the leading comments, as text.\<close>

definition sem_symbol_line :: "string \<Rightarrow> (symbol_error + (string \<times> u64) option) \<times> string" where
  "sem_symbol_line s0 =
     (case sem_ident s0 of
        (None, s1) \<Rightarrow> (Inl Expected_symbol, s1)
      | (Some name, s1) \<Rightarrow>
          (case sem_space s1 of
             (False, s2) \<Rightarrow> (Inl Expected_space, s2)
           | (True, s2) \<Rightarrow>
               (case sem_hex_u64 s2 of
                  (None, s3) \<Rightarrow> (Inl Expected_address, s3)
                | (Some address, s3) \<Rightarrow>
                    (case sem_eol (snd (sem_line_comment (snd (sem_space s3)))) of
                       (False, s5) \<Rightarrow> (Inl Expected_eol, s5)
                     | (True, s5) \<Rightarrow> (Inr (Some (name, address)), s5)))))"

lemma parse_symbol_line_run:
  assumes id: "tp_ident tp0 = (w, tp1)"
    and run: "(case (w, tp1) of
           (None, tp1) \<Rightarrow> (Inl Expected_symbol, tp1)
         | (Some (ident, len), tp1) \<Rightarrow>
             (case tp_space tp1 of
                (False, tp2) \<Rightarrow> (Inl Expected_space, tp2)
              | (True, tp2) \<Rightarrow>
                  (case tp_hex_u64 tp2 of
                     (None, tp3) \<Rightarrow> (Inl Expected_address, tp3)
                   | (Some address, tp3) \<Rightarrow>
                       (case parse_eol tp3 of
                          (False, tp5) \<Rightarrow> (Inl Expected_eol, tp5)
                        | (True, tp5) \<Rightarrow>
                            (Inr (Some (c_strndup (drop ident (tp_mem tp5)) len, address)), tp5)))))
        = (r, t)"
  shows "tp_step sem_symbol_line tp0 r t"
proof -
  have s1: "tp_step sem_ident tp0 (map_option (tp_text tp0) w) tp1"
    using ident.run [of tp0] id by simp
  show ?thesis
  proof (cases w)
    case None
    with run s1 show ?thesis by (auto simp: tp_step_def sem_symbol_line_def)
  next
    case (Some il)
    then obtain i n where w: "w = Some (i, n)" by (cases il) auto
    obtain ok2 tp2 where sp: "tp_space tp1 = (ok2, tp2)" by fastforce
    obtain a tp3 where hx: "tp_hex_u64 tp2 = (a, tp3)" by fastforce
    obtain ok5 tp5 where el: "parse_eol tp3 = (ok5, tp5)" by fastforce
    note s2 = space.run [OF sp] and s3 = hex_u64.run [OF hx] and s5 = parse_eol_run [OF el]
    have "c_strndup (drop i (tp_mem tp5)) n = tp_text tp0 (i, n)"
      if "tp_wf tp0" "tp_mem tp5 = tp_mem tp0"
    proof -
      have "sem_ident (tp_rest tp0) = (Some (tp_text tp0 (i, n)), tp_rest tp1)"
        using s1 w that by (simp add: tp_step_def)
      then have "\<forall>c \<in> set (tp_text tp0 (i, n)). is_ident c"
        by (metis sem_ident_def set_takeWhileD fst_conv option.inject option.distinct(1))
      with that show ?thesis by (simp add: c_strndup_ident tp_text_def)
    qed
    with s1 s2 s3 s5 run w sp hx el show ?thesis
      by (auto simp: tp_step_def tp_leads_def sem_symbol_line_def
          split: option.splits bool.splits)
  qed
qed

interpretation symbol: scanner parse_kernelcache_symbols_symbol sem_symbol
proof (rule scannerI)
  fix tp r t
  assume run: "parse_kernelcache_symbols_symbol tp = (r, t)"
  let ?tp0 = "tp_comments_or_empty tp"
  have s0: "tp_step (\<lambda>s. ((), sem_lines is_hash_or_newline s)) tp () ?tp0"
    by (rule comments_or_empty.run) simp
  show "tp_step sem_symbol tp r t"
  proof (cases "tp_end ?tp0")
    case True
    with run s0 show ?thesis
      by (auto simp: parse_kernelcache_symbols_symbol_def sem_symbol_def tp_step_def Let_def tp_rest_Nil_iff)
  next
    case False
    obtain w tp1 where id: "tp_ident ?tp0 = (w, tp1)" by fastforce
    have "tp_step sem_symbol_line ?tp0 r t"
      by (rule parse_symbol_line_run [OF id])
        (use run False id in \<open>simp add: parse_kernelcache_symbols_symbol_def Let_def\<close>)
    with s0 False show ?thesis
      by (auto simp: sem_symbol_def sem_symbol_line_def tp_step_def tp_leads_def Let_def
          tp_rest_Nil_iff)
  qed
qed


text \<open>A parsed symbol takes up text, so a loop over the symbols of a file ends.\<close>

lemma tp_ident_advances: "tp_ident tp = (Some w, t) \<Longrightarrow> tp_p tp < tp_p t"
  using tp_skip_ge [of tp is_ident] by (auto simp: tp_ident_def Let_def split: if_splits)

lemma parse_symbol_advances:
  assumes "parse_kernelcache_symbols_symbol tp = (Inr (Some x), t)"
  shows "tp_p tp < tp_e tp" and "tp_p tp < tp_p t" and "tp_e t = tp_e tp"
proof -
  let ?tp0 = "tp_comments_or_empty tp"
  have 0: "tp_e ?tp0 = tp_e tp" "tp_p tp \<le> tp_p ?tp0"
    using comments_or_empty.fixed_end [of tp] comments_or_empty.forward [of tp] by simp_all
  obtain w tp1 where id: "tp_ident ?tp0 = (w, tp1)" by fastforce
  obtain ok tp2 where sp: "tp_space tp1 = (ok, tp2)" by fastforce
  obtain a tp3 where hx: "tp_hex_u64 tp2 = (a, tp3)" by fastforce
  obtain ok' tp5 where el: "parse_eol tp3 = (ok', tp5)" by fastforce
  have run: "\<not> tp_end ?tp0" "w \<noteq> None" "t = tp5"
    using assms id sp hx el
    by (auto simp: parse_kernelcache_symbols_symbol_def Let_def
        split: if_splits option.splits bool.splits)
  have "tp_leads tp1 tp5"
    using space.run [OF sp] hex_u64.run [OF hx] parse_eol_run [OF el]
    by (simp add: tp_step_def tp_leads_def)
  moreover have "tp_p ?tp0 < tp_p tp1"
    using run(2) id tp_ident_advances [of ?tp0] by auto
  ultimately have "tp_p ?tp0 < tp_p tp5" by (simp add: tp_leads_def)
  with 0 run show "tp_p tp < tp_e tp" "tp_p tp < tp_p t" by (simp_all add: tp_end_def)
  show "tp_e t = tp_e tp"
    using symbol.fixed_end [of tp] assms by simp
qed


lemma sem_symbol_shrinks:
  assumes "sem_symbol s = (Inr (Some x), s')"
  shows "length s' < length s"
proof -
  define tp where "tp = \<lparr>tp_mem = s, tp_p = 0, tp_e = length s\<rparr>"
  have tp: "tp_wf tp" "tp_rest tp = s"
    by (simp_all add: tp_def tp_wf_def tp_rest_def)
  obtain r t where run: "parse_kernelcache_symbols_symbol tp = (r, t)" by fastforce
  have "tp_step sem_symbol tp r t" by (rule symbol.run [OF run])
  with tp assms have "r = Inr (Some x)" "tp_rest t = s'" "tp_wf t"
    by (auto simp: tp_step_def)
  moreover from this run have "tp_p tp < tp_e tp" "tp_p tp < tp_p t" "tp_e t = tp_e tp"
    using parse_symbol_advances [of tp x t] by auto
  ultimately show ?thesis
    using length_tp_rest [of t] by (auto simp: tp_def)
qed

lemma sem_symbol_name:
  assumes "sem_symbol s = (Inr (Some (name, a)), s')"
  shows "\<forall>c \<in> set name. is_ident c" and "name \<noteq> []" and "length name \<le> length s"
proof -
  let ?s0 = "sem_lines is_hash_or_newline s"
  have id: "name = takeWhile is_ident ?s0" and "name \<noteq> []"
    using assms by (auto simp: sem_symbol_def sem_ident_def Let_def
        split: prod.splits option.splits bool.splits if_splits)
  then show "\<forall>c \<in> set name. is_ident c" and "name \<noteq> []"
    by (auto dest: set_takeWhileD)
  have "length name \<le> length ?s0"
    unfolding id by (rule length_takeWhile_le)
  also have "\<dots> \<le> length s"
    by (rule length_sem_lines)
  finally show "length name \<le> length s" .
qed

text \<open>All the symbols of a text, up to its end or the first line that does not parse.\<close>

function sem_symbols :: "string \<Rightarrow> (string \<times> u64) list" where
  "sem_symbols s =
     (case sem_symbol s of
        (Inr (Some x), s') \<Rightarrow> x # sem_symbols s'
      | _ \<Rightarrow> [])"
  by pat_completeness auto
termination
  by (relation "measure length") (auto dest: sem_symbol_shrinks [OF sym])

declare sem_symbols.simps [simp del]

end
