(* ===== verification/Symbols_Render.thy ===== *)
theory Symbols_Render
  imports Symbols_File
begin

text \<open>
  The kernelcache symbols file format as a printer, and the round trip through the parser:
  a rendered file parses back to the UUID and the symbols it was made of. The printer is the
  specification of the format documented above \<open>parse_kernelcache_symbols_header\<close>.
\<close>

section \<open>Printing\<close>

definition hexc :: "nat \<Rightarrow> char" where
  "hexc n = ''0123456789abcdef'' ! n"

definition render_byte :: "u8 \<Rightarrow> string" where
  "render_byte b = [hexc (unat (drop_bit 4 b)), hexc (unat (b AND 0xF))]"

definition render_u64 :: "u64 \<Rightarrow> string" where
  "render_u64 w = ''0x'' @ concat (map render_byte (rev (le_bytes 8 w)))"

definition render_symbol :: "string \<times> u64 \<Rightarrow> string" where
  "render_symbol na = fst na @ '' '' @ render_u64 (snd na) @ ''\<newline>''"

fun render_uuid :: "nat \<Rightarrow> bytes \<Rightarrow> string" where
  "render_uuid i [] = []"
| "render_uuid i (b # bs) =
     render_byte b @ (if uuid_sep i then (if i = 15 then ''\<newline>'' else ''-'') else [])
     @ render_uuid (Suc i) bs"

definition render_header :: "bytes \<Rightarrow> string list \<Rightarrow> string" where
  "render_header uuid devices =
     ''KERNELCACHE UUID: '' @ render_uuid 0 uuid
     @ concat (map (\<lambda>d. ''DEVICE: '' @ d @ ''\<newline>'') devices) @ ''\<newline>''"

section \<open>Hexadecimal numbers\<close>

lemma hex_digit_hexc: "n < 16 \<Longrightarrow> hex_digit (hexc n) = int n"
proof -
  have "\<forall>n \<in> {0..<16}. hex_digit (''0123456789abcdef'' ! n) = int n"
    by code_simp
  then show "n < 16 \<Longrightarrow> hex_digit (hexc n) = int n"
    by (simp add: hexc_def)
qed

lemma hex_byte_roundtrip: "sem_hex_byte (render_byte b @ s) = (Some b, s)"
proof -
  have nibble: "(0xF :: u8) = mask 4"
    by (simp add: mask_eq_exp_minus_1)
  have hi: "unat (drop_bit 4 b) < 16"
  proof -
    have "unat (drop_bit 4 b) = drop_bit 4 (unat b)"
      by (rule unat_drop_bit_eq)
    also have "drop_bit 4 (unat b) = unat b div 16"
      by (simp add: drop_bit_eq_div)
    finally show ?thesis using unat_u8_less [of b] by simp
  qed
  have lo: "unat (b AND 0xF) < 16"
  proof -
    have "b AND 0xF \<le> 0xF" by (rule word_and_le1)
    then show ?thesis by (simp add: word_le_nat_alt)
  qed
  have "hex_pair (hexc (unat (drop_bit 4 b))) (hexc (unat (b AND 0xF))) = b"
    using hi lo by (intro bit_word_eqI) (auto simp: hex_pair_def hex_digit_hexc nibble bit_simps)
  moreover have "uint x \<noteq> -1" for x :: u8
    using unsigned_greater_eq [where 'a = int, of x] by linarith
  ultimately show ?thesis
    using hi lo by (simp add: render_byte_def hex_digit_hexc)
qed


lemma length_render_byte [simp]: "length (render_byte b) = 2"
  by (simp add: render_byte_def)

lemma hex_bytes_roundtrip:
  "sem_hex_bytes (length bs) v (concat (map render_byte bs) @ s)
   = Some (fold (\<lambda>b v. push_bit 8 v OR ucast b) bs v, s)"
  by (induction bs arbitrary: v) (simp_all add: hex_byte_roundtrip)

lemma fold_le_word: "fold (\<lambda>b v. push_bit 8 v OR ucast b) (rev bs) 0 = (le_word bs :: u64)"
  by (simp add: foldr_conv_fold [symmetric]) (induction bs; simp add: or.commute)

lemma hex_u64_roundtrip:
  assumes "s = [] \<or> hex_digit (hd s) = -1"
  shows "sem_hex_u64 (render_u64 w @ s) = (Some w, s)"
proof -
  have "sem_hex_bytes 8 0 (concat (map render_byte (rev (le_bytes 8 w))) @ s) = Some (w, s)"
    using hex_bytes_roundtrip [of "rev (le_bytes 8 w)" 0 s] fold_le_word [of "le_bytes 8 w"] by simp
  then show ?thesis
    using assms by (auto simp: sem_hex_u64_def render_u64_def numeral_2_eq_2)
qed

section \<open>Symbols\<close>

definition ident_name :: "string \<Rightarrow> bool" where
  "ident_name s \<longleftrightarrow> s \<noteq> [] \<and> (\<forall>c \<in> set s. is_ident c)"

lemma newline_not_hex: "hex_digit (CHR ''\<newline>'') = -1"
  by code_simp

lemma ident_not_special:
  assumes "is_ident c"
  shows "\<not> is_hash_or_newline c" and "\<not> is_blank c"
proof -
  have "\<not> is_ident (CHR ''#'')" "\<not> is_ident (CHR ''\<newline>'')" "\<not> is_ident (CHR '' '')"
    "\<not> is_ident (CHR 0x09)"
    by code_simp+
  with assms show "\<not> is_hash_or_newline c" and "\<not> is_blank c"
    by (auto simp: is_blank_def)
qed

lemma symbol_roundtrip_text:
  assumes "ident_name name"
  shows "sem_symbol (render_symbol (name, a) @ s) = (Inr (Some (name, a)), s)"
proof -
  let ?t = "render_u64 a @ ''\<newline>'' @ s"
  obtain c cs where name: "name = c # cs" and c: "is_ident c" and all: "\<forall>c \<in> set name. is_ident c"
    using assms by (cases name) (auto simp: ident_name_def)
  have blank: "is_blank (CHR '' '')" "\<not> is_ident (CHR '' '')" "\<not> is_blank (CHR ''0'')"
    "\<not> is_blank (CHR ''\<newline>'')"
    by code_simp+
  have "sem_lines is_hash_or_newline (name @ '' '' @ ?t) = name @ '' '' @ ?t"
    using ident_not_special [OF c] by (simp add: name)
  moreover have "sem_ident (name @ '' '' @ ?t) = (Some name, '' '' @ ?t)"
    using all blank name by (simp add: sem_ident_def takeWhile_append2 dropWhile_append2)
  moreover have "sem_space ('' '' @ ?t) = (True, ?t)"
    using blank by (simp add: sem_space_def render_u64_def)
  moreover have "sem_hex_u64 ?t = (Some a, ''\<newline>'' @ s)"
    by (rule hex_u64_roundtrip) (simp add: newline_not_hex)
  moreover have "sem_space (''\<newline>'' @ s) = (False, ''\<newline>'' @ s)"
    using blank by (simp add: sem_space_def)
  moreover have "sem_eol (snd (sem_line_comment (''\<newline>'' @ s))) = (True, s)"
    by (simp add: sem_line_comment_def sem_eol_def sem_match_def)
  ultimately show ?thesis
    using name by (simp add: sem_symbol_def render_symbol_def Let_def)
qed


section \<open>The header\<close>

lemma uuid_roundtrip:
  "sem_uuid (length bs) i acc (render_uuid i bs @ s) = (Some (acc @ bs), s)"
proof (induction bs arbitrary: i acc)
  case Nil
  then show ?case by simp
next
  case (Cons b bs)
  let ?sep = "if i = 15 then ''\<newline>'' else ''-''"
  have "sem_match ?sep (?sep @ render_uuid (Suc i) bs @ s) = (True, render_uuid (Suc i) bs @ s)"
    by (simp add: sem_match_def)
  with Cons show ?case
    by (cases "uuid_sep i") (simp_all add: hex_byte_roundtrip)
qed

lemma directives_roundtrip:
  assumes "\<forall>d \<in> set devices. CHR ''\<newline>'' \<notin> set d"
  shows "sem_directives (concat (map (\<lambda>d. ''DEVICE: '' @ d @ ''\<newline>'') devices) @ ''\<newline>'' @ s)
    = (True, s)"
  using assms
proof (induction devices)
  case Nil
  then show ?case by (subst sem_directives.simps) (simp add: sem_match_def)
next
  case (Cons d devices)
  let ?r = "concat (map (\<lambda>d. ''DEVICE: '' @ d @ ''\<newline>'') devices) @ ''\<newline>'' @ s"
  have "dropWhile not_newline (d @ CHR ''\<newline>'' # ?r) = CHR ''\<newline>'' # ?r"
    using Cons.prems by (subst dropWhile_append2) auto
  moreover have "sem_match ''DEVICE:'' (''DEVICE: '' @ d @ CHR ''\<newline>'' # ?r)
      = (True, '' '' @ d @ CHR ''\<newline>'' # ?r)"
    by (simp add: sem_match_def)
  ultimately show ?case
    using Cons by (subst sem_directives.simps) simp
qed

lemma blank_not_hex: "is_blank c \<Longrightarrow> hex_digit c = -1"
proof -
  have "hex_digit (CHR '' '') = -1 \<and> hex_digit (CHR 0x09) = -1" by code_simp
  then show "is_blank c \<Longrightarrow> hex_digit c = -1" by (auto simp: is_blank_def)
qed

lemma render_byte_not_blank: "dropWhile is_blank (render_byte b @ s) = render_byte b @ s"
proof -
  have "fst (sem_hex_byte (render_byte b @ s)) = Some b"
    by (simp add: hex_byte_roundtrip)
  then have "hex_digit (hexc (unat (drop_bit 4 b))) \<noteq> -1"
    by (auto simp: render_byte_def split: if_splits)
  then have "\<not> is_blank (hexc (unat (drop_bit 4 b)))"
    using blank_not_hex by blast
  then show ?thesis by (simp add: render_byte_def)
qed

lemma header_roundtrip_text:
  assumes "length uuid = 16" and "\<forall>d \<in> set devices. CHR ''\<newline>'' \<notin> set d"
  shows "sem_header (render_header uuid devices @ s) = (Inr uuid, s)"
proof -
  let ?d = "concat (map (\<lambda>d. ''DEVICE: '' @ d @ ''\<newline>'') devices) @ ''\<newline>'' @ s"
  obtain b bs where u: "uuid = b # bs" using assms(1) by (cases uuid) auto
  have "sem_match ''KERNELCACHE UUID:'' (''KERNELCACHE UUID: '' @ render_uuid 0 uuid @ ?d)
      = (True, '' '' @ render_uuid 0 uuid @ ?d)"
    by (simp add: sem_match_def)
  moreover have "snd (sem_space ('' '' @ render_uuid 0 uuid @ ?d)) = render_uuid 0 uuid @ ?d"
    using render_byte_not_blank by (simp add: sem_space_def u is_blank_def)
  moreover have "sem_uuid 16 0 [] (render_uuid 0 uuid @ ?d) = (Some uuid, ?d)"
    using uuid_roundtrip [of uuid 0 "[]"] assms(1) by simp
  moreover have "sem_directives ?d = (True, s)"
    using assms(2) by (rule directives_roundtrip)
  ultimately show ?thesis
    by (simp add: sem_header_def render_header_def)
qed

end
