(* ===== verification/Host_File.thy ===== *)
theory Host_File
  imports Prelude
begin

text \<open>
  \<open>map_file\<close> and \<open>unmap_file\<close> of \<^verbatim>\<open>kext_loader.c\<close> over the calls of the operating system,
  which are the parameter \<open>host_os\<close>: what each call answers. An answer depends on the path or the
  descriptor only, for a file system that does not change while the program runs. The calls that
  acquire or release something are recorded as events, so that leaks can be stated.
\<close>

record dirent =
  d_regular :: bool
  d_name :: string

text \<open>
  \<open>os_open\<close>: the descriptor, \<open>None\<close> for a failure; \<open>os_fstat\<close>: the size; \<open>os_mmap\<close>: the
  contents of the mapping; \<open>os_opendir\<close>: the entries \<open>readdir\<close> then delivers.
\<close>

record host_os =
  os_open :: "string \<Rightarrow> nat option"
  os_fstat :: "nat \<Rightarrow> nat option"
  os_mmap :: "nat \<Rightarrow> nat \<Rightarrow> string option"
  os_opendir :: "string \<Rightarrow> dirent list option"

datatype host_event =
    Open_fd nat
  | Close_fd nat
  | Map_data string nat
  | Unmap_data string nat
  | Open_dir string
  | Close_dir string

definition map_file :: "host_os \<Rightarrow> string \<Rightarrow> (string \<times> nat) option \<times> host_event list" where
  "map_file os path =
     (case os_open os path of
        None \<Rightarrow> (None, [])
      | Some fd \<Rightarrow>
          (case os_fstat os fd of
             None \<Rightarrow> (None, [Open_fd fd, Close_fd fd])
           | Some file_size \<Rightarrow>
               (case os_mmap os fd file_size of
                  None \<Rightarrow> (None, [Open_fd fd, Close_fd fd])
                | Some data \<Rightarrow>
                    (Some (data, file_size),
                     [Open_fd fd, Map_data data file_size, Close_fd fd]))))"

definition unmap_file :: "string \<times> nat \<Rightarrow> host_event list" where
  "unmap_file m = [Unmap_data (fst m) (snd m)]"

text \<open>
  The documented behaviour of \<open>mmap\<close> the loader relies on: a mapping holds at least the bytes
  asked for.
\<close>

definition os_sound :: "host_os \<Rightarrow> bool" where
  "os_sound os \<longleftrightarrow> (\<forall>fd n data. os_mmap os fd n = Some data \<longrightarrow> n \<le> length data)"

lemma map_file_length:
  "os_sound os \<Longrightarrow> map_file os path = (Some (data, n), ev) \<Longrightarrow> n \<le> length data"
  by (auto simp: map_file_def os_sound_def split: option.splits)

section \<open>What is open after a sequence of events\<close>

fun held :: "host_event list \<Rightarrow> host_event list \<Rightarrow> host_event list" where
  "held hs [] = hs"
| "held hs (Close_fd fd # ev) = held (remove1 (Open_fd fd) hs) ev"
| "held hs (Unmap_data d n # ev) = held (remove1 (Map_data d n) hs) ev"
| "held hs (Close_dir p # ev) = held (remove1 (Open_dir p) hs) ev"
| "held hs (e # ev) = held (e # hs) ev"

lemma held_append: "held hs (ev @ ev') = held (held hs ev) ev'"
  by (induction hs ev rule: held.induct) simp_all

text \<open>A mapping is all that \<open>map_file\<close> leaves behind, and only when it succeeds.\<close>

lemma held_map_file:
  "held hs (snd (map_file os path)) =
     (case fst (map_file os path) of None \<Rightarrow> hs | Some (d, n) \<Rightarrow> Map_data d n # hs)"
  by (simp add: map_file_def split: option.split)

lemma held_unmap_file: "held (Map_data d n # hs) (unmap_file (d, n)) = hs"
  by (simp add: unmap_file_def)

end
