(* ===== verification/Symbol_State.thy ===== *)
theory Symbol_State
  imports Symbols_File Host_File
begin

text \<open>
  The intermediate symbol table of \<^verbatim>\<open>kext_loader.c\<close> (\<open>struct kcs_state\<close>) and the function
  that fills it from the symbols files of a directory. Arrays grown with \<open>realloc\<close> are lists
  beside the count the code keeps for them; the library's \<open>realloc\<close> is taken to succeed, as the
  code takes it. A failed \<open>assert\<close> and a counter that wraps to 0 (after which the code would
  index a zero-sized array) are errors of their own.
\<close>

section \<open>State\<close>

record kcs_sym =
  off :: u32
  addr :: u64

record kcs_kc =
  uuid :: bytes
  symcnt :: u32
  syms :: "kcs_sym list"

record kcs_state =
  kcs :: "kcs_kc list"
  kccnt :: u32
  maxsymcnt :: u32
  symstr :: string
  symsize :: u64

definition kcs_empty :: kcs_state where
  "kcs_empty = \<lparr>kcs = [], kccnt = 0, maxsymcnt = 0, symstr = [], symsize = 0\<rparr>"

datatype kcs_abort = Assert_offset | Count_wrapped

section \<open>Adding a symbol\<close>

text \<open>The C library's \<open>memmem\<close>: the first occurrence of \<open>little\<close> in \<open>big\<close>.\<close>

fun c_memmem :: "'a list \<Rightarrow> 'a list \<Rightarrow> nat option" where
  "c_memmem [] little = (if little = [] then Some 0 else None)"
| "c_memmem (x # big) little =
     (if take (length little) (x # big) = little then Some 0
      else map_option Suc (c_memmem big little))"

definition kcs_intern :: "kcs_state \<Rightarrow> string \<Rightarrow> kcs_abort + (u32 \<times> kcs_state)" where
  "kcs_intern st symbol =
     (case c_memmem (symstr st) (symbol @ [CHR 0x00]) of
        Some offset \<Rightarrow> Inr (word_of_nat offset, st)
      | None \<Rightarrow>
          (let sym_off = ucast (symsize st) in
           if ucast sym_off = symsize st
           then Inr (sym_off,
                     st\<lparr>symstr := symstr st @ symbol @ [CHR 0x00],
                        symsize := symsize st + word_of_nat (length symbol) + 1\<rparr>)
           else Inl Assert_offset))"

definition kcs_add_symbol :: "nat \<Rightarrow> string \<Rightarrow> u64 \<Rightarrow> kcs_state \<Rightarrow> kcs_abort + kcs_state" where
  "kcs_add_symbol idx symbol address st =
     (if symcnt (kcs st ! idx) + 1 = 0 then Inl Count_wrapped
      else
        (case kcs_intern st symbol of
           Inl e \<Rightarrow> Inl e
         | Inr (sym_off, st') \<Rightarrow>
             (let kc = kcs st' ! idx in
              Inr (st'\<lparr>kcs := (kcs st')[idx :=
                kc\<lparr>symcnt := symcnt kc + 1,
                    syms := syms kc @ [\<lparr>off = sym_off, addr = address\<rparr>]\<rparr>]\<rparr>))))"

section \<open>One file\<close>

text \<open>
  The loop over the symbols of a file. A line that does not parse ends the file; the symbols
  before it stay.
\<close>

function kcs_parse_symbols :: "nat \<Rightarrow> text_parser \<Rightarrow> kcs_state \<Rightarrow> kcs_abort + kcs_state" where
  "kcs_parse_symbols idx tp st =
     (case parse_kernelcache_symbols_symbol tp of
        (Inl _, _) \<Rightarrow> Inr st
      | (Inr None, _) \<Rightarrow> Inr st
      | (Inr (Some (symbol, address)), tp') \<Rightarrow>
          (case kcs_add_symbol idx symbol address st of
             Inl e \<Rightarrow> Inl e
           | Inr st' \<Rightarrow> kcs_parse_symbols idx tp' st'))"
  by pat_completeness auto
termination
proof (relation "measure (\<lambda>(idx, tp, st). Suc (tp_e tp) - tp_p tp)", goal_cases)
  case (2 idx tp st r tp' sa p symbol address st')
  then have "tp_p tp < tp_e tp" "tp_p tp < tp_p tp'" "tp_e tp' = tp_e tp"
    using parse_symbol_advances [of tp "(symbol, address)" tp'] by auto
  then show ?case by simp
qed simp

declare kcs_parse_symbols.simps [simp del]


text \<open>The search for the UUID among the first \<open>n\<close> kernelcaches from index \<open>i\<close>.\<close>

fun kcs_find :: "kcs_kc list \<Rightarrow> nat \<Rightarrow> nat \<Rightarrow> bytes \<Rightarrow> nat option" where
  "kcs_find ks 0 i u = None"
| "kcs_find ks (Suc n) i u = (if uuid (ks ! i) = u then Some i else kcs_find ks n (Suc i) u)"

definition kcs_new_kc :: "bytes \<Rightarrow> kcs_state \<Rightarrow> kcs_abort + (nat \<times> kcs_state)" where
  "kcs_new_kc u st =
     (if kccnt st + 1 = 0 then Inl Count_wrapped
      else Inr (length (kcs st),
                st\<lparr>kccnt := kccnt st + 1,
                   kcs := kcs st @ [\<lparr>uuid = u, symcnt = 0, syms = []\<rparr>]\<rparr>))"

definition kcs_select_kc :: "bytes \<Rightarrow> kcs_state \<Rightarrow> kcs_abort + (nat \<times> kcs_state)" where
  "kcs_select_kc u st =
     (case kcs_find (kcs st) (unat (kccnt st)) 0 u of
        Some i \<Rightarrow> Inr (i, st)
      | None \<Rightarrow> kcs_new_kc u st)"

definition kcs_update_max :: "nat \<Rightarrow> kcs_state \<Rightarrow> kcs_state" where
  "kcs_update_max i st =
     (if symcnt (kcs st ! i) > maxsymcnt st
      then st\<lparr>maxsymcnt := symcnt (kcs st ! i)\<rparr> else st)"

text \<open>What is done with one mapped file. An invalid header leaves the state as it was.\<close>

definition kcs_process_file :: "string \<times> nat \<Rightarrow> kcs_state \<Rightarrow> kcs_abort + kcs_state" where
  "kcs_process_file m st =
     (case parse_kernelcache_symbols_header \<lparr>tp_mem = fst m, tp_p = 0, tp_e = snd m\<rparr> of
        (Inl _, _) \<Rightarrow> Inr st
      | (Inr u, tp) \<Rightarrow>
          (case kcs_select_kc u st of
             Inl e \<Rightarrow> Inl e
           | Inr (i, st1) \<Rightarrow>
               (case kcs_parse_symbols i tp st1 of
                  Inl e \<Rightarrow> Inl e
                | Inr st2 \<Rightarrow> Inr (kcs_update_max i st2))))"

section \<open>A directory\<close>

definition wants_file :: "dirent \<Rightarrow> bool" where
  "wants_file dp \<longleftrightarrow>
     d_regular dp \<and> (d_name dp = [] \<or> hd (d_name dp) \<noteq> CHR ''.'')
     \<and> length (d_name dp) > length ''.txt''
     \<and> drop (length (d_name dp) - length ''.txt'') (d_name dp) = ''.txt''"

definition path_max :: nat where
  "path_max = 1024"

definition entry_path :: "string \<Rightarrow> dirent \<Rightarrow> string" where
  "entry_path dirpath dp = take path_max (dirpath @ ''/'' @ d_name dp)"

fun kcs_update_entries ::
  "host_os \<Rightarrow> string \<Rightarrow> dirent list \<Rightarrow> kcs_state \<Rightarrow> (kcs_abort + kcs_state) \<times> host_event list" where
  "kcs_update_entries os dirpath [] st = (Inr st, [])"
| "kcs_update_entries os dirpath (dp # dps) st =
     (if \<not> wants_file dp then kcs_update_entries os dirpath dps st
      else
        (case map_file os (entry_path dirpath dp) of
           (None, ev) \<Rightarrow> map_prod id (append ev) (kcs_update_entries os dirpath dps st)
         | (Some m, ev) \<Rightarrow>
             (case kcs_process_file m st of
                Inl e \<Rightarrow> (Inl e, ev)
              | Inr st' \<Rightarrow>
                  map_prod id (append (ev @ unmap_file m))
                    (kcs_update_entries os dirpath dps st'))))"

text \<open>The boolean the function also returns is \<open>False\<close> exactly when the directory did not open.\<close>

definition kernelcache_symbol_table_update_directory ::
  "host_os \<Rightarrow> string \<Rightarrow> kcs_state \<Rightarrow> (kcs_abort + (bool \<times> kcs_state)) \<times> host_event list" where
  "kernelcache_symbol_table_update_directory os dirpath st =
     (case os_opendir os dirpath of
        None \<Rightarrow> (Inr (False, st), [])
      | Some dps \<Rightarrow>
          (case kcs_update_entries os dirpath dps st of
             (Inl e, ev) \<Rightarrow> (Inl e, Open_dir dirpath # ev)
           | (Inr st', ev) \<Rightarrow> (Inr (True, st'), Open_dir dirpath # ev @ [Close_dir dirpath])))"

text \<open>The loop over the directories given on the command line, which ignores the boolean.\<close>

fun kcs_update_directories ::
  "host_os \<Rightarrow> string list \<Rightarrow> kcs_state \<Rightarrow> (kcs_abort + kcs_state) \<times> host_event list" where
  "kcs_update_directories os [] st = (Inr st, [])"
| "kcs_update_directories os (p # ps) st =
     (case kernelcache_symbol_table_update_directory os p st of
        (Inl e, ev) \<Rightarrow> (Inl e, ev)
      | (Inr (_, st'), ev) \<Rightarrow> map_prod id (append ev) (kcs_update_directories os ps st'))"

end
