(* ===== verification/Symbol_Spec.thy ===== *)
theory Symbol_Spec
  imports Symbol_State
begin

text \<open>
  The contract of the intermediate symbol table: what it stands for (for each kernelcache UUID,
  the symbols read for it in order), the invariant that ties the arrays, the counters and the
  string blob together, and the refinement of reading files into the table.
\<close>

section \<open>Strings in the blob\<close>

abbreviation not_zero :: "char \<Rightarrow> bool" where
  "not_zero c \<equiv> c \<noteq> CHR 0x00"

definition sym_name :: "string \<Rightarrow> nat \<Rightarrow> string" where
  "sym_name str o1 = takeWhile not_zero (drop o1 str)"

definition sym_ok :: "string \<Rightarrow> nat \<Rightarrow> bool" where
  "sym_ok str o1 \<longleftrightarrow> CHR 0x00 \<in> set (drop o1 str)"

lemma sym_ok_bound: "sym_ok str o1 \<Longrightarrow> o1 < length str"
  by (rule ccontr) (simp add: sym_ok_def)

lemma sym_append: "sym_ok str o1 \<Longrightarrow> sym_ok (str @ x) o1 \<and> sym_name (str @ x) o1 = sym_name str o1"
proof -
  assume ok: "sym_ok str o1"
  then have "drop o1 (str @ x) = drop o1 str @ x"
    using sym_ok_bound [OF ok] by simp
  with ok show ?thesis
    by (simp add: sym_ok_def sym_name_def takeWhile_append1)
qed

lemma takeWhile_zero: "CHR 0x00 \<notin> set name \<Longrightarrow> takeWhile not_zero (name @ CHR 0x00 # r) = name"
  by (induction name) auto

lemma sym_at:
  assumes "take (Suc (length name)) (drop o1 str) = name @ [CHR 0x00]" and "CHR 0x00 \<notin> set name"
  shows "sym_ok str o1 \<and> sym_name str o1 = name"
proof -
  have "drop o1 str = (name @ [CHR 0x00]) @ drop (Suc (length name)) (drop o1 str)"
    using assms(1) by (metis append_take_drop_id)
  then obtain r where "drop o1 str = name @ CHR 0x00 # r" by auto
  with assms(2) show ?thesis
    by (simp add: sym_ok_def sym_name_def takeWhile_zero)
qed

lemma c_memmem_Some:
  "c_memmem big little = Some k \<Longrightarrow> k + length little \<le> length big \<and> take (length little) (drop k big) = little"
proof (induction big little arbitrary: k rule: c_memmem.induct)
  case (1 little)
  then show ?case by (simp split: if_splits)
next
  case (2 x big little)
  show ?case
  proof (cases "take (length little) (x # big) = little")
    case True
    then have "length little \<le> length (x # big)"
      by (metis length_take min.cobounded1 min_def)
    with True "2.prems" show ?thesis by simp
  next
    case False
    then obtain j where "c_memmem big little = Some j" "k = Suc j"
      using "2.prems" by auto
    with False "2.IH" show ?thesis by auto
  qed
qed

lemma c_memmem_None: "c_memmem big little = None \<Longrightarrow> take (length little) (drop k big) \<noteq> little \<or> little = []"
proof (induction big little arbitrary: k rule: c_memmem.induct)
  case (1 little)
  then show ?case by simp
next
  case (2 x big little)
  then show ?case by (cases k) (auto split: if_splits)
qed

section \<open>Abstraction and invariant\<close>

type_synonym sym_table = "(bytes \<times> (string \<times> u64) list) list"

definition kc_abs :: "string \<Rightarrow> kcs_kc \<Rightarrow> bytes \<times> (string \<times> u64) list" where
  "kc_abs str kc = (uuid kc, map (\<lambda>s. (sym_name str (unat (off s)), addr s)) (syms kc))"

definition kcs_abs :: "kcs_state \<Rightarrow> sym_table" where
  "kcs_abs st = map (kc_abs (symstr st)) (kcs st)"

definition kc_inv :: "string \<Rightarrow> kcs_kc \<Rightarrow> bool" where
  "kc_inv str kc \<longleftrightarrow>
     length (uuid kc) = 16 \<and> unat (symcnt kc) = length (syms kc)
     \<and> (\<forall>s \<in> set (syms kc). sym_ok str (unat (off s)))"

definition kcs_inv :: "kcs_state \<Rightarrow> bool" where
  "kcs_inv st \<longleftrightarrow>
     unat (kccnt st) = length (kcs st) \<and> distinct (map uuid (kcs st))
     \<and> unat (symsize st) = length (symstr st)
     \<and> (symstr st \<noteq> [] \<longrightarrow> last (symstr st) = CHR 0x00)
     \<and> (\<forall>kc \<in> set (kcs st). kc_inv (symstr st) kc)"

text \<open>Between files the maximum covers every kernelcache.\<close>

definition kcs_max_ok :: "kcs_state \<Rightarrow> bool" where
  "kcs_max_ok st \<longleftrightarrow> (\<forall>kc \<in> set (kcs st). symcnt kc \<le> maxsymcnt st)"

lemma kcs_inv_empty: "kcs_inv kcs_empty" "kcs_max_ok kcs_empty"
  by (simp_all add: kcs_inv_def kcs_max_ok_def kcs_empty_def)

text \<open>Growing the blob changes nothing that was stored before.\<close>

lemma kc_inv_append: "kc_inv str kc \<Longrightarrow> kc_inv (str @ x) kc"
  by (simp add: kc_inv_def sym_append)

lemma kc_abs_append: "kc_inv str kc \<Longrightarrow> kc_abs (str @ x) kc = kc_abs str kc"
  by (simp add: kc_inv_def kc_abs_def sym_append)

section \<open>Adding a symbol\<close>

lemma unat_ucast_id: "ucast (ucast x :: u32) = (x :: u64) \<Longrightarrow> unat (ucast x :: u32) = unat x"
proof -
  assume "ucast (ucast x :: u32) = x"
  then have "unat x = unat (ucast (ucast x :: u32) :: u64)" by simp
  also have "\<dots> = unat (ucast x :: u32)" by (simp add: unsigned_ucast_eq unsigned_take_bit_eq)
  finally show ?thesis by simp
qed

text \<open>
  The blob holds less than \<open>2 ^ 32\<close> bytes when the last string starts below that, so offsets
  found in it fit the 32-bit field unless the blob outgrew it; \<open>blob_fits\<close> says that it did not.
\<close>

definition blob_fits :: "kcs_state \<Rightarrow> bool" where
  "blob_fits st \<longleftrightarrow> length (symstr st) \<le> 2 ^ 32"

lemma kcs_intern_spec:
  assumes run: "kcs_intern st name = Inr (o1, st')"
    and name: "CHR 0x00 \<notin> set name" "length name < 2 ^ 63"
    and size: "unat (symsize st) = length (symstr st)" and fits: "blob_fits st'"
  shows "sym_ok (symstr st') (unat o1) \<and> sym_name (symstr st') (unat o1) = name
    \<and> unat (symsize st') = length (symstr st') \<and> (\<exists>x. symstr st' = symstr st @ x)
    \<and> kcs st' = kcs st \<and> kccnt st' = kccnt st \<and> maxsymcnt st' = maxsymcnt st"
proof (cases "c_memmem (symstr st) (name @ [CHR 0x00])")
  case (Some k)
  with run have st': "st' = st" "o1 = word_of_nat k"
    by (simp_all add: kcs_intern_def)
  note k = c_memmem_Some [OF Some]
  then have "k < 2 ^ 32"
    using fits st' by (simp add: blob_fits_def)
  then have "unat o1 = k"
    by (simp add: st' unat_of_nat)
  with k sym_at [of name k "symstr st"] name size st' show ?thesis by auto
next
  case None
  let ?so = "ucast (symsize st) :: u32"
  have so: "ucast ?so = symsize st" and o1: "o1 = ?so"
    and st': "st' = st\<lparr>symstr := symstr st @ name @ [CHR 0x00],
                symsize := symsize st + word_of_nat (length name) + 1\<rparr>"
    using run None by (auto simp: kcs_intern_def Let_def split: if_splits)
  have u: "unat o1 = length (symstr st)"
    using unat_ucast_id [OF so] size by (simp add: o1)
  then have small: "length (symstr st) < 2 ^ 32"
    using unat_u32_less [of o1] by simp
  have "unat (symsize st') = length (symstr st')"
    using size small name(2) by (simp add: st' unat_word_ariths unat_of_nat take_bit_eq_mod)
  with u sym_at [of name "unat o1" "symstr st'"] name show ?thesis
    by (simp add: st')
qed


lemma kcs_intern_last:
  "kcs_intern st name = Inr (o1, st') \<Longrightarrow> symstr st \<noteq> [] \<longrightarrow> last (symstr st) = CHR 0x00
     \<Longrightarrow> symstr st' \<noteq> [] \<longrightarrow> last (symstr st') = CHR 0x00"
  by (auto simp: kcs_intern_def Let_def split: option.splits if_splits)

definition kc_push :: "'b list \<Rightarrow> 'a \<times> 'b list \<Rightarrow> 'a \<times> 'b list" where
  "kc_push xs kc = (fst kc, snd kc @ xs)"

lemma kc_push_push: "kc_push ys (kc_push xs kc) = kc_push (xs @ ys) kc"
  by (simp add: kc_push_def)

text \<open>What every step that reads into kernelcache \<open>i\<close> keeps.\<close>

definition kcs_grows :: "nat \<Rightarrow> kcs_state \<Rightarrow> kcs_state \<Rightarrow> bool" where
  "kcs_grows i st st' \<longleftrightarrow>
     (\<exists>x. symstr st' = symstr st @ x) \<and> length (kcs st') = length (kcs st)
     \<and> kccnt st' = kccnt st \<and> maxsymcnt st' = maxsymcnt st
     \<and> (\<forall>j < length (kcs st). j \<noteq> i \<longrightarrow> kcs st' ! j = kcs st ! j)"

lemma kcs_grows_refl: "kcs_grows i st st"
  by (simp add: kcs_grows_def)

lemma kcs_grows_trans: "kcs_grows i a b \<Longrightarrow> kcs_grows i b c \<Longrightarrow> kcs_grows i a c"
  by (auto simp: kcs_grows_def)

lemma kcs_grows_fits: "kcs_grows i st st' \<Longrightarrow> blob_fits st' \<Longrightarrow> blob_fits st"
  by (auto simp: kcs_grows_def blob_fits_def)

lemma kcs_intern_grows: "kcs_intern st name = Inr (o1, st') \<Longrightarrow> kcs_grows i st st'"
  by (auto simp: kcs_intern_def kcs_grows_def Let_def split: option.splits if_splits)

lemma kcs_add_symbol_grows: "kcs_add_symbol i name a st = Inr st' \<Longrightarrow> kcs_grows i st st'"
  by (auto simp: kcs_add_symbol_def Let_def kcs_grows_def split: if_splits sum.splits
      dest!: kcs_intern_grows [of st name _ _ i])

lemma kcs_parse_symbols_grows: "kcs_parse_symbols i tp st = Inr st' \<Longrightarrow> kcs_grows i st st'"
proof (induction i tp st rule: kcs_parse_symbols.induct)
  case (1 i tp st)
  obtain r t where p: "parse_kernelcache_symbols_symbol tp = (r, t)" by fastforce
  show ?case
  proof (cases "\<exists>name a. r = Inr (Some (name, a))")
    case False
    then have "st' = st"
      using p "1.prems" by (subst (asm) kcs_parse_symbols.simps) (auto split: sum.splits option.splits)
    then show ?thesis by (simp add: kcs_grows_refl)
  next
    case True
    then obtain name a st1 where r: "r = Inr (Some (name, a))"
      and add: "kcs_add_symbol i name a st = Inr st1" and rec: "kcs_parse_symbols i t st1 = Inr st'"
      using p "1.prems" by (subst (asm) kcs_parse_symbols.simps) (auto split: sum.splits)
    have "kcs_grows i st1 st'"
      using "1.IH" p r add rec by metis
    with kcs_add_symbol_grows [OF add] show ?thesis by (rule kcs_grows_trans)
  qed
qed

lemma kcs_add_symbol_spec:
  assumes run: "kcs_add_symbol i name a st = Inr st'"
    and inv: "kcs_inv st" and i: "i < length (kcs st)"
    and name: "CHR 0x00 \<notin> set name" "length name < 2 ^ 63" and fits: "blob_fits st'"
  shows "kcs_inv st'" and "kcs_abs st' = (kcs_abs st)[i := kc_push [(name, a)] (kcs_abs st ! i)]"
proof -
  let ?kc = "kcs st ! i"
  obtain o1 st1 where int: "kcs_intern st name = Inr (o1, st1)"
    and cnt: "symcnt ?kc + 1 \<noteq> 0"
    and st': "st' = st1\<lparr>kcs := (kcs st1)[i := (kcs st1 ! i)\<lparr>symcnt := symcnt (kcs st1 ! i) + 1,
        syms := syms (kcs st1 ! i) @ [\<lparr>off = o1, addr = a\<rparr>]\<rparr>]\<rparr>"
    using run by (auto simp: kcs_add_symbol_def Let_def split: if_splits sum.splits)
  have size: "unat (symsize st) = length (symstr st)" using inv by (simp add: kcs_inv_def)
  have "blob_fits st1" using fits by (simp add: st' blob_fits_def)
  then obtain x where new: "sym_ok (symstr st1) (unat o1)" "sym_name (symstr st1) (unat o1) = name"
    "unat (symsize st1) = length (symstr st1)" "symstr st1 = symstr st @ x"
    and same: "kcs st1 = kcs st" "kccnt st1 = kccnt st" "maxsymcnt st1 = maxsymcnt st"
    using kcs_intern_spec [OF int name size] by blast
  let ?kc' = "?kc\<lparr>symcnt := symcnt ?kc + 1, syms := syms ?kc @ [\<lparr>off = o1, addr = a\<rparr>]\<rparr>"
  have kcs': "kcs st' = (kcs st)[i := ?kc']" and str': "symstr st' = symstr st1"
    by (simp_all add: st' same)
  have old: "\<forall>kc \<in> set (kcs st). kc_inv (symstr st1) kc \<and> kc_abs (symstr st1) kc = kc_abs (symstr st) kc"
    using inv by (simp add: kcs_inv_def new kc_inv_append kc_abs_append)
  then have kc: "kc_inv (symstr st1) ?kc" using i by simp
  have "unat (symcnt ?kc + 1) = Suc (unat (symcnt ?kc))"
    using cnt by (rule unat_u32_Suc)
  with kc new have kc': "kc_inv (symstr st1) ?kc'"
    by (auto simp: kc_inv_def)
  have "distinct (map uuid (kcs st'))"
    using inv i by (simp add: kcs' kcs_inv_def map_update)
      (metis list_update_id map_update nth_map)
  then show "kcs_inv st'"
    using inv old kc' i kcs_intern_last [OF int] by (auto simp: kcs_inv_def kcs' str' st' same new
        dest!: set_update_subset_insert [THEN subsetD])
  have all: "map (kc_abs (symstr st1)) (kcs st) = kcs_abs st"
    using old by (simp add: kcs_abs_def)
  have one: "kc_abs (symstr st1) ?kc = kcs_abs st ! i"
    using old i by (simp add: kcs_abs_def)
  have "kc_abs (symstr st1) ?kc' = kc_push [(name, a)] (kc_abs (symstr st1) ?kc)"
    by (simp add: kc_abs_def kc_push_def new(2))
  then show "kcs_abs st' = (kcs_abs st)[i := kc_push [(name, a)] (kcs_abs st ! i)]"
    by (simp only: kcs_abs_def [of st'] kcs' str' map_update all one)
qed

section \<open>One file\<close>

lemma kcs_parse_symbols_spec:
  assumes "kcs_parse_symbols i tp st = Inr st'"
    and "tp_wf tp" and "tp_e tp < 2 ^ 63"
    and "kcs_inv st" and "i < length (kcs st)" and "blob_fits st'"
  shows "kcs_inv st'
    \<and> kcs_abs st' = (kcs_abs st)[i := kc_push (sem_symbols (tp_rest tp)) (kcs_abs st ! i)]"
  using assms
proof (induction i tp st rule: kcs_parse_symbols.induct)
  case (1 i tp st)
  obtain r t where p: "parse_kernelcache_symbols_symbol tp = (r, t)" by fastforce
  have step: "tp_wf t" "sem_symbol (tp_rest tp) = (r, tp_rest t)" "tp_e t = tp_e tp"
    using symbol.run [OF p] "1.prems"(2) by (simp_all add: tp_step_def tp_leads_def)
  show ?case
  proof (cases "\<exists>name a. r = Inr (Some (name, a))")
    case False
    then have "sem_symbols (tp_rest tp) = []"
      by (subst sem_symbols.simps) (auto simp: step split: sum.splits option.splits)
    moreover have "st' = st"
      using False p "1.prems"(1)
      by (subst (asm) kcs_parse_symbols.simps) (auto split: sum.splits option.splits)
    ultimately show ?thesis
      using "1.prems" by (simp add: kc_push_def)
  next
    case True
    then obtain name a st1 where r: "r = Inr (Some (name, a))"
      and add: "kcs_add_symbol i name a st = Inr st1" and rec: "kcs_parse_symbols i t st1 = Inr st'"
      using p "1.prems"(1) by (subst (asm) kcs_parse_symbols.simps) (auto split: sum.splits)
    have sem: "sem_symbol (tp_rest tp) = (Inr (Some (name, a)), tp_rest t)"
      using step r by simp
    note nm = sem_symbol_name [OF sem] and grow = kcs_add_symbol_grows [OF add]
    have name: "CHR 0x00 \<notin> set name" using nm(1) is_ident_not_zero by blast
    have short: "length name < 2 ^ 63"
      using nm(3) "1.prems"(2,3) length_tp_rest [of tp] by simp
    have "blob_fits st1"
      using kcs_grows_fits [OF kcs_parse_symbols_grows [OF rec]] "1.prems"(6) by blast
    note st1 = kcs_add_symbol_spec [OF add "1.prems"(4,5) name short this]
    have i1: "i < length (kcs st1)" using grow "1.prems"(5) by (simp add: kcs_grows_def)
    have "kcs_inv st'
      \<and> kcs_abs st' = (kcs_abs st1)[i := kc_push (sem_symbols (tp_rest t)) (kcs_abs st1 ! i)]"
      using "1.IH" [OF p [symmetric] r refl _ add rec step(1) _ st1(1) i1 "1.prems"(6)]
        "1.prems"(3) step(3) by simp
    moreover have "sem_symbols (tp_rest tp) = (name, a) # sem_symbols (tp_rest t)"
      by (subst sem_symbols.simps) (simp add: sem)
    moreover have "i < length (kcs_abs st)" using "1.prems"(5) by (simp add: kcs_abs_def)
    ultimately show ?thesis
      by (simp add: st1(2) kc_push_push)
  qed
qed


lemma kcs_find_spec:
  "i + n = length ks \<Longrightarrow>
     kcs_find ks n i u = (case filter (\<lambda>j. uuid (ks ! j) = u) [i..<length ks] of
        [] \<Rightarrow> None | j # _ \<Rightarrow> Some j)"
proof (induction n arbitrary: i)
  case 0
  then show ?case by simp
next
  case (Suc n)
  then have "[i..<length ks] = i # [Suc i..<length ks]" by (simp add: upt_conv_Cons)
  with Suc show ?case by simp
qed

lemma kcs_find_Some:
  assumes "kcs_find ks n 0 u = Some i" and "n = length ks"
  shows "i < length ks \<and> uuid (ks ! i) = u"
proof -
  have "filter (\<lambda>j. uuid (ks ! j) = u) [0..<length ks] \<noteq> []
    \<and> hd (filter (\<lambda>j. uuid (ks ! j) = u) [0..<length ks]) = i"
    using assms kcs_find_spec [of 0 n ks u] by (auto split: list.splits)
  then have "i \<in> set (filter (\<lambda>j. uuid (ks ! j) = u) [0..<length ks])"
    using hd_in_set by metis
  then show ?thesis by auto
qed

lemma kcs_find_None: "kcs_find ks n 0 u = None \<Longrightarrow> n = length ks \<Longrightarrow> u \<notin> uuid ` set ks"
  using kcs_find_spec [of 0 n ks u]
  by (fastforce simp: filter_empty_conv in_set_conv_nth split: list.splits)

text \<open>Appending symbols to the entry of a UUID, which is added at the end when it is new.\<close>

definition table_append :: "bytes \<Rightarrow> (string \<times> u64) list \<Rightarrow> sym_table \<Rightarrow> sym_table" where
  "table_append u xs T =
     (if u \<in> fst ` set T then map (\<lambda>kc. if fst kc = u then kc_push xs kc else kc) T
      else T @ [(u, xs)])"

definition spec_file :: "string \<Rightarrow> sym_table \<Rightarrow> sym_table" where
  "spec_file text T =
     (case sem_header text of
        (Inl _, _) \<Rightarrow> T
      | (Inr u, s) \<Rightarrow> table_append u (sem_symbols s) T)"

lemma kcs_select_kc_spec:
  assumes run: "kcs_select_kc u st = Inr (i, st')"
    and inv: "kcs_inv st" and u: "length u = 16"
  shows "kcs_inv st'" and "i < length (kcs st')" and "uuid (kcs st' ! i) = u"
    and "kcs_abs st' = (if u \<in> fst ` set (kcs_abs st) then kcs_abs st else kcs_abs st @ [(u, [])])"
    and "symstr st' = symstr st" and "maxsymcnt st' = maxsymcnt st"
    and "kcs_max_ok st \<Longrightarrow> kcs_max_ok st'"
proof -
  have keys: "fst ` set (kcs_abs st) = uuid ` set (kcs st)"
    by (force simp: kcs_abs_def kc_abs_def)
  have cnt: "unat (kccnt st) = length (kcs st)" using inv by (simp add: kcs_inv_def)
  have "kcs_inv st' \<and> i < length (kcs st') \<and> uuid (kcs st' ! i) = u
      \<and> kcs_abs st' = (if u \<in> fst ` set (kcs_abs st) then kcs_abs st else kcs_abs st @ [(u, [])])
      \<and> symstr st' = symstr st \<and> maxsymcnt st' = maxsymcnt st
      \<and> (kcs_max_ok st \<longrightarrow> kcs_max_ok st')"
  proof (cases "kcs_find (kcs st) (unat (kccnt st)) 0 u")
    case (Some j)
    with run have [simp]: "j = i" "st' = st" by (simp_all add: kcs_select_kc_def)
    from kcs_find_Some [OF Some cnt] have *: "i < length (kcs st)" "uuid (kcs st ! i) = u" by simp_all
    then have "u \<in> uuid ` set (kcs st)" by (metis imageI nth_mem)
    with * inv keys show ?thesis
      by simp
  next
    case None
    with run have "kccnt st + 1 \<noteq> 0" and [simp]: "i = length (kcs st)"
      and st': "st' = st\<lparr>kccnt := kccnt st + 1, kcs := kcs st @ [\<lparr>uuid = u, symcnt = 0, syms = []\<rparr>]\<rparr>"
      by (auto simp: kcs_select_kc_def kcs_new_kc_def split: if_splits)
    then have "unat (kccnt st') = length (kcs st')"
      using cnt unat_u32_Suc [of "kccnt st"] by simp
    moreover have "u \<notin> uuid ` set (kcs st)"
      using kcs_find_None [OF None cnt] .
    ultimately show ?thesis
      using inv u keys
      by (auto simp: st' kcs_inv_def kc_inv_def kcs_abs_def kc_abs_def kcs_max_ok_def)
  qed
  then show "kcs_inv st'" "i < length (kcs st')" "uuid (kcs st' ! i) = u"
    "kcs_abs st' = (if u \<in> fst ` set (kcs_abs st) then kcs_abs st else kcs_abs st @ [(u, [])])"
    "symstr st' = symstr st" "maxsymcnt st' = maxsymcnt st" "kcs_max_ok st \<Longrightarrow> kcs_max_ok st'"
    by simp_all
qed

lemma length_parse_uuid: "sem_uuid n i acc s = (Some u, s') \<Longrightarrow> length u = length acc + n"
  by (induction n i acc s rule: sem_uuid.induct) (auto split: prod.splits option.splits if_splits bool.splits)

lemma length_sem_header: "sem_header s = (Inr u, s') \<Longrightarrow> length u = 16"
  by (auto simp: sem_header_def split: prod.splits option.splits bool.splits dest: length_parse_uuid)

lemma distinct_key_update:
  assumes "distinct (map fst T)" and "i < length T" and "fst (T ! i) = u"
  shows "T[i := kc_push xs (T ! i)] = map (\<lambda>kc. if fst kc = u then kc_push xs kc else kc) T"
proof (rule nth_equalityI)
  fix j assume "j < length (T[i := kc_push xs (T ! i)])"
  with assms show "T[i := kc_push xs (T ! i)] ! j = map (\<lambda>kc. if fst kc = u then kc_push xs kc else kc) T ! j"
    by (auto simp: nth_list_update distinct_conv_nth)
qed simp

lemma map_missing_key:
  "u \<notin> fst ` set T \<Longrightarrow> map (\<lambda>kc. if fst kc = u then f kc else kc) T = T"
  by (rule map_idI) force

text \<open>Reading one file is \<open>spec_file\<close> on its text, and keeps the invariant.\<close>

lemma kcs_process_file_spec:
  assumes run: "kcs_process_file (data, n) st = Inr st'"
    and mapped: "n \<le> length data" "n < 2 ^ 63"
    and inv: "kcs_inv st" "kcs_max_ok st" and fits: "blob_fits st'"
  shows "kcs_inv st'" and "kcs_max_ok st'" and "kcs_abs st' = spec_file (take n data) (kcs_abs st)"
proof -
  define tp where "tp = \<lparr>tp_mem = data, tp_p = 0, tp_e = n\<rparr>"
  have tp: "tp_wf tp" "tp_rest tp = take n data" "tp_e tp = n"
    using mapped by (simp_all add: tp_def tp_wf_def tp_rest_def)
  obtain r t where p: "parse_kernelcache_symbols_header tp = (r, t)" by fastforce
  then have step: "tp_wf t" "sem_header (take n data) = (r, tp_rest t)" "tp_e t = n"
    using header.run [OF p] tp by (simp_all add: tp_step_def tp_leads_def)
  have "kcs_inv st' \<and> kcs_max_ok st' \<and> kcs_abs st' = spec_file (take n data) (kcs_abs st)"
  proof (cases r)
    case (Inl e)
    with run p step inv show ?thesis
      by (simp add: kcs_process_file_def spec_file_def tp_def)
  next
    case (Inr u)
    then obtain i st1 st2 where sel: "kcs_select_kc u st = Inr (i, st1)"
      and par: "kcs_parse_symbols i t st1 = Inr st2" and st': "st' = kcs_update_max i st2"
      using run p by (auto simp: kcs_process_file_def tp_def split: sum.splits)
    have u: "length u = 16" using length_sem_header step Inr by auto
    note s1 = kcs_select_kc_spec [OF sel inv(1) u]
    have "blob_fits st2"
      using fits by (simp add: st' kcs_update_max_def blob_fits_def split: if_splits)
    then have s2: "kcs_inv st2"
      "kcs_abs st2 = (kcs_abs st1)[i := kc_push (sem_symbols (tp_rest t)) (kcs_abs st1 ! i)]"
      using kcs_parse_symbols_spec [OF par step(1) _ s1(1,2)] step(3) mapped by auto
    note grow = kcs_parse_symbols_grows [OF par]
    have dist: "distinct (map fst (kcs_abs st1))"
      using s1(1) by (simp add: kcs_inv_def kcs_abs_def kc_abs_def comp_def)
    have at: "i < length (kcs_abs st1)" "fst (kcs_abs st1 ! i) = u"
      using s1(2,3) by (simp_all add: kcs_abs_def kc_abs_def)
    have "kcs_abs st2 = spec_file (take n data) (kcs_abs st)"
      using distinct_key_update [OF dist at] s1(4) step(2) Inr
      by (auto simp: s2(2) spec_file_def table_append_def kc_push_def map_missing_key
          split: if_splits)
    moreover have "kcs_abs st' = kcs_abs st2" "kcs_inv st'"
      using s2(1) by (simp_all add: st' kcs_update_max_def kcs_abs_def kcs_inv_def)
    moreover have "symcnt (kcs st2 ! j) \<le> maxsymcnt st'" if "j < length (kcs st2)" for j
    proof (cases "j = i")
      case True
      then show ?thesis by (simp add: st' kcs_update_max_def not_less)
    next
      case False
      then have "symcnt (kcs st2 ! j) \<le> maxsymcnt st2"
        using s1(7) [OF inv(2)] grow that by (auto simp: kcs_max_ok_def kcs_grows_def)
      also have "maxsymcnt st2 \<le> maxsymcnt st'"
        by (auto simp: st' kcs_update_max_def intro: order_less_imp_le)
      finally show ?thesis .
    qed
    then have "kcs_max_ok st'"
      by (auto simp: st' kcs_max_ok_def kcs_update_max_def all_set_conv_all_nth)
    ultimately show ?thesis by simp
  qed
  then show "kcs_inv st'" "kcs_max_ok st'" "kcs_abs st' = spec_file (take n data) (kcs_abs st)"
    by simp_all
qed


section \<open>Directories\<close>

text \<open>The texts of a directory's symbols files, in the order \<open>readdir\<close> lists them.\<close>

definition directory_texts :: "host_os \<Rightarrow> string \<Rightarrow> dirent list \<Rightarrow> string list" where
  "directory_texts os dirpath dps =
     concat (map (\<lambda>dp. case fst (map_file os (entry_path dirpath dp)) of
                          None \<Rightarrow> [] | Some (data, n) \<Rightarrow> [take n data])
       (filter wants_file dps))"

definition all_texts :: "host_os \<Rightarrow> string list \<Rightarrow> string list" where
  "all_texts os paths =
     concat (map (\<lambda>p. case os_opendir os p of None \<Rightarrow> [] | Some dps \<Rightarrow> directory_texts os p dps)
       paths)"

text \<open>Mappings are smaller than half the address space.\<close>

definition os_small :: "host_os \<Rightarrow> bool" where
  "os_small os \<longleftrightarrow> (\<forall>fd n. os_fstat os fd = Some n \<longrightarrow> n < 2 ^ 63)"

lemma map_file_small: "os_small os \<Longrightarrow> map_file os path = (Some (data, n), ev) \<Longrightarrow> n < 2 ^ 63"
  by (auto simp: map_file_def os_small_def split: option.splits)

lemma kcs_process_file_blob:
  "kcs_process_file m st = Inr st' \<Longrightarrow> \<exists>x. symstr st' = symstr st @ x"
  by (auto simp: kcs_process_file_def kcs_update_max_def kcs_select_kc_def kcs_new_kc_def
      kcs_grows_def split: prod.splits sum.splits option.splits if_splits
      dest!: kcs_parse_symbols_grows)

lemma kcs_update_entries_blob:
  "fst (kcs_update_entries os d dps st) = Inr st' \<Longrightarrow> \<exists>x. symstr st' = symstr st @ x"
proof (induction dps arbitrary: st)
  case Nil
  then show ?case by simp
next
  case (Cons dp dps)
  then show ?case
    by (fastforce split: if_splits prod.splits option.splits sum.splits
        dest: kcs_process_file_blob)
qed

lemma kcs_update_entries_spec:
  assumes "fst (kcs_update_entries os d dps st) = Inr st'"
    and "os_sound os" and "os_small os"
    and "kcs_inv st" and "kcs_max_ok st" and "blob_fits st'"
  shows "kcs_inv st' \<and> kcs_max_ok st'
    \<and> kcs_abs st' = fold spec_file (directory_texts os d dps) (kcs_abs st)"
  using assms
proof (induction dps arbitrary: st)
  case Nil
  then show ?case by (simp add: directory_texts_def)
next
  case (Cons dp dps)
  obtain m ev where mf: "map_file os (entry_path d dp) = (m, ev)" by fastforce
  show ?case
  proof (cases "wants_file dp \<and> m \<noteq> None")
    case False
    then have "fst (kcs_update_entries os d dps st) = Inr st'"
      using Cons.prems(1) mf by (cases m) (auto split: if_splits)
    from Cons.IH [OF this Cons.prems(2-)] False mf show ?thesis
      by (cases m) (auto simp: directory_texts_def)
  next
    case True
    then obtain data n where m: "m = Some (data, n)" by auto
    then obtain st1 where pf: "kcs_process_file (data, n) st = Inr st1"
      and rec: "fst (kcs_update_entries os d dps st1) = Inr st'"
      using Cons.prems(1) True mf by (auto split: sum.splits)
    have "blob_fits st1"
      using kcs_update_entries_blob [OF rec] Cons.prems(6) by (auto simp: blob_fits_def)
    then have "kcs_inv st1" "kcs_max_ok st1" "kcs_abs st1 = spec_file (take n data) (kcs_abs st)"
      using kcs_process_file_spec [OF pf] map_file_length [OF Cons.prems(2)]
        map_file_small [OF Cons.prems(3)] mf m Cons.prems(4,5) by blast+
    with Cons.IH [OF rec Cons.prems(2,3) _ _ Cons.prems(6)] True mf m show ?thesis
      by (simp add: directory_texts_def)
  qed
qed

lemma kcs_update_directories_blob:
  "fst (kcs_update_directories os ps st) = Inr st' \<Longrightarrow> \<exists>x. symstr st' = symstr st @ x"
proof (induction ps arbitrary: st)
  case Nil
  then show ?case by simp
next
  case (Cons p ps)
  show ?case
  proof (cases "os_opendir os p")
    case None
    with Cons show ?thesis by (simp add: kernelcache_symbol_table_update_directory_def)
  next
    case (Some dps)
    then obtain st1 where "fst (kcs_update_entries os p dps st) = Inr st1"
      and "fst (kcs_update_directories os ps st1) = Inr st'"
      using Cons.prems
      by (auto simp: kernelcache_symbol_table_update_directory_def split: prod.splits sum.splits)
    then show ?thesis
      using Cons.IH kcs_update_entries_blob by fastforce
  qed
qed

lemma kcs_update_directories_spec:
  assumes "fst (kcs_update_directories os ps st) = Inr st'"
    and "os_sound os" and "os_small os"
    and "kcs_inv st" and "kcs_max_ok st" and "blob_fits st'"
  shows "kcs_inv st' \<and> kcs_max_ok st' \<and> kcs_abs st' = fold spec_file (all_texts os ps) (kcs_abs st)"
  using assms
proof (induction ps arbitrary: st)
  case Nil
  then show ?case by (simp add: all_texts_def)
next
  case (Cons p ps)
  show ?case
  proof (cases "os_opendir os p")
    case None
    then have "fst (kcs_update_directories os ps st) = Inr st'"
      using Cons.prems(1) by (simp add: kernelcache_symbol_table_update_directory_def)
    from Cons.IH [OF this Cons.prems(2-)] None show ?thesis by (simp add: all_texts_def)
  next
    case (Some dps)
    then obtain st1 where one: "fst (kcs_update_entries os p dps st) = Inr st1"
      and rec: "fst (kcs_update_directories os ps st1) = Inr st'"
      using Cons.prems(1)
      by (auto simp: kernelcache_symbol_table_update_directory_def split: prod.splits sum.splits)
    have "blob_fits st1"
      using kcs_update_directories_blob [OF rec] Cons.prems(6) by (auto simp: blob_fits_def)
    note s1 = kcs_update_entries_spec [OF one Cons.prems(2-5) this]
    from Cons.IH [OF rec Cons.prems(2,3) _ _ Cons.prems(6)] s1 Some show ?thesis
      by (simp add: all_texts_def)
  qed
qed

text \<open>No mapping, descriptor or directory stays open.\<close>

lemma held_kcs_update_entries:
  "kcs_update_entries os d dps st = (Inr st', ev) \<Longrightarrow> held hs ev = hs"
proof (induction dps arbitrary: st ev)
  case Nil
  then show ?case by simp
next
  case (Cons dp dps)
  then show ?case
    using held_map_file [of hs os "entry_path d dp"]
    by (fastforce simp: map_prod_def held_append held_unmap_file
        split: if_splits prod.splits option.splits sum.splits)
qed

end
