(* ===== verification/Symbol_Blob.thy ===== *)
theory Symbol_Blob
  imports Symbol_Spec
begin

text \<open>
  The second half of \<open>kernelcache_symbol_table_generate\<close> in \<^verbatim>\<open>kext_loader.c\<close>: the
  intermediate table is serialised into the upload format that the comment in both programs
  describes. The buffer comes from \<open>malloc\<close>, whose answer is a parameter: \<open>None\<close> for a null
  pointer, else the contents the fresh block happens to have.
\<close>

section \<open>Serialisation\<close>

record blob_writer =
  blob :: region
  kc_desc :: u64
  offset :: u64

datatype blob_abort = Assert_table_offset | Assert_table_end | Assert_strings_end

definition blob_tables_start :: "kcs_state \<Rightarrow> u64" where
  "blob_tables_start st = 4 + 4 + ucast (kccnt st) * (16 + 4)"

definition blob_size :: "kcs_state \<Rightarrow> u64" where
  "blob_size st =
     blob_tables_start st + ucast (kccnt st) * (4 + ucast (maxsymcnt st) * (4 + 8)) + symsize st"

definition blob_put_sym :: "kcs_sym list \<Rightarrow> nat \<Rightarrow> blob_writer \<Rightarrow> (blob_abort + blob_writer) option" where
  "blob_put_sym ss i w = do {
     s \<leftarrow> elem_at ss i;
     b1 \<leftarrow> wr32 (blob w) (unat (offset w)) (off s);
     b2 \<leftarrow> wr64 b1 (unat (offset w + 4)) (addr s);
     Some (Inr (w\<lparr>blob := b2, offset := offset w + 4 + 8\<rparr>))
   }"

definition blob_put_kc :: "u64 \<Rightarrow> kcs_kc list \<Rightarrow> nat \<Rightarrow> blob_writer \<Rightarrow> (blob_abort + blob_writer) option" where
  "blob_put_kc sz ks i w =
     (if ucast (ucast (offset w) :: u32) \<noteq> offset w then Some (Inl Assert_table_offset)
      else do {
        kc \<leftarrow> elem_at ks i;
        b1 \<leftarrow> wr_bytes (blob w) (unat (kc_desc w)) (uuid kc);
        b2 \<leftarrow> wr32 b1 (unat (kc_desc w + 16)) (ucast (offset w));
        b3 \<leftarrow> wr32 b2 (unat (offset w)) (symcnt kc);
        ebind (for_loop (unat (symcnt kc)) 0 (blob_put_sym (syms kc))
                 (w\<lparr>blob := b3, kc_desc := kc_desc w + 16 + 4, offset := offset w + 4\<rparr>))
          (\<lambda>w'. if offset w' \<le> sz then Some (Inr w') else Some (Inl Assert_table_end))
      })"

definition blob_put_strings :: "u64 \<Rightarrow> kcs_state \<Rightarrow> blob_writer \<Rightarrow> (blob_abort + (region \<times> u64)) option" where
  "blob_put_strings sz st w =
     (if \<not> offset w + symsize st \<le> sz then Some (Inl Assert_strings_end)
      else if length (symstr st) < unat (symsize st) then None
      else do {
        b1 \<leftarrow> wr32 (blob w) 4 (ucast (offset w));
        b2 \<leftarrow> wr_bytes b1 (unat (offset w)) (bytes_of (take (unat (symsize st)) (symstr st)));
        Some (Inr (b2, offset w + symsize st))
      })"

text \<open>The serialised table: the buffer and the number of bytes of it that are used.\<close>

definition kernelcache_symbol_table_generate ::
  "(nat \<Rightarrow> u8) option \<Rightarrow> kcs_state \<Rightarrow> (blob_abort + (region \<times> u64)) option" where
  "kernelcache_symbol_table_generate m st = do {
     junk \<leftarrow> m;
     let sz = blob_size st;
     b0 \<leftarrow> wr32 \<lparr>rsize = unat sz, rbyte = junk\<rparr> 0 (kccnt st);
     ebind (for_loop (unat (kccnt st)) 0 (blob_put_kc sz (kcs st))
              \<lparr>blob = b0, kc_desc = 4 + 4, offset = blob_tables_start st\<rparr>)
       (blob_put_strings sz st)
   }"

section \<open>The upload format\<close>

definition put_sym :: "kcs_sym \<Rightarrow> bytes" where
  "put_sym s = le_bytes 4 (off s) @ le_bytes 8 (addr s)"

definition get_sym :: "bytes \<Rightarrow> kcs_sym" where
  "get_sym bs = \<lparr>off = le_word (take 4 bs), addr = le_word (drop 4 bs)\<rparr>"

interpretation entry: codec put_sym get_sym 12
  by unfold_locales (simp_all add: put_sym_def get_sym_def)

definition put_table :: "kcs_kc \<Rightarrow> bytes" where
  "put_table kc = le_bytes 4 (symcnt kc) @ concat (map put_sym (syms kc))"

lemma length_put_table: "length (put_table kc) = 4 + 12 * length (syms kc)"
  by (simp add: put_table_def entry.length_puts)

definition put_desc :: "bytes \<times> u32 \<Rightarrow> bytes" where
  "put_desc d = fst d @ le_bytes 4 (snd d)"

text \<open>Where the table of kernelcache \<open>i\<close> starts.\<close>

definition table_offset :: "kcs_kc list \<Rightarrow> nat \<Rightarrow> nat" where
  "table_offset ks i = 8 + 20 * length ks + length (concat (map put_table (take i ks)))"

definition blob_descs :: "kcs_kc list \<Rightarrow> nat \<Rightarrow> bytes" where
  "blob_descs ks i =
     concat (map (\<lambda>j. put_desc (uuid (ks ! j), word_of_nat (table_offset ks j))) [0..<i])"

definition blob_tables :: "kcs_kc list \<Rightarrow> nat \<Rightarrow> bytes" where
  "blob_tables ks i = concat (map put_table (take i ks))"

definition blob_spec :: "kcs_state \<Rightarrow> bytes" where
  "blob_spec st =
     le_bytes 4 (kccnt st)
     @ le_bytes 4 (word_of_nat (table_offset (kcs st) (length (kcs st))) :: u32)
     @ blob_descs (kcs st) (length (kcs st))
     @ blob_tables (kcs st) (length (kcs st))
     @ bytes_of (symstr st)"

text \<open>The largest the buffer gets, in unbounded arithmetic.\<close>

definition blob_bound :: "kcs_state \<Rightarrow> nat" where
  "blob_bound st =
     8 + 20 * length (kcs st) + length (kcs st) * (4 + 12 * unat (maxsymcnt st))
     + length (symstr st)"

lemma table_offset_Suc:
  "i < length ks \<Longrightarrow> table_offset ks (Suc i) = table_offset ks i + 4 + 12 * length (syms (ks ! i))"
  by (simp add: table_offset_def take_Suc_conv_app_nth length_put_table)

lemma blob_descs_Suc:
  "blob_descs ks (Suc i) = blob_descs ks i @ uuid (ks ! i) @ le_bytes 4 (word_of_nat (table_offset ks i) :: u32)"
  by (simp add: blob_descs_def put_desc_def)

lemma blob_tables_Suc: "i < length ks \<Longrightarrow> blob_tables ks (Suc i) = blob_tables ks i @ put_table (ks ! i)"
  by (simp add: blob_tables_def take_Suc_conv_app_nth)

lemma length_blob_tables: "length (blob_tables ks i) = table_offset ks i - (8 + 20 * length ks)"
  by (simp add: blob_tables_def table_offset_def)

lemma length_blob_descs:
  "\<forall>kc \<in> set ks. length (uuid kc) = 16 \<Longrightarrow> i \<le> length ks \<Longrightarrow> length (blob_descs ks i) = 20 * i"
  by (induction i) (simp_all add: blob_descs_def put_desc_def)

lemma table_offset_le:
  assumes "\<forall>kc \<in> set ks. length (syms kc) \<le> m" and "i \<le> length ks"
  shows "table_offset ks i \<le> 8 + 20 * length ks + i * (4 + 12 * m)"
  using assms(2)
proof (induction i)
  case 0
  then show ?case by (simp add: table_offset_def)
next
  case (Suc i)
  then have "length (syms (ks ! i)) \<le> m" using assms(1) by simp
  with Suc show ?case by (simp add: table_offset_Suc)
qed

section \<open>The serialisation writes the upload format\<close>

text \<open>
  Between two writes: the header and the descriptors \<open>D\<close> and tables \<open>T\<close> written so far stand in
  the buffer, and the two cursors are behind them.
\<close>

definition blob_inv :: "nat \<Rightarrow> u32 \<Rightarrow> nat \<Rightarrow> bytes \<Rightarrow> bytes \<Rightarrow> blob_writer \<Rightarrow> bool" where
  "blob_inv S cnt T0 D T w \<longleftrightarrow>
     rsize (blob w) = S \<and> kc_desc w = word_of_nat (8 + length D)
     \<and> offset w = word_of_nat (T0 + length T)
     \<and> holds (blob w) 0 (le_bytes 4 cnt) \<and> holds (blob w) 8 D \<and> holds (blob w) T0 T"

lemma unat_u64_nat: "n < 4294967296 \<Longrightarrow> unat (word_of_nat n :: u64) = n"
  by (simp add: unat_of_nat)

lemma u64_u32_nat: "n < 4294967296 \<Longrightarrow> ucast (ucast (word_of_nat n :: u64) :: u32) = (word_of_nat n :: u64)"
  by (rule word_unat_eq_iff [THEN iffD2]) (simp add: unsigned_ucast_eq unsigned_take_bit_eq unat_u64_nat take_bit_nat_eq_self)

lemma ucast_nat: "n < 4294967296 \<Longrightarrow> ucast (word_of_nat n :: u64) = (word_of_nat n :: u32)"
  by (rule word_unat_eq_iff [THEN iffD2]) (simp add: unsigned_ucast_eq unat_of_nat take_bit_nat_eq_self)

lemma blob_put_sym_spec:
  assumes inv: "blob_inv S cnt T0 D T w" and i: "i < length ss"
    and room: "T0 + length T + 12 \<le> S" "S < 4294967296" "8 + length D \<le> T0"
  shows "wt (blob_put_sym ss i w) (blob_inv S cnt T0 D (T @ put_sym (ss ! i)))"
proof -
  let ?n = "T0 + length T"
  have at: "unat (offset w) = ?n" "unat (offset w + 4) = ?n + 4"
    "offset w + 4 + 8 = word_of_nat (?n + 12)"
    using inv room unat_u64_nat [of ?n] unat_u64_nat [of "?n + 4"]
    by (simp_all add: blob_inv_def add.commute)
  obtain b1 where b1: "wr32 (blob w) ?n (off (ss ! i)) = Some b1"
    using inv room wr_not_None(2) [of "blob w" ?n "off (ss ! i)"] by (auto simp: blob_inv_def)
  then have s1: "rsize b1 = S" using inv by (simp add: wr32_SomeD blob_inv_def)
  obtain b2 where b2: "wr64 b1 (?n + 4) (addr (ss ! i)) = Some b2"
    using s1 room wr_not_None(3) [of b1 "?n + 4" "addr (ss ! i)"] by auto
  then have s2: "rsize b2 = S" using s1 by (simp add: wr64_SomeD)
  have "holds b2 0 (le_bytes 4 cnt)" "holds b2 8 D"
    using inv room
      holds_wr_other [OF holds_wr_other [OF _ b1 [unfolded wr32_def]] b2 [unfolded wr64_def]]
    by (simp_all add: blob_inv_def)
  moreover have "holds b2 T0 (T @ put_sym (ss ! i))"
    using inv
      holds_wr_append [OF holds_wr_append [OF _ b1 [unfolded wr32_def]] b2 [unfolded wr64_def], of T0 T]
    by (simp add: blob_inv_def put_sym_def)
  moreover have "blob_put_sym ss i w = Some (Inr (w\<lparr>blob := b2, offset := word_of_nat (?n + 12)\<rparr>))"
    using i by (simp only: blob_put_sym_def elem_at_Some at b1 b2 bind.bind_lunit)
  ultimately show ?thesis
    using inv s2 by (simp add: wp_simps blob_inv_def put_sym_def)
qed

lemma blob_put_syms_spec:
  assumes "blob_inv S cnt T0 D T w"
    and "T0 + length T + 12 * length ss \<le> S" "S < 4294967296" "8 + length D \<le> T0"
  shows "wt (for_loop (length ss) 0 (blob_put_sym ss) w)
    (blob_inv S cnt T0 D (T @ concat (map put_sym ss)))"
proof -
  let ?I = "\<lambda>j. blob_inv S cnt T0 D (T @ concat (map put_sym (take j ss)))"
  have "wt (for_loop (length ss) 0 (blob_put_sym ss) w) (?I (0 + length ss))"
  proof (rule wt_for_loop)
    show "?I 0 w" using assms(1) by simp
  next
    fix j t assume j: "0 \<le> j" "j < 0 + length ss" and I: "?I j t"
    then have "12 * Suc j \<le> 12 * length ss" by simp
    with j assms(2) have "T0 + length (T @ concat (map put_sym (take j ss))) + 12 \<le> S"
      by (simp add: entry.length_puts)
    from blob_put_sym_spec [OF I _ this assms(3,4), of j] j
    show "wt (blob_put_sym ss j t) (?I (Suc j))"
      by (simp add: take_Suc_conv_app_nth)
  qed
  then show ?thesis by simp
qed


lemma blob_put_kc_spec:
  assumes inv: "blob_inv S cnt T0 D T w" and i: "i < length ks"
    and kc: "length (uuid (ks ! i)) = 16" "unat (symcnt (ks ! i)) = length (syms (ks ! i))"
    and room: "T0 + length T + 4 + 12 * length (syms (ks ! i)) \<le> S" "S < 4294967296"
      "8 + length D + 20 \<le> T0"
  shows "wt (blob_put_kc (word_of_nat S) ks i w)
    (blob_inv S cnt T0 (D @ put_desc (uuid (ks ! i), word_of_nat (T0 + length T))) (T @ put_table (ks ! i)))"
proof -
  let ?n = "T0 + length T" and ?d = "8 + length D" and ?kc = "ks ! i"
  let ?D = "D @ put_desc (uuid ?kc, word_of_nat ?n)"
  have I: "rsize (blob w) = S" "kc_desc w = word_of_nat ?d" "offset w = word_of_nat ?n"
    "holds (blob w) 0 (le_bytes 4 cnt)" "holds (blob w) 8 D" "holds (blob w) T0 T"
    using inv by (simp_all only: blob_inv_def)
  have n: "?n < 4294967296" "?d + 20 \<le> S" using room by simp_all
  have at: "unat (offset w) = ?n" "ucast (offset w) = (word_of_nat ?n :: u32)"
    "unat (kc_desc w) = ?d" "unat (kc_desc w + 16) = ?d + 16"
    "offset w + 4 = word_of_nat (?n + 4)" "kc_desc w + 16 + 4 = word_of_nat (?d + 20)"
    "ucast (word_of_nat ?n :: u32) = offset w"
    using I n room unat_u64_nat [of ?n] unat_u64_nat [of ?d] unat_u64_nat [of "?d + 16"]
      ucast_nat [of ?n] u64_u32_nat [of ?n]
    by (simp_all add: add.commute)
  obtain b1 where b1: "wr_bytes (blob w) ?d (uuid ?kc) = Some b1"
    using I n kc wr_not_None(1) [of "blob w" ?d "uuid ?kc"] by auto
  then have s1: "rsize b1 = S" using I wr_bytes_SomeD by auto
  obtain b2 where b2: "wr32 b1 (?d + 16) (word_of_nat ?n) = Some b2"
    using s1 n wr_not_None(2) [of b1 "?d + 16" "word_of_nat ?n"] by auto
  then have s2: "rsize b2 = S" using s1 by (simp add: wr32_SomeD)
  obtain b3 where b3: "wr32 b2 ?n (symcnt ?kc) = Some b3"
    using s2 room wr_not_None(2) [of b2 ?n "symcnt ?kc"] by auto
  then have s3: "rsize b3 = S" using s2 by (simp add: wr32_SomeD)
  note w1 = b1 and w2 = b2 [unfolded wr32_def] and w3 = b3 [unfolded wr32_def]
  have h0: "holds b3 0 (le_bytes 4 cnt)"
    using holds_wr_other [OF holds_wr_other [OF holds_wr_other [OF I(4) w1] w2] w3] room by simp
  have "holds b2 8 ?D"
    using holds_wr_append [OF holds_wr_append [OF I(5) w1] w2] kc by (simp add: put_desc_def)
  then have h8: "holds b3 8 ?D"
    using holds_wr_other [OF _ w3] room kc by (simp add: put_desc_def)
  have hT: "holds b3 T0 (T @ le_bytes 4 (symcnt ?kc))"
    using holds_wr_append [OF holds_wr_other [OF holds_wr_other [OF I(6) w1] w2] w3] room kc by simp
  let ?w = "w\<lparr>blob := b3, kc_desc := word_of_nat (?d + 20), offset := word_of_nat (?n + 4)\<rparr>"
  have "blob_inv S cnt T0 ?D (T @ le_bytes 4 (symcnt ?kc)) ?w"
    using h0 h8 hT s3 kc by (simp add: blob_inv_def put_desc_def)
  from blob_put_syms_spec [OF this, of "syms ?kc"] room kc
  have loop: "wt (for_loop (unat (symcnt ?kc)) 0 (blob_put_sym (syms ?kc)) ?w)
      (blob_inv S cnt T0 ?D (T @ put_table ?kc))"
    by (simp add: put_desc_def put_table_def)
  have "blob_put_kc (word_of_nat S) ks i w =
      ebind (for_loop (unat (symcnt ?kc)) 0 (blob_put_sym (syms ?kc)) ?w)
        (\<lambda>w'. if offset w' \<le> word_of_nat S then Some (Inr w') else Some (Inl Assert_table_end))"
    using i by (simp only: blob_put_kc_def elem_at_Some at simp_thms if_False b1 b2 b3 bind.bind_lunit)
  moreover have "offset w' \<le> word_of_nat S" if "blob_inv S cnt T0 ?D (T @ put_table ?kc) w'" for w'
    using that room unat_u64_nat [of S] unat_u64_nat [of "T0 + length (T @ put_table ?kc)"]
    by (simp add: blob_inv_def word_le_nat_alt length_put_table del: of_nat_add)
  ultimately show ?thesis
    using loop by (auto simp: wp_simps elim!: wt_mono)
qed

text \<open>The whole buffer, when its bound fits 32 bits.\<close>

lemma blob_loop_spec:
  assumes inv: "blob_inv S cnt (8 + 20 * length ks) [] [] w"
    and kcs: "\<And>kc. kc \<in> set ks \<Longrightarrow>
      length (uuid kc) = 16 \<and> unat (symcnt kc) = length (syms kc) \<and> length (syms kc) \<le> m"
    and room: "8 + 20 * length ks + length ks * (4 + 12 * m) \<le> S" "S < 4294967296"
  shows "wt (for_loop (length ks) 0 (blob_put_kc (word_of_nat S) ks) w)
    (blob_inv S cnt (8 + 20 * length ks) (blob_descs ks (length ks)) (blob_tables ks (length ks)))"
proof -
  let ?T0 = "8 + 20 * length ks"
  let ?I = "\<lambda>j. blob_inv S cnt ?T0 (blob_descs ks j) (blob_tables ks j)"
  have len: "length (blob_descs ks j) = 20 * j" if "j \<le> length ks" for j
    using kcs that by (intro length_blob_descs) auto
  have off: "table_offset ks j = ?T0 + length (blob_tables ks j)" for j
    by (simp add: table_offset_def blob_tables_def)
  have le: "table_offset ks j \<le> S" if "j \<le> length ks" for j
  proof -
    have "table_offset ks j \<le> 8 + 20 * length ks + j * (4 + 12 * m)"
      using kcs that by (intro table_offset_le) auto
    also have "\<dots> \<le> 8 + 20 * length ks + length ks * (4 + 12 * m)" using that by simp
    finally show ?thesis using room by simp
  qed
  have "wt (for_loop (length ks) 0 (blob_put_kc (word_of_nat S) ks) w) (?I (0 + length ks))"
  proof (rule wt_for_loop)
    show "?I 0 w" using inv by (simp add: blob_descs_def blob_tables_def)
  next
    fix j t assume j: "0 \<le> j" "j < 0 + length ks" and I: "?I j t"
    then have kc: "length (uuid (ks ! j)) = 16" "unat (symcnt (ks ! j)) = length (syms (ks ! j))"
      using kcs by simp_all
    have "?T0 + length (blob_tables ks j) + 4 + 12 * length (syms (ks ! j)) \<le> S"
      using le [of "Suc j"] off [of j] j by (simp add: table_offset_Suc)
    moreover have "8 + length (blob_descs ks j) + 20 \<le> ?T0" using len [of j] j by simp
    ultimately show "wt (blob_put_kc (word_of_nat S) ks j t) (?I (Suc j))"
      using blob_put_kc_spec [OF I _ kc _ room(2)] j
      by (simp add: blob_descs_Suc blob_tables_Suc off put_desc_def)
  qed
  then show ?thesis by simp
qed

lemma kcs_sizes:
  assumes "kcs_inv st" and "kcs_max_ok st" and "kc \<in> set (kcs st)"
  shows "length (uuid kc) = 16 \<and> unat (symcnt kc) = length (syms kc)
    \<and> length (syms kc) \<le> unat (maxsymcnt st)"
proof -
  have "kc_inv (symstr st) kc" "symcnt kc \<le> maxsymcnt st"
    using assms by (simp_all add: kcs_inv_def kcs_max_ok_def)
  then show ?thesis by (simp add: kc_inv_def word_le_nat_alt)
qed

lemma unat_eq_word:
  "unat (x :: u32) = n \<Longrightarrow> ucast x = (word_of_nat n :: u64)"
  "unat (y :: u64) = n \<Longrightarrow> y = word_of_nat n"
  by auto

lemma blob_size_bound:
  assumes "kcs_inv st" and "blob_bound st < 4294967296"
  shows "blob_size st = word_of_nat (blob_bound st)"
    and "blob_tables_start st = word_of_nat (8 + 20 * length (kcs st))"
proof -
  have n: "unat (kccnt st) = length (kcs st)" "unat (symsize st) = length (symstr st)"
    using assms(1) by (simp_all only: kcs_inv_def)
  note cnt = unat_eq_word(1) [OF n(1)] unat_eq_word(2) [OF n(2)]
  show start: "blob_tables_start st = word_of_nat (8 + 20 * length (kcs st))"
    by (simp add: blob_tables_start_def cnt)
  show "blob_size st = word_of_nat (blob_bound st)"
    by (simp add: blob_size_def start cnt blob_bound_def algebra_simps)
qed

theorem blob_generate_spec:
  assumes inv: "kcs_inv st" "kcs_max_ok st" and room: "blob_bound st < 4294967296"
  shows "wt (kernelcache_symbol_table_generate (Some junk) st)
    (\<lambda>(data, sz). unat sz = length (blob_spec st) \<and> holds data 0 (blob_spec st))"
proof -
  let ?ks = "kcs st" and ?S = "blob_bound st"
  let ?base = "8 + 20 * length ?ks" and ?b = "\<lparr>rsize = ?S, rbyte = junk\<rparr>"
  let ?D = "blob_descs ?ks (length ?ks)" and ?T = "blob_tables ?ks (length ?ks)"
  note sz = kcs_sizes [OF inv] and start = blob_size_bound [OF inv(1) room]
  have cnt: "unat (kccnt st) = length ?ks" "unat (symsize st) = length (symstr st)"
    using inv(1) by (simp_all add: kcs_inv_def)
  have bnd: "?base + length ?ks * (4 + 12 * unat (maxsymcnt st)) + length (symstr st) = ?S"
    by (simp add: blob_bound_def)
  obtain b0 where b0: "wr32 ?b 0 (kccnt st) = Some b0"
    using wr_not_None(2) [of ?b 0 "kccnt st"] bnd by auto
  let ?w = "\<lparr>blob = b0, kc_desc = 4 + 4, offset = blob_tables_start st\<rparr>"
  have "rsize b0 = ?S" using wr32_SomeD [OF b0] by simp
  then have w: "blob_inv ?S (kccnt st) ?base [] [] ?w"
    using holds_wr_same [OF b0 [unfolded wr32_def]] bnd by (simp add: blob_inv_def start)
  have loop: "wt (for_loop (length ?ks) 0 (blob_put_kc (word_of_nat ?S) ?ks) ?w)
      (blob_inv ?S (kccnt st) ?base ?D ?T)"
    using blob_loop_spec [OF w sz] bnd room by simp
  have len: "length ?D = 20 * length ?ks" using sz by (intro length_blob_descs) auto
  have off: "table_offset ?ks (length ?ks) = ?base + length ?T"
    by (simp add: table_offset_def blob_tables_def)
  have "table_offset ?ks (length ?ks) \<le> ?base + length ?ks * (4 + 12 * unat (maxsymcnt st))"
    using sz by (intro table_offset_le) auto
  then have fit: "?base + length ?T + length (symstr st) \<le> ?S" using off bnd by simp
  have strings: "wt (blob_put_strings (word_of_nat ?S) st w)
      (\<lambda>(data, sz). unat sz = length (blob_spec st) \<and> holds data 0 (blob_spec st))"
    if I: "blob_inv ?S (kccnt st) ?base ?D ?T w" for w
  proof -
    let ?n = "?base + length ?T"
    have I: "rsize (blob w) = ?S" "offset w = word_of_nat ?n" "holds (blob w) 0 (le_bytes 4 (kccnt st))"
      "holds (blob w) 8 ?D" "holds (blob w) ?base ?T"
      using I by (simp_all only: blob_inv_def)
    have sym: "symsize st = word_of_nat (length (symstr st))"
      using cnt(2) by (rule unat_eq_word)
    have at: "unat (offset w) = ?n" "ucast (offset w) = (word_of_nat ?n :: u32)"
      "offset w + symsize st = word_of_nat (?n + length (symstr st))"
      using I(2) sym fit room unat_u64_nat [of ?n] ucast_nat [of ?n] by simp_all
    have end_at: "unat (offset w + symsize st) = ?n + length (symstr st)"
      using at(3) fit room unat_u64_nat [of "?n + length (symstr st)"] by simp
    have le: "offset w + symsize st \<le> word_of_nat ?S"
      using end_at fit room unat_u64_nat [of ?S] by (simp add: word_le_nat_alt)
    obtain b1 where b1: "wr32 (blob w) 4 (word_of_nat ?n) = Some b1"
      using I(1) fit wr_not_None(2) [of "blob w" 4 "word_of_nat ?n"] by auto
    obtain b2 where b2: "wr_bytes b1 ?n (bytes_of (symstr st)) = Some b2"
      using I(1) fit wr32_SomeD [OF b1] wr_not_None(1) [of b1 ?n "bytes_of (symstr st)"] by auto
    have run: "blob_put_strings (word_of_nat ?S) st w = Some (Inr (b2, offset w + symsize st))"
      using le by (simp add: blob_put_strings_def at(1,2) b1 b2 cnt(2) del: of_nat_add)
    note w1 = b1 [unfolded wr32_def]
    have "holds b1 0 (le_bytes 4 (kccnt st) @ le_bytes 4 (word_of_nat ?n :: u32))"
      using holds_wr_append [OF I(3) w1] by simp
    then have "holds b2 0 (le_bytes 4 (kccnt st) @ le_bytes 4 (word_of_nat ?n :: u32))"
      using holds_wr_other [OF _ b2] by simp
    moreover have "holds b2 8 ?D"
      using holds_wr_other [OF holds_wr_other [OF I(4) w1] b2] len by simp
    moreover have "holds b2 ?base (?T @ bytes_of (symstr st))"
      using holds_wr_append [OF holds_wr_other [OF I(5) w1] b2] by simp
    ultimately have "holds b2 0 (blob_spec st)"
      by (simp add: blob_spec_def region_simps off len add.assoc)
    moreover have "length (blob_spec st) = ?n + length (symstr st)"
      by (simp add: blob_spec_def len)
    ultimately show ?thesis
      by (simp add: run wp_simps end_at)
  qed
  have "kernelcache_symbol_table_generate (Some junk) st =
      ebind (for_loop (length ?ks) 0 (blob_put_kc (word_of_nat ?S) ?ks) ?w)
        (blob_put_strings (word_of_nat ?S) st)"
    using unat_u64_nat [OF room] by (simp add: kernelcache_symbol_table_generate_def start b0 cnt Let_def)
  then show ?thesis
    using loop strings by (auto simp: wp_simps elim!: wt_mono)
qed

end
