(* ===== verification/Symbols_Props.thy ===== *)
theory Symbols_Props
  imports Symbols_Render Symbol_Blob
begin

text \<open>
  The properties of the loader's symbols files: what the parsers read, that they stay inside the
  mapped file, that reading directories refines the abstract table and releases what it opens, and
  that the serialised table has the documented format. The witnesses run on one rendered file in
  one directory.
\<close>

section \<open>Samples\<close>

definition sample_uuid :: bytes where
  "sample_uuid = [1, 2, 3, 4, 5, 6, 7, 8, 9, 10, 11, 12, 13, 14, 15, 16]"

definition sample_symbols :: "(string \<times> u64) list" where
  "sample_symbols = [(''_foo'', 0xFFFFFFF007004000), (''foo'', 5)]"

definition sample_file :: string where
  "sample_file = render_header sample_uuid [''iPhone''] @ concat (map render_symbol sample_symbols)"

definition sample_os :: host_os where
  "sample_os = \<lparr>os_open = (\<lambda>path. if path = ''d/a.txt'' then Some 3 else None),
     os_fstat = (\<lambda>fd. Some (length sample_file)),
     os_mmap = (\<lambda>fd n. if n \<le> length sample_file then Some sample_file else None),
     os_opendir = (\<lambda>path. if path = ''d''
       then Some [\<lparr>d_regular = True, d_name = ''a.txt''\<rparr>, \<lparr>d_regular = True, d_name = ''.b.txt''\<rparr>]
       else None)\<rparr>"

definition sample_state :: kcs_state where
  "sample_state = \<lparr>kcs = [\<lparr>uuid = sample_uuid, symcnt = 2,
       syms = [\<lparr>off = 0, addr = 0xFFFFFFF007004000\<rparr>, \<lparr>off = 1, addr = 5\<rparr>]\<rparr>],
     kccnt = 1, maxsymcnt = 2, symstr = ''_foo'' @ [CHR 0x00], symsize = 5\<rparr>"

lemma sample_directories: "fst (kcs_update_directories sample_os [''x'', ''d''] kcs_empty) = Inr sample_state"
  by code_simp

lemma sample_process: "kcs_process_file (sample_file, length sample_file) kcs_empty = Inr sample_state"
  by code_simp

lemma sample_file_small: "length sample_file < 2 ^ 63"
proof -
  have "length sample_file < 200" by code_simp
  then show ?thesis by simp
qed

lemma sample_os_ok: "os_sound sample_os" "os_small sample_os"
proof -
  show "os_small sample_os" using sample_file_small by (simp add: os_small_def sample_os_def)
qed (simp add: os_sound_def sample_os_def split: if_splits)

lemma sample_state_ok: "kcs_inv sample_state" "kcs_max_ok sample_state" "blob_fits sample_state"
  "blob_bound sample_state < 4294967296"
  by (simp_all add: kcs_inv_def kcs_max_ok_def blob_fits_def blob_bound_def sample_state_def kc_inv_def
      sym_ok_def sample_uuid_def)

section \<open>Reading text\<close>

text \<open>A parser at the start of a file of \<open>n\<close> bytes.\<close>

abbreviation parser_on :: "string \<Rightarrow> nat \<Rightarrow> text_parser" where
  "parser_on data n \<equiv> \<lparr>tp_mem = data, tp_p = 0, tp_e = n\<rparr>"

lemma parser_on: "n \<le> length data \<Longrightarrow> tp_wf (parser_on data n) \<and> tp_rest (parser_on data n) = take n data"
  by (simp add: tp_wf_def tp_rest_def)

text \<open>A header printed in the documented format, for any 16-byte UUID and any device names of one
  line, is read back by the real parser as that UUID, and the parser stops exactly behind it, whatever
  the mapping holds beyond the end of the file.\<close>

theorem header_roundtrip:
  assumes "length u = 16" and "\<forall>d \<in> set devices. CHR ''\<newline>'' \<notin> set d"
    and "text = render_header u devices @ s"
  shows "fst (parse_kernelcache_symbols_header (parser_on (text @ beyond) (length text))) = Inr u
    \<and> tp_rest (snd (parse_kernelcache_symbols_header (parser_on (text @ beyond) (length text)))) = s"
  using parser_on [of "length text" "text @ beyond"] header_roundtrip_text [OF assms(1,2)] assms(3)
  by (simp add: header.result header.rest)

theorem header_roundtrip_witness:
  "fst (parse_kernelcache_symbols_header (parser_on sample_file (length sample_file))) = Inr sample_uuid"
  using header_roundtrip [of sample_uuid "[''iPhone'']" sample_file
      "concat (map render_symbol sample_symbols)" "[]"]
  by (simp add: sample_file_def sample_uuid_def)

text \<open>A symbol line, the name an identifier and any 64-bit address, is read back by the real parser
  as that name and that address, and the parser stops at the start of the next line.\<close>

theorem symbol_roundtrip:
  assumes "ident_name name" and "text = render_symbol (name, a) @ s"
  shows "fst (parse_kernelcache_symbols_symbol (parser_on (text @ beyond) (length text)))
      = Inr (Some (name, a))
    \<and> tp_rest (snd (parse_kernelcache_symbols_symbol (parser_on (text @ beyond) (length text)))) = s"
  using parser_on [of "length text" "text @ beyond"] symbol_roundtrip_text [OF assms(1)] assms(2)
  by (simp add: symbol.result symbol.rest)

theorem symbol_roundtrip_witness:
  "fst (parse_kernelcache_symbols_symbol
     (parser_on (render_symbol (''_foo'', 5)) (length (render_symbol (''_foo'', 5)))))
   = Inr (Some (''_foo'', 5))"
proof -
  have "ident_name ''_foo''" by (simp add: ident_name_def is_ident_def)
  from symbol_roundtrip [OF this, of "render_symbol (''_foo'', 5)" 5 "[]" "[]"] show ?thesis by simp
qed

text \<open>C22: the header and the symbol parser only depend on the bytes before the end of the file, never
  move the position back or more than one past the end, and keep the end where it is.\<close>

theorem parsers_stay_in_file:
  assumes "tp_wf tp" and "take (tp_e tp) m = take (tp_e tp) (tp_mem tp)" and "tp_e tp \<le> length m"
  shows "fst (parse_kernelcache_symbols_header (tp\<lparr>tp_mem := m\<rparr>)) = fst (parse_kernelcache_symbols_header tp)
    \<and> fst (parse_kernelcache_symbols_symbol (tp\<lparr>tp_mem := m\<rparr>)) = fst (parse_kernelcache_symbols_symbol tp)
    \<and> (\<forall>t \<in> {snd (parse_kernelcache_symbols_header tp), snd (parse_kernelcache_symbols_symbol tp)}.
         tp_p tp \<le> tp_p t \<and> tp_p t \<le> Suc (tp_e tp) \<and> tp_e t = tp_e tp \<and> tp_mem t = tp_mem tp)"
  using header.ignores_beyond_end [OF assms] symbol.ignores_beyond_end [OF assms]
    header.in_bounds [OF assms(1)] symbol.in_bounds [OF assms(1)]
  by (simp add: header.forward header.fixed_end header.mem symbol.forward symbol.fixed_end symbol.mem)

theorem parsers_stay_in_file_witness:
  "fst (parse_kernelcache_symbols_symbol (parser_on ''a 0x123'' 3))
   = fst (parse_kernelcache_symbols_symbol (parser_on ''a 0#zzz'' 3))"
  using parsers_stay_in_file [of "parser_on ''a 0#zzz'' 3" "''a 0x123''"]
  by (simp add: tp_wf_def)

section \<open>The intermediate table\<close>

text \<open>The symbols of a printed list, up to a line that starts none.\<close>

lemma sem_symbols_render:
  assumes "\<forall>x \<in> set xs. ident_name (fst x)"
  shows "sem_symbols (concat (map render_symbol xs)) = xs"
  using assms
proof (induction xs)
  case Nil
  have "sem_symbol [] = (Inr None, [])"
    by (simp add: sem_symbol_def)
  then show ?case by (subst sem_symbols.simps) simp
next
  case (Cons x xs)
  then have "sem_symbol (render_symbol x @ concat (map render_symbol xs))
      = (Inr (Some x), concat (map render_symbol xs))"
    using symbol_roundtrip_text [of "fst x" "snd x"] by simp
  with Cons show ?case by (subst sem_symbols.simps) simp
qed

text \<open>C21: reading a printed file into an empty table gives one kernelcache, the UUID of the file with
  exactly its symbols in order (names interned in the string blob, possibly shared), and the array,
  counter and blob invariants hold.\<close>

theorem rendered_file_table:
  assumes "length u = 16" and "\<forall>d \<in> set devices. CHR ''\<newline>'' \<notin> set d"
    and "\<forall>x \<in> set xs. ident_name (fst x)"
    and "text = render_header u devices @ concat (map render_symbol xs)" and "length text < 2 ^ 63"
    and "kcs_process_file (text, length text) kcs_empty = Inr st" and "blob_fits st"
  shows "kcs_inv st \<and> kcs_max_ok st \<and> kcs_abs st = [(u, xs)]"
proof -
  have "spec_file text (kcs_abs kcs_empty) = [(u, xs)]"
    using header_roundtrip_text [OF assms(1,2)] sem_symbols_render [OF assms(3)]
    by (simp add: assms(4) spec_file_def table_append_def kcs_abs_def kcs_empty_def)
  with kcs_process_file_spec [OF assms(6) order_refl assms(5) kcs_inv_empty assms(7)]
  show ?thesis by simp
qed

theorem rendered_file_table_witness: "kcs_abs sample_state = [(sample_uuid, sample_symbols)]"
proof -
  have "kcs_inv sample_state \<and> kcs_max_ok sample_state \<and> kcs_abs sample_state = [(sample_uuid, sample_symbols)]"
  proof (rule rendered_file_table [where devices = "[''iPhone'']", OF _ _ _ sample_file_def _ sample_process])
    show "length sample_file < 2 ^ 63" by (rule sample_file_small)
    show "\<forall>x \<in> set sample_symbols. ident_name (fst x)"
      by (simp add: sample_symbols_def ident_name_def is_ident_def)
  qed (simp_all add: sample_uuid_def sample_state_ok)
  then show ?thesis by blast
qed

text \<open>C11: reading directories refines the specification: when the loader gets through, the table
  stands for the fold of \<open>spec_file\<close> over the texts of the eligible files of all directories in
  order, and the invariant is kept, for any operating system whose mappings are as long as asked
  for.\<close>

theorem update_directories_refines:
  assumes "fst (kcs_update_directories os ps st) = Inr st'"
    and "os_sound os" and "os_small os" and "kcs_inv st" and "kcs_max_ok st" and "blob_fits st'"
  shows "kcs_inv st' \<and> kcs_max_ok st' \<and> kcs_abs st' = fold spec_file (all_texts os ps) (kcs_abs st)"
  by (rule kcs_update_directories_spec [OF assms])

theorem update_directories_refines_witness:
  "kcs_abs sample_state = fold spec_file (all_texts sample_os [''x'', ''d'']) []"
  using update_directories_refines [OF sample_directories sample_os_ok kcs_inv_empty sample_state_ok(3)]
  by (simp add: kcs_abs_def kcs_empty_def)

text \<open>No matter which opens, stats or mappings fail, after reading the directories every
  descriptor, mapping and directory that was opened has been released.\<close>

theorem update_directories_release:
  assumes "kcs_update_directories os ps st = (Inr st', ev)"
  shows "held hs ev = hs"
  using assms
proof (induction ps arbitrary: st ev)
  case Nil
  then show ?case by simp
next
  case (Cons p ps)
  show ?case
  proof (cases "os_opendir os p")
    case None
    with Cons show ?thesis
      by (auto simp: kernelcache_symbol_table_update_directory_def map_prod_def split: prod.splits)
  next
    case (Some dps)
    then obtain st1 ev1 ev2 where "kcs_update_entries os p dps st = (Inr st1, ev1)"
      "kcs_update_directories os ps st1 = (Inr st', ev2)"
      "ev = Open_dir p # ev1 @ [Close_dir p] @ ev2"
      using Cons.prems
      by (auto simp: kernelcache_symbol_table_update_directory_def map_prod_def split: prod.splits sum.splits)
    with Cons.IH held_kcs_update_entries [of os p dps st st1 ev1 "Open_dir p # hs"] show ?thesis
      by (simp add: held_append)
  qed
qed

theorem update_directories_release_witness:
  "held [Open_fd 9] (snd (kcs_update_directories sample_os [''x'', ''d''] kcs_empty)) = [Open_fd 9]"
  using update_directories_release [of sample_os "[''x'', ''d'']" kcs_empty sample_state _ "[Open_fd 9]"]
    sample_directories by (metis prod.collapse)

text \<open>C14: serialising the table never faults or trips an assertion when it fits 32 bits, whatever the
  fresh buffer holds, and what it wrote is byte for byte the documented upload format.\<close>

theorem generate_writes_format:
  assumes "kcs_inv st" and "kcs_max_ok st" and "blob_bound st < 4294967296"
  shows "\<exists>data sz. kernelcache_symbol_table_generate (Some junk) st = Some (Inr (data, sz))
    \<and> unat sz = length (blob_spec st) \<and> holds data 0 (blob_spec st)"
  using blob_generate_spec [OF assms, of junk] by (auto simp: wt_def)

theorem generate_writes_format_witness:
  "\<exists>data sz. kernelcache_symbol_table_generate (Some (\<lambda>_. 0xAA)) sample_state = Some (Inr (data, sz))
    \<and> holds data 0 (blob_spec sample_state)"
  using generate_writes_format [OF sample_state_ok(1,2,4), of "\<lambda>_. 0xAA"] by blast

end
