(* ===== verification/Symbol_Roundtrip.thy ===== *)
theory Symbol_Roundtrip
  imports Symbol_Blob Kernelcache_Tables
begin

text \<open>
  The loader and the pongoOS module meet at the upload format. A table that
  \<open>kernelcache_symbol_table_generate\<close> serialises is accepted by \<open>command_kernelcache_symbols\<close>
  for every kernelcache it describes, and a lookup then answers with the address the symbols
  files gave for that kernelcache.
\<close>

section \<open>Reading the serialised table\<close>

lemma blob_descs_split:
  "j < n \<Longrightarrow> \<exists>r. blob_descs ks n = blob_descs ks j @ put_desc (uuid (ks ! j), word_of_nat (table_offset ks j)) @ r"
proof -
  assume j: "j < n"
  then have "[0..<n] = [0..<j] @ j # [Suc j..<n]"
    by (metis le0 less_imp_le upt_add_eq_append upt_conv_Cons add_diff_inverse_nat not_less)
  then show ?thesis by (simp add: blob_descs_def)
qed

lemma blob_tables_split:
  "j < length ks \<Longrightarrow> \<exists>r. blob_tables ks (length ks) = blob_tables ks j @ put_table (ks ! j) @ r"
  using arg_cong [OF id_take_nth_drop [of j ks], of "\<lambda>xs. concat (map put_table xs)"]
  by (simp add: blob_tables_def)

lemma holds_word: "holds r a (le_bytes 4 (w :: u32)) \<Longrightarrow> le_word (rslice r a 4) = w"
  "holds r a (le_bytes 8 (v :: u64)) \<Longrightarrow> le_word (rslice r a 8) = v"
  by (auto simp: holds_def)

text \<open>A region that starts with the serialised form of an intermediate table.\<close>

definition serialised :: "kcs_state \<Rightarrow> region \<Rightarrow> nat \<Rightarrow> bool" where
  "serialised st data sz \<longleftrightarrow>
     kcs_inv st \<and> kcs_max_ok st \<and> blob_bound st < 4294967296
     \<and> holds data 0 (blob_spec st) \<and> sz = length (blob_spec st)"

lemma serialised_kc:
  assumes "serialised st data sz" and "i < length (kcs st)"
  shows "length (uuid (kcs st ! i)) = 16" and "unat (symcnt (kcs st ! i)) = length (syms (kcs st ! i))"
  using assms kcs_sizes [of st "kcs st ! i"] by (simp_all add: serialised_def)

lemma serialised_descs_length:
  assumes "serialised st data sz" and "i \<le> length (kcs st)"
  shows "length (blob_descs (kcs st) i) = 20 * i"
  using assms kcs_sizes [of st] by (intro length_blob_descs) (auto simp: serialised_def)

lemma strings_at:
  "table_offset ks (length ks) = 8 + 20 * length ks + length (blob_tables ks (length ks))"
  by (simp add: table_offset_def blob_tables_def)

lemma table_offset_le_strings: "i \<le> length ks \<Longrightarrow> table_offset ks i \<le> table_offset ks (length ks)"
  by (metis append_take_drop_id concat_append le_add1 length_append map_append nat_add_left_cancel_le
      table_offset_def take_all order_refl)

lemma serialised_size:
  assumes "serialised st data sz"
  shows "sz = table_offset (kcs st) (length (kcs st)) + length (symstr st)" and "sz < 4294967296"
proof -
  show sz: "sz = table_offset (kcs st) (length (kcs st)) + length (symstr st)"
    using serialised_descs_length [OF assms, of "length (kcs st)"] assms
    by (simp add: serialised_def blob_spec_def strings_at)
  have "table_offset (kcs st) (length (kcs st))
      \<le> 8 + 20 * length (kcs st) + length (kcs st) * (4 + 12 * unat (maxsymcnt st))"
    using kcs_sizes [of st] assms by (intro table_offset_le) (auto simp: serialised_def)
  then show "sz < 4294967296"
    using sz assms by (simp add: serialised_def blob_bound_def)
qed

lemma serialised_parts:
  assumes "serialised st data sz"
  shows "holds data 0 (le_bytes 4 (kccnt st))"
    and "holds data 4 (le_bytes 4 (word_of_nat (table_offset (kcs st) (length (kcs st))) :: u32))"
    and "holds data 8 (blob_descs (kcs st) (length (kcs st)))"
    and "holds data (8 + 20 * length (kcs st)) (blob_tables (kcs st) (length (kcs st)))"
    and "holds data (table_offset (kcs st) (length (kcs st))) (bytes_of (symstr st))"
  using assms serialised_descs_length [OF assms, of "length (kcs st)"]
  by (simp_all add: serialised_def blob_spec_def region_simps strings_at add.assoc)

lemma serialised_desc:
  assumes s: "serialised st data sz" and j: "j < length (kcs st)"
  shows "rslice data (8 + 20 * j) 16 = uuid (kcs st ! j)"
    and "rd32 data (8 + 20 * j + 16) = Some (word_of_nat (table_offset (kcs st) j))"
proof -
  obtain r where "blob_descs (kcs st) (length (kcs st)) = blob_descs (kcs st) j
      @ put_desc (uuid (kcs st ! j), word_of_nat (table_offset (kcs st) j)) @ r"
    using blob_descs_split [OF j] by blast
  then have h: "holds data (8 + 20 * j) (uuid (kcs st ! j))"
    "holds data (8 + 20 * j + 16) (le_bytes 4 (word_of_nat (table_offset (kcs st) j) :: u32))"
    using serialised_parts(3) [OF s] serialised_descs_length [OF s, of j] j serialised_kc(1) [OF s j]
    by (simp_all add: region_simps put_desc_def del: of_nat_add)
  from h(1) serialised_kc(1) [OF s j] show "rslice data (8 + 20 * j) 16 = uuid (kcs st ! j)"
    by (auto simp: holds_def)
  from h(2) show "rd32 data (8 + 20 * j + 16) = Some (word_of_nat (table_offset (kcs st) j))"
    by (rule holds_rd(1))
qed

lemma serialised_table:
  assumes s: "serialised st data sz" and j: "j < length (kcs st)"
  defines "p \<equiv> table_offset (kcs st) j" and "ss \<equiv> syms (kcs st ! j)"
  shows "rd32 data p = Some (symcnt (kcs st ! j))"
    and "i < length ss \<Longrightarrow> sym_off data (p + 4) i = off (ss ! i)"
    and "i < length ss \<Longrightarrow> sym_addr data (p + 4) i = addr (ss ! i)"
    and "p + 4 + 12 * length ss \<le> sz"
proof -
  obtain r where "blob_tables (kcs st) (length (kcs st)) = blob_tables (kcs st) j @ put_table (kcs st ! j) @ r"
    using blob_tables_split [OF j] by blast
  moreover have "8 + 20 * length (kcs st) + length (blob_tables (kcs st) j) = p"
    by (simp add: p_def table_offset_def blob_tables_def)
  ultimately have h: "holds data p (le_bytes 4 (symcnt (kcs st ! j)))"
    "holds data (p + 4) (concat (map put_sym ss))"
    using serialised_parts(4) [OF s] by (simp_all add: region_simps put_table_def ss_def)
  from h(1) show "rd32 data p = Some (symcnt (kcs st ! j))"
    by (rule holds_rd(1))
  show "p + 4 + 12 * length ss \<le> sz"
    using table_offset_le_strings [of "Suc j" "kcs st"] j serialised_size(1) [OF s]
    by (simp add: table_offset_Suc p_def ss_def)
  assume i: "i < length ss"
  note e = entry.holds_chunk [OF h(2) i, unfolded put_sym_def holds_append]
  show "sym_off data (p + 4) i = off (ss ! i)"
    using e holds_word(1) by (simp add: sym_off_def)
  show "sym_addr data (p + 4) i = addr (ss ! i)"
    using e holds_word(2) by (simp add: sym_addr_def)
qed

section \<open>The command on a serialised table\<close>

lemma serialised_find:
  assumes s: "serialised st data sz" and i: "i < length (kcs st)" and u: "u = uuid (kcs st ! i)"
    and size: "sz \<le> rsize data" and j: "j \<le> i"
  shows "find_descriptor data sz u (length (kcs st) - j) (8 + 20 * j) = Some (Inr (table_offset (kcs st) i))"
  using j
proof (induction rule: inc_induct)
  have cmp: "\<exists>d. c_memcmp data (8 + 20 * m) (region_of u) 0 16 = Some d
      \<and> (d = 0 \<longleftrightarrow> uuid (kcs st ! m) = u)" and room: "8 + 20 * m + 20 \<le> sz"
    and off: "table_offset (kcs st) m \<le> sz"
      "unat (word_of_nat (table_offset (kcs st) m) :: u32) = table_offset (kcs st) m"
    if m: "m < length (kcs st)" for m
  proof -
    note z = serialised_size [OF s] and le = table_offset_le_strings [of m "kcs st"]
    show room: "8 + 20 * m + 20 \<le> sz" using z strings_at [of "kcs st"] m by simp
    show "table_offset (kcs st) m \<le> sz"
      "unat (word_of_nat (table_offset (kcs st) m) :: u32) = table_offset (kcs st) m"
      using z le m by (simp_all add: unat_of_nat)
    show "\<exists>d. c_memcmp data (8 + 20 * m) (region_of u) 0 16 = Some d \<and> (d = 0 \<longleftrightarrow> uuid (kcs st ! m) = u)"
      using memcmp_spec [of "8 + 20 * m" 16 data 0 "region_of u"] room size serialised_desc(1) [OF s m]
        serialised_kc(1) [OF s i] u by (simp add: rslice_region_of)
  qed
  {
    case base
    then show ?case
      using cmp [OF i] room [OF i] off [OF i] u i serialised_desc(2) [OF s i]
      by (cases "length (kcs st) - i") (auto simp: get_u32_def simp del: of_nat_add)
  next
    case (step m)
    then have m: "m < length (kcs st)" using i by simp
    have "uuid (kcs st ! m) \<noteq> u"
      using s u i step m by (auto simp: serialised_def kcs_inv_def distinct_conv_nth)
    moreover have "length (kcs st) - m = Suc (length (kcs st) - Suc m)" using m by simp
    ultimately show ?case
      using cmp [OF m] room [OF m] step serialised_desc(2) [OF s m]
      by (auto simp: get_u32_def simp del: of_nat_add)
  }
qed

lemma serialised_select:
  assumes s: "serialised st data sz" and i: "i < length (kcs st)" and u: "u = uuid (kcs st ! i)"
    and size: "sz \<le> rsize data"
  shows "select_kernelcache data sz u = Some (Inr (symcnt (kcs st ! i),
    word_of_nat (table_offset (kcs st) (length (kcs st))), table_offset (kcs st) i + 4))"
proof -
  have "unat (kccnt st) = length (kcs st)" using s by (simp add: serialised_def kcs_inv_def)
  moreover have "8 \<le> sz" using serialised_size(1) [OF s] strings_at [of "kcs st"] by simp
  moreover have "find_descriptor data sz u (length (kcs st)) 8 = Some (Inr (table_offset (kcs st) i))"
    using serialised_find [OF s i u size, of 0] by simp
  ultimately show ?thesis
    using holds_rd(1) [OF serialised_parts(1) [OF s]] holds_rd(1) [OF serialised_parts(2) [OF s]]
      serialised_table(1,4) [OF s i]
    by (simp add: select_kernelcache_def get_u32_def del: of_nat_add)
qed

lemma command_success:
  assumes ok: "pongo_ok ps"
    and sel: "select_kernelcache (loader_xfer_recv_data ps) (unat (loader_xfer_recv_count ps)) (current_uuid ps)
      = Some (Inr (c, strings, p))"
    and m: "malloc (table_alloc_size c (symbol_strings_size (loader_xfer_recv_count ps) strings)) = Some (base, junk)"
    and fill: "fill_table (loader_xfer_recv_data ps) (loader_xfer_recv_count ps) c strings p base
      (chain_head (kernelcache_symbol_table ps))
      \<lparr>rsize = unat (table_alloc_size c (symbol_strings_size (loader_xfer_recv_count ps) strings)), rbyte = junk\<rparr>
      = Some (Inr o6)"
  obtains ps' where "command_kernelcache_symbols malloc ps = Some (Inr c, ps')"
    and "kernelcache_symbol_table ps' = (base, o6) # kernelcache_symbol_table ps"
proof -
  let ?ps = "ps\<lparr>loader_xfer_recv_count := 0\<rparr>"
  obtain u b where find: "kernelcache_find_uuid ?ps = Some (?ps\<lparr>kernelcache_uuid := u, kernelcache_uuid_found := b\<rparr>)"
    by (rule kernelcache_find_uuid_total [of ?ps]) (use ok in \<open>auto simp: pongo_ok_def\<close>)
  have "current_uuid ps = u" by (simp add: current_uuid_def find)
  with find sel m fill that show thesis
    by (simp add: command_kernelcache_symbols_def Let_def)
qed

text \<open>The entries of kernelcache \<open>i\<close> as the bytes of their names.\<close>

definition kc_entries :: "kcs_state \<Rightarrow> nat \<Rightarrow> (bytes \<times> u64) list" where
  "kc_entries st i = map (\<lambda>(n, a). (bytes_of n, a)) (snd (kcs_abs st ! i))"

lemma bytes_of_zero: "takeWhile (\<lambda>c. c \<noteq> 0) (bytes_of s) = bytes_of (takeWhile not_zero s)"
  by (induction s) simp_all

lemma map_of_bytes: "map_of (map (\<lambda>(n, a). (bytes_of n, a)) xs) (bytes_of name) = map_of xs name"
  by (induction xs) (auto simp: bytes_of_eq_iff)

lemma serialised_entries:
  assumes s: "serialised st data sz" and i: "i < length (kcs st)"
    and str: "str = bytes_of (symstr st)"
  shows "data_entries data (table_offset (kcs st) i + 4) str (length (syms (kcs st ! i))) = kc_entries st i"
proof (rule nth_equalityI)
  show "length (data_entries data (table_offset (kcs st) i + 4) str (length (syms (kcs st ! i))))
      = length (kc_entries st i)"
    using i by (simp add: data_entries_def kc_entries_def kcs_abs_def kc_abs_def)
next
  fix j assume "j < length (data_entries data (table_offset (kcs st) i + 4) str (length (syms (kcs st ! i))))"
  then have j: "j < length (syms (kcs st ! i))" by (simp add: data_entries_def)
  then show "data_entries data (table_offset (kcs st) i + 4) str (length (syms (kcs st ! i))) ! j = kc_entries st i ! j"
    using i serialised_table(2,3) [OF s i j]
    by (simp add: data_entries_def data_entry_def kc_entries_def kcs_abs_def kc_abs_def str sym_name_def
        bytes_of_zero drop_map)
qed

lemma serialised_upload_ok:
  assumes s: "serialised st data sz" and i: "i < length (kcs st)" and ne: "symstr st \<noteq> []"
    and k: "unat k = length (symstr st)"
  shows "upload_ok data (table_offset (kcs st) i + 4) sz k (length (syms (kcs st ! i)))"
    and "\<And>j. j < length (syms (kcs st ! i)) \<Longrightarrow>
      unat (sym_off data (table_offset (kcs st) i + 4) j) < length (symstr st)"
proof -
  have inv: "kcs_inv st" using s by (simp add: serialised_def)
  have off: "unat (sym_off data (table_offset (kcs st) i + 4) j) < length (symstr st)"
    if "j < length (syms (kcs st ! i))" for j
  proof -
    have "kc_inv (symstr st) (kcs st ! i)" using inv i by (simp add: kcs_inv_def)
    then show ?thesis
      using that serialised_table(2) [OF s i that] by (simp add: kc_inv_def sym_ok_bound)
  qed
  then show "\<And>j. j < length (syms (kcs st ! i)) \<Longrightarrow>
      unat (sym_off data (table_offset (kcs st) i + 4) j) < length (symstr st)" .
  have small: "length (symstr st) < 4294967296"
    using serialised_size [OF s] by simp
  have "ucast (sym_off data (table_offset (kcs st) i + 4) j + 1) \<le> k"
    if "j < length (syms (kcs st ! i))" for j
  proof -
    have "unat (sym_off data (table_offset (kcs st) i + 4) j + 1) \<le> length (symstr st)"
      using off [OF that] small by (simp add: unat_word_ariths)
    then show ?thesis
      using small by (simp add: word_le_nat_alt k unsigned_ucast_eq take_bit_nat_eq_self)
  qed
  moreover have "table_offset (kcs st) i + 4 + 12 * Suc j \<le> sz" if "j < length (syms (kcs st ! i))" for j
    using serialised_table(4) [OF s i] that by simp
  moreover have "rbyte data (sz - 1) = 0"
  proof -
    let ?o = "table_offset (kcs st) (length (kcs st))"
    have "rslice data ?o (length (symstr st)) = bytes_of (symstr st)"
      using serialised_parts(5) [OF s] by (simp add: holds_def)
    then have "rbyte data (?o + length (symstr st) - 1) = last (bytes_of (symstr st))"
      using ne rslice_last [of "length (symstr st)" data ?o] by simp
    then show ?thesis
      using ne inv serialised_size(1) [OF s] by (simp add: last_map kcs_inv_def)
  qed
  moreover have "unat k \<ge> 1" using ne k by (cases "symstr st") simp_all
  ultimately show "upload_ok data (table_offset (kcs st) i + 4) sz k (length (syms (kcs st ! i)))"
    by (simp add: upload_ok_def entry_ok_def)
qed

theorem serialised_roundtrip:
  assumes ok: "pongo_ok ps"
    and s: "serialised st (loader_xfer_recv_data ps) (unat (loader_xfer_recv_count ps))"
    and i: "i < length (kcs st)" and u: "current_uuid ps = uuid (kcs st ! i)"
    and ne: "symstr st \<noteq> []" and malloc: "\<And>n. malloc n \<noteq> None"
  obtains ps' t where "command_kernelcache_symbols malloc ps = Some (Inr (symcnt (kcs st ! i)), ps')"
    and "kernelcache_symbol_table ps' = t # kernelcache_symbol_table ps"
    and "table_rep t (kc_entries st i)"
proof -
  let ?data = "loader_xfer_recv_data ps" and ?count = "loader_xfer_recv_count ps"
  let ?so = "table_offset (kcs st) (length (kcs st))" and ?c = "symcnt (kcs st ! i)"
  let ?p = "table_offset (kcs st) i + 4" and ?n = "length (syms (kcs st ! i))"
  let ?strings = "word_of_nat ?so :: u32"
  let ?k = "symbol_strings_size ?count ?strings"
  have size: "unat ?count \<le> rsize ?data" using ok by (simp add: pongo_ok_def)
  have sz: "unat ?count = ?so + length (symstr st)" "?so < 4294967296"
    using serialised_size [OF s] by simp_all
  then have so: "unat ?strings = ?so" by (simp add: unat_of_nat)
  have le: "unat ?strings \<le> unat ?count" using so sz by simp
  have k: "unat ?k = length (symstr st)" using strings_size [OF le] so sz by simp
  have c: "unat ?c = ?n" using serialised_kc(2) [OF s i] .
  note sel = serialised_select [OF s i u size]
  obtain base junk where m: "malloc (table_alloc_size ?c ?k) = Some (base, junk)"
    using malloc [of "table_alloc_size ?c ?k"] by auto
  let ?str = "rslice ?data (unat ?strings) (unat ?k)"
  have str: "?str = bytes_of (symstr st)"
    using serialised_parts(5) [OF s] by (simp add: holds_def so k)
  note up = serialised_upload_ok [OF s i ne k]
  obtain o6 where fill: "fill_table ?data ?count ?c ?strings ?p base (chain_head (kernelcache_symbol_table ps))
      \<lparr>rsize = unat (table_alloc_size ?c ?k), rbyte = junk\<rparr> = Some (Inr o6)"
    and filled: "table_done ?data ?p (unat ?count) ?k base ?n ?str o6"
    using fill_table_spec(2) [OF le size, where c = ?c and p = ?p and base = base and obj = "\<lparr>rsize = unat (table_alloc_size ?c ?k), rbyte = junk\<rparr>"] up(1)
    by (auto simp: c wt_def)
  have "table_rep (base, o6) (data_entries ?data ?p ?str ?n)"
    by (rule table_done_rep [OF filled])
      (use up(2) ne s c unat_u32_less [of ?c] in \<open>auto simp: str serialised_def kcs_inv_def last_map\<close>)
  then have "table_rep (base, o6) (kc_entries st i)"
    using serialised_entries [OF s i str] by simp
  moreover obtain ps' where "command_kernelcache_symbols malloc ps = Some (Inr ?c, ps')"
    and "kernelcache_symbol_table ps' = (base, o6) # kernelcache_symbol_table ps"
    by (rule command_success [where malloc = malloc, OF ok sel m fill])
  ultimately show thesis by (rule that [rotated 2])
qed

text \<open>The lookup after the command has accepted a serialised table.\<close>

lemma serialised_lookup:
  assumes ok: "pongo_ok ps"
    and s: "serialised st (loader_xfer_recv_data ps) (unat (loader_xfer_recv_count ps))"
    and i: "i < length (kcs st)" and u: "current_uuid ps = uuid (kcs st ! i)"
    and ne: "symstr st \<noteq> []" and malloc: "\<And>n. malloc n \<noteq> None"
  shows "\<exists>ps'. command_kernelcache_symbols malloc ps = Some (Inr (symcnt (kcs st ! i)), ps')
    \<and> (\<forall>name. CHR 0x00 \<notin> set name \<longrightarrow>
         kernelcache_symbol_table_lookup ps' (bytes_of name) =
           (case map_of (snd (kcs_abs st ! i)) name of
              Some a \<Rightarrow> Some a
            | None \<Rightarrow> kernelcache_symbol_table_lookup ps (bytes_of name)))"
proof (rule serialised_roundtrip [where malloc = malloc, OF ok s i u ne malloc])
  fix ps' t
  assume run: "command_kernelcache_symbols malloc ps = Some (Inr (symcnt (kcs st ! i)), ps')"
    and chain: "kernelcache_symbol_table ps' = t # kernelcache_symbol_table ps"
    and rep: "table_rep t (kc_entries st i)"
  obtain ess where ess: "chain_rep (kernelcache_symbol_table ps) ess"
    using ok by (auto simp: pongo_ok_def)
  then have both: "chain_rep (kernelcache_symbol_table ps') (kc_entries st i # ess)"
    using rep by (simp add: chain chain_rep_def)
  have "kernelcache_symbol_table_lookup ps' (bytes_of name) =
      (case map_of (snd (kcs_abs st ! i)) name of
         Some a \<Rightarrow> Some a | None \<Rightarrow> kernelcache_symbol_table_lookup ps (bytes_of name))"
    if "CHR 0x00 \<notin> set name" for name
  proof -
    have z: "0 \<notin> set (bytes_of name)"
      using that by (auto simp: image_iff dest: sym)
    show ?thesis
      using symbol_table_lookup_spec [OF both z] symbol_table_lookup_spec [OF ess z]
      by (simp add: kernelcache_symbol_table_lookup_def kc_entries_def map_of_bytes map_add_def
          split: option.split)
  qed
  with run show ?thesis by blast
qed

end
