(* ===== verification/Upload_Props.thy ===== *)
theory Upload_Props
  imports Symbols_Props Symbol_Roundtrip
begin

text \<open>
  The properties of the module's symbol tables: the \<open>kernelcache-symbols\<close> command, the lookup, their
  agreement with the loader's serialiser, and the uploads that the command's checks let through
  although they break its memory.
\<close>

section \<open>Samples\<close>

text \<open>A kernel header whose only load command is the UUID, and a module with an upload waiting.\<close>

definition sample_kernel :: region where
  "sample_kernel = region_of (replicate 16 0 @ le_bytes 4 (1 :: u32) @ le_bytes 4 (24 :: u32) @ replicate 8 0
     @ le_bytes 4 (0x1b :: u32) @ le_bytes 4 (24 :: u32) @ sample_uuid @ replicate 16 0)"

definition pongo_with :: "bytes \<Rightarrow> pongo_state" where
  "pongo_with upload = \<lparr>mh_execute_header = sample_kernel, loader_xfer_recv_data = region_of upload,
     loader_xfer_recv_count = word_of_nat (length upload), kernelcache_symbol_table = [],
     kernelcache_uuid = replicate 16 0, kernelcache_uuid_found = False, heap_live = []\<rparr>"

definition sample_malloc :: allocator where
  "sample_malloc n = Some (0x1000, \<lambda>_. 0xAA)"

definition sample_pongo :: pongo_state where
  "sample_pongo = pongo_with (blob_spec sample_state)"

text \<open>An upload for the sample kernelcache with one symbol.\<close>

definition one_symbol_upload :: "u32 \<Rightarrow> u32 \<Rightarrow> bytes \<Rightarrow> bytes" where
  "one_symbol_upload strings symbol_offset str =
     le_bytes 4 (1 :: u32) @ le_bytes 4 strings @ sample_uuid @ le_bytes 4 (28 :: u32)
     @ le_bytes 4 (1 :: u32) @ le_bytes 4 symbol_offset @ le_bytes 8 (7 :: u64) @ str"

lemma sample_upload_length: "length (blob_spec sample_state) = 61"
  by code_simp

lemma pongo_with_ok: "length upload < 4294967296 \<Longrightarrow> pongo_ok (pongo_with upload)"
proof -
  have "kernel_ok sample_kernel" by code_simp
  then show "length upload < 4294967296 \<Longrightarrow> pongo_ok (pongo_with upload)"
    by (simp add: pongo_ok_def pongo_with_def chain_rep_def unat_of_nat)
qed

lemma sample_pongo_ok: "pongo_ok sample_pongo"
  by (simp add: sample_pongo_def pongo_with_ok sample_upload_length)

lemma sample_select:
  "select_kernelcache (region_of (blob_spec sample_state)) 61 sample_uuid = Some (Inr (2, 56, 32))"
  by code_simp

lemma sample_pongo_uuid: "current_uuid sample_pongo = uuid (kcs sample_state ! 0)"
  by code_simp

lemma sample_pongo_sane:
  "upload_sane (loader_xfer_recv_data sample_pongo) (loader_xfer_recv_count sample_pongo) (current_uuid sample_pongo)"
proof -
  have u: "current_uuid sample_pongo = sample_uuid" by code_simp
  have sel: "select_kernelcache (loader_xfer_recv_data sample_pongo) (unat (loader_xfer_recv_count sample_pongo)) sample_uuid
      = Some (Inr (2, 56, 32))"
    using sample_select by (simp add: sample_pongo_def pongo_with_def sample_upload_length)
  have "sym_off (loader_xfer_recv_data sample_pongo) 32 0 = 0" "sym_off (loader_xfer_recv_data sample_pongo) 32 1 = 1"
    by code_simp+
  then have "sym_off (loader_xfer_recv_data sample_pongo) 32 i \<noteq> 0xFFFFFFFF" if "i < 2" for i
    using that by (cases i rule: nat.exhaust; cases "i - 1" rule: nat.exhaust) auto
  then show ?thesis
    by (simp add: upload_sane_def u sel) (simp add: sample_pongo_def pongo_with_def sample_upload_length)
qed

section \<open>Properties\<close>

text \<open>C7: on every upload whose strings start inside it and whose string offsets are not
  \<open>0xFFFFFFFF\<close>, and whatever \<open>malloc\<close> answers, the command touches no memory outside its
  objects, leaks no allocation and leaves a well-formed chain: unchanged when it reports an error,
  with one new table in front of as many entries as it reports otherwise.\<close>

theorem symbols_command_safe:
  assumes "pongo_ok st"
    and "upload_sane (loader_xfer_recv_data st) (loader_xfer_recv_count st) (current_uuid st)"
  shows "\<exists>r st'. command_kernelcache_symbols malloc st = Some (r, st') \<and> pongo_ok st'
    \<and> (case r of Inl _ \<Rightarrow> kernelcache_symbol_table st' = kernelcache_symbol_table st
        | Inr n \<Rightarrow> \<exists>t es. kernelcache_symbol_table st' = t # kernelcache_symbol_table st
            \<and> table_rep t es \<and> length es = unat n)"
  by (rule command_kernelcache_symbols_ok [OF assms, of malloc]) blast

theorem symbols_command_safe_witness:
  "\<exists>r st'. command_kernelcache_symbols sample_malloc sample_pongo = Some (r, st') \<and> pongo_ok st'"
  using symbols_command_safe [OF sample_pongo_ok sample_pongo_sane, of sample_malloc] by blast

text \<open>A lookup in a well-formed chain never faults and answers with the address of the first entry
  of that name, newest table first, or 0 when no table has the name.\<close>

theorem lookup_is_first_match:
  assumes "list_all2 table_rep (kernelcache_symbol_table st) ess" and "0 \<notin> set symbol"
  shows "kernelcache_symbol_table_lookup st symbol
    = Some (case map_of (concat ess) symbol of None \<Rightarrow> 0 | Some a \<Rightarrow> a)"
  using symbol_table_lookup_spec [of "kernelcache_symbol_table st" ess symbol] assms
  by (simp add: kernelcache_symbol_table_lookup_def chain_rep_def)

theorem lookup_is_first_match_witness:
  "kernelcache_symbol_table_lookup sample_pongo [1] = Some 0"
  using lookup_is_first_match [of sample_pongo "[]" "[1]"]
  by (simp add: sample_pongo_def pongo_with_def)

text \<open>C6: a table with symbols that the loader serialised is accepted by the command for every kernelcache
  it describes, as long as \<open>malloc\<close> succeeds, and the lookup of a name then gives the address the
  loader had for it in that kernelcache, falling back to the older tables for other names. (A table
  without a single symbol string is refused: \<open>symbol_strings_size < 1\<close>.)\<close>

theorem upload_lookup_roundtrip:
  assumes ok: "pongo_ok ps"
    and s: "serialised st (loader_xfer_recv_data ps) (unat (loader_xfer_recv_count ps))"
    and i: "i < length (kcs st)" and u: "current_uuid ps = uuid (kcs st ! i)"
    and ne: "symstr st \<noteq> []" and malloc: "\<And>n. malloc n \<noteq> None"
  shows "\<exists>ps'. command_kernelcache_symbols malloc ps = Some (Inr (symcnt (kcs st ! i)), ps')
    \<and> (\<forall>name. CHR 0x00 \<notin> set name \<longrightarrow>
         kernelcache_symbol_table_lookup ps' (bytes_of name) =
           (case map_of (snd (kcs_abs st ! i)) name of
              Some a \<Rightarrow> Some a
            | None \<Rightarrow> kernelcache_symbol_table_lookup ps (bytes_of name)))"
  by (rule serialised_lookup [OF assms])

lemma sample_serialised:
  "serialised sample_state (loader_xfer_recv_data sample_pongo) (unat (loader_xfer_recv_count sample_pongo))"
  using sample_state_ok
  by (simp add: serialised_def sample_pongo_def pongo_with_def sample_upload_length holds_def
      rslice_region_of)

theorem upload_lookup_roundtrip_witness:
  "\<exists>ps'. command_kernelcache_symbols sample_malloc sample_pongo = Some (Inr 2, ps')
    \<and> kernelcache_symbol_table_lookup ps' (bytes_of ''foo'') = Some 5"
proof -
  have m: "sample_malloc n \<noteq> None" for n by (simp add: sample_malloc_def)
  have i: "0 < length (kcs sample_state)" and ne: "symstr sample_state \<noteq> []"
    by (simp_all add: sample_state_def)
  have "map_of (snd (kcs_abs sample_state ! 0)) ''foo'' = Some 5" "symcnt (kcs sample_state ! 0) = 2"
    by code_simp+
  with upload_lookup_roundtrip [where malloc = sample_malloc, OF sample_pongo_ok sample_serialised i
      sample_pongo_uuid ne m] show ?thesis
    by (auto dest: spec [of _ "''foo''"])
qed

text \<open>Finding the UUID is idempotent, never faults on a kernel image that holds its load commands,
  and changes nothing but the UUID and its flag.\<close>

theorem find_uuid_idempotent:
  assumes "kernel_ok (mh_execute_header st)" and "length (kernelcache_uuid st) = 16"
  shows "\<exists>u b. length u = 16
    \<and> kernelcache_find_uuid st = Some (st\<lparr>kernelcache_uuid := u, kernelcache_uuid_found := b\<rparr>)
    \<and> (b \<longrightarrow> kernelcache_find_uuid (st\<lparr>kernelcache_uuid := u, kernelcache_uuid_found := b\<rparr>)
          = kernelcache_find_uuid st)"
proof (rule kernelcache_find_uuid_total [OF assms])
  fix u b
  assume "length u = 16"
    and "kernelcache_find_uuid st = Some (st\<lparr>kernelcache_uuid := u, kernelcache_uuid_found := b\<rparr>)"
  moreover have "kernelcache_find_uuid (st\<lparr>kernelcache_uuid := u, kernelcache_uuid_found := True\<rparr>)
      = Some (st\<lparr>kernelcache_uuid := u, kernelcache_uuid_found := True\<rparr>)"
    by (simp add: kernelcache_find_uuid_def)
  ultimately show ?thesis by (cases b) auto
qed

theorem find_uuid_idempotent_witness:
  "\<exists>u b. kernelcache_find_uuid sample_pongo
     = Some (sample_pongo\<lparr>kernelcache_uuid := u, kernelcache_uuid_found := b\<rparr>)"
  using find_uuid_idempotent [of sample_pongo] sample_pongo_ok by (auto simp: pongo_ok_def)

text \<open>A predicate of the table that the run leaves at the head of an empty chain.\<close>

definition one_table :: "((symbols_error + u32) \<times> pongo_state) option \<Rightarrow> (region \<Rightarrow> bool) \<Rightarrow> bool" where
  "one_table res P =
     (case res of
        Some (Inr c, st') \<Rightarrow>
          (case kernelcache_symbol_table st' of [(base, obj)] \<Rightarrow> c = 1 \<and> base = 0x1000 \<and> P obj | _ \<Rightarrow> False)
      | _ \<Rightarrow> False)"

lemma one_table_iff:
  "one_table res P \<longleftrightarrow>
     (\<exists>st' obj. res = Some (Inr 1, st') \<and> kernelcache_symbol_table st' = [(0x1000, obj)] \<and> P obj)"
proof (cases res)
  case None
  then show ?thesis by (simp add: one_table_def)
next
  case (Some out)
  then show ?thesis
    by (cases "fst out"; cases "kernelcache_symbol_table (snd out)";
        cases "tl (kernelcache_symbol_table (snd out))"; cases out)
       (auto simp: one_table_def split: list.split)
qed

definition wrapped_run :: "((symbols_error + u32) \<times> pongo_state) option" where
  "wrapped_run = command_kernelcache_symbols sample_malloc (pongo_with (one_symbol_upload 44 0xFFFFFFFF [0]))"

lemma wrapped_size: "one_table wrapped_run (\<lambda>obj. rsize obj = 49)" by code_simp
lemma wrapped_count: "one_table wrapped_run (\<lambda>obj. rd64 obj 8 = Some 1)" by code_simp
lemma wrapped_array: "one_table wrapped_run (\<lambda>obj. rd64 obj 16 = Some 0x1020)" by code_simp
lemma wrapped_string: "one_table wrapped_run (\<lambda>obj. rd64 obj 32 = Some 0x10000102F)" by code_simp

text \<open>C38: the check \<open>symbol_offset + 1 > symbol_strings_size\<close> wraps in 32 bits: an upload with the
  string offset \<open>0xFFFFFFFF\<close> is accepted, and after it the lookup of any name reads out of the
  table's allocation.\<close>

theorem string_offset_wraps:
  "\<exists>st'. command_kernelcache_symbols sample_malloc (pongo_with (one_symbol_upload 44 0xFFFFFFFF [0]))
      = Some (Inr 1, st')
    \<and> kernelcache_symbol_table_lookup st' symbol = None"
proof -
  obtain st' obj where run: "wrapped_run = Some (Inr 1, st')"
    and chain: "kernelcache_symbol_table st' = [(0x1000, obj)]" and "rsize obj = 49"
    using wrapped_size by (auto simp: one_table_iff)
  have here: "Q obj" if "one_table wrapped_run Q" for Q
    using that by (simp add: one_table_def run chain)
  note obj = here [OF wrapped_size] here [OF wrapped_count] here [OF wrapped_array] here [OF wrapped_string]
  have "c_streq obj 0x10000002F symbol = None"
    by (cases symbol) (simp_all add: obj)
  then have "kernelcache_symbol_table_lookup st' symbol = None"
    by (simp add: kernelcache_symbol_table_lookup_def chain obj)
  with run show ?thesis unfolding wrapped_run_def by blast
qed

text \<open>What filling does with a string offset behind the upload, in a block of \<open>n\<close> bytes: the header's 32
  bytes are written first, and only then is the offset refused.\<close>

lemma fill_behind_upload:
  assumes "unat count < unat strings"
  shows "fill_table data count c strings p base nxt \<lparr>rsize = n, rbyte = junk\<rparr>
    = (if n < 32 then None else Some (Inl Invalid_symbol_table))"
  using assms by (auto simp: fill_table_def wr64_def wr_bytes_def Let_def)

lemma wrapped_alloc_size:
  assumes "unat count + 16 * unat c < unat strings" and "unat strings \<le> unat count + 16 * unat c + 32"
  shows "unat (table_alloc_size c (symbol_strings_size count strings)) = 32 + unat count + 16 * unat c - unat strings"
proof -
  let ?n = "32 + unat count + 16 * unat c - unat strings"
  have "word_of_nat (?n + unat strings) = (word_of_nat (32 + unat count + 16 * unat c) :: u64)"
    using assms(2) by simp
  then have "table_alloc_size c (symbol_strings_size count strings) = word_of_nat ?n"
    by (simp add: table_alloc_size_def symbol_strings_size_def algebra_simps)
  moreover have "?n < 2 ^ 64" using assms(1) by simp
  ultimately show ?thesis by (simp add: unat_of_nat)
qed

text \<open>C39: the size of the allocation is computed before the strings' offset is checked against the
  upload, and the subtraction wraps: when the strings are said to start up to 32 bytes behind the
  upload and the two arrays, the block that \<open>malloc\<close> is asked for is smaller than the table's 32-byte
  header, and writing that header leaves the block. A block that held the header would have led to the
  refusal of the upload.\<close>

theorem strings_size_wraps:
  assumes "kernelcache_find_uuid (ps\<lparr>loader_xfer_recv_count := 0\<rparr>) = Some st"
    and "select_kernelcache (loader_xfer_recv_data ps) (unat (loader_xfer_recv_count ps)) (kernelcache_uuid st)
      = Some (Inr (c, strings, p))"
    and "unat (loader_xfer_recv_count ps) + 16 * unat c < unat strings"
    and "unat strings \<le> unat (loader_xfer_recv_count ps) + 16 * unat c + 32"
    and "malloc (table_alloc_size c (symbol_strings_size (loader_xfer_recv_count ps) strings)) = Some (base, junk)"
  shows "unat (table_alloc_size c (symbol_strings_size (loader_xfer_recv_count ps) strings)) < 32
    \<and> (\<forall>n. fill_table (loader_xfer_recv_data ps) (loader_xfer_recv_count ps) c strings p base nxt \<lparr>rsize = n, rbyte = junk\<rparr>
          = (if n < 32 then None else Some (Inl Invalid_symbol_table)))
    \<and> command_kernelcache_symbols malloc ps = None"
proof -
  have behind: "unat (loader_xfer_recv_count ps) < unat strings" using assms(3) by simp
  have small: "unat (table_alloc_size c (symbol_strings_size (loader_xfer_recv_count ps) strings)) < 32"
    using wrapped_alloc_size [OF assms(3,4)] assms(3,4) by linarith
  then have "command_kernelcache_symbols malloc ps = None"
    using assms(1,2,5) by (simp add: command_kernelcache_symbols_def Let_def fill_behind_upload [OF behind])
  with small fill_behind_upload [OF behind] show ?thesis by blast
qed

text \<open>An upload of 45 bytes with one symbol, whose strings are said to start at 77.\<close>

theorem strings_size_wraps_witness:
  "command_kernelcache_symbols sample_malloc (pongo_with (one_symbol_upload 77 0 [0])) = None
    \<and> unat (table_alloc_size 1 (symbol_strings_size 45 77)) < 32"
proof -
  let ?ps = "pongo_with (one_symbol_upload 77 0 [0])"
  have n: "loader_xfer_recv_count ?ps = 45" by code_simp
  have u: "map_option kernelcache_uuid (kernelcache_find_uuid (?ps\<lparr>loader_xfer_recv_count := 0\<rparr>)) = Some sample_uuid"
    by code_simp
  then obtain st where st: "kernelcache_find_uuid (?ps\<lparr>loader_xfer_recv_count := 0\<rparr>) = Some st"
    "kernelcache_uuid st = sample_uuid" by (auto simp: map_option_eq_Some)
  have "select_kernelcache (loader_xfer_recv_data ?ps) 45 sample_uuid = Some (Inr (1, 77, 32))" by code_simp
  then have sel: "select_kernelcache (loader_xfer_recv_data ?ps) (unat (loader_xfer_recv_count ?ps)) (kernelcache_uuid st)
      = Some (Inr (1, 77, 32))" by (simp add: n st)
  from strings_size_wraps [OF st(1) sel, where malloc = sample_malloc] n show ?thesis
    by (simp add: sample_malloc_def)
qed

end
