(* ===== verification/Kext_Load.thy ===== *)
theory Kext_Load
  imports Kext_Parse_Safe
begin

text \<open>
  The phases of \<^verbatim>\<open>kextload.c\<close> after parsing: \<open>kext_alloc\<close>, \<open>kext_map\<close>, \<open>kext_relocate\<close> and
  \<open>kext_link\<close>. The file is the upload buffer; the kernel extension is the block that
  \<open>alloc_static\<close> returned, addressed by offsets from its start. After \<open>kext_map\<close> the load command
  pointers of the load information refer to the copy in the block, at the same offsets. The
  addresses of the kernel's Mach-O header (\<open>mh\<close>) and the kernel slide are arguments.
\<close>

section \<open>Allocation\<close>

datatype alloc_error = Could_not_allocate_kext

text \<open>The answer of \<open>alloc_static\<close>: \<open>None\<close> for null, else an address and junk contents.\<close>

type_synonym static_allocator = "u32 \<Rightarrow> (u64 \<times> (nat \<Rightarrow> u8)) option"

definition kext_alloc_size :: "u64 \<Rightarrow> u64" where
  "kext_alloc_size vmsize = (vmsize + 0x3fff) AND NOT 0x3fff"

definition kext_alloc ::
  "static_allocator \<Rightarrow> kext_load_info \<Rightarrow> alloc_error + (region \<times> kext_load_info)" where
  "kext_alloc alloc_static info =
     (let alloc_size = kext_alloc_size (vm_size info) in
      if ucast (ucast alloc_size :: u32) < vm_size info then Inl Could_not_allocate_kext
      else
        (case alloc_static (ucast alloc_size) of
           None \<Rightarrow> Inl Could_not_allocate_kext
         | Some (addr, junk) \<Rightarrow>
             Inr (\<lparr>rsize = unat (ucast alloc_size :: u32), rbyte = junk\<rparr>, info\<lparr>kext := addr\<rparr>)))"

section \<open>Mapping\<close>

text \<open>One round of the first loop: the state is the block and the cursor in the file.\<close>

definition kext_copy_segment ::
  "region \<Rightarrow> kext_load_info \<Rightarrow> nat \<Rightarrow> region \<times> nat \<Rightarrow> (region \<times> nat) kext_result" where
  "kext_copy_segment file info cmd_idx s = do {
     let lc = snd s;
     lc_cmd \<leftarrow> rd32 file lc;
     kext1 \<leftarrow>
       (if lc_cmd = LC_SEGMENT_64
        then do {
          vmaddr \<leftarrow> rd64 file (lc + 24);
          fileoff \<leftarrow> rd64 file (lc + 40);
          filesize \<leftarrow> rd64 file (lc + 48);
          fileseg \<leftarrow> rd_bytes file (unat fileoff) (unat filesize);
          wr_bytes (fst s) (unat (vmaddr - vm_base info)) fileseg
        }
        else Some (fst s));
     cmdsize \<leftarrow> rd32 file (lc + 4);
     Some (Inr (kext1, lc + unat cmdsize))
   }"

text \<open>One round of the second loop, which walks the copy of the header in the block.\<close>

definition kext_move_segment ::
  "u64 \<Rightarrow> kext_load_info \<Rightarrow> nat \<Rightarrow> region \<times> nat \<Rightarrow> (region \<times> nat) kext_result" where
  "kext_move_segment mh info cmd_idx s = do {
     let lc = snd s;
     lc_cmd \<leftarrow> rd32 (fst s) lc;
     kext1 \<leftarrow>
       (if lc_cmd = LC_SEGMENT_64
        then do {
          vmaddr \<leftarrow> rd64 (fst s) (lc + 24);
          wr64 (fst s) (lc + 24) (vmaddr - vm_base info + sa_for_ptr mh (kext info))
        }
        else Some (fst s));
     cmdsize \<leftarrow> rd32 kext1 (lc + 4);
     Some (Inr (kext1, lc + unat cmdsize))
   }"

text \<open>\<open>kmod_info->address\<close> and \<open>kmod_info->size\<close> stand at offsets 156 and 164 (4-byte packing).\<close>

definition kext_set_kmod_info :: "u64 \<Rightarrow> region \<Rightarrow> kext_load_info \<Rightarrow> (region \<times> kext_load_info) option" where
  "kext_set_kmod_info mh kext0 info = do {
     let vmoff = kmod_info info - vm_base info;
     kext1 \<leftarrow> wr64 kext0 (unat vmoff + 156) (sa_for_ptr mh (kext info));
     kext2 \<leftarrow> wr64 kext1 (unat vmoff + 164) (vm_size info);
     Some (kext2, info\<lparr>kmod_info := kext info + vmoff\<rparr>)
   }"

definition kext_map ::
  "u64 \<Rightarrow> region \<Rightarrow> region \<Rightarrow> kext_load_info \<Rightarrow> (region \<times> kext_load_info) kext_result" where
  "kext_map mh file kext0 info =
     ebind (loop_u32 (\<lambda>_. rd32 file 16) (kext_copy_segment file info) 0 (kext0, 32)) (\<lambda>(kext1, _).
     ebind (loop_u32 (\<lambda>s. rd32 (fst s) 16) (kext_move_segment mh info) 0 (kext1, 32)) (\<lambda>(kext2, _).
       do {
         r \<leftarrow> kext_set_kmod_info mh kext2 info;
         Some (Inr r)
       }))"

section \<open>Local relocations\<close>

definition reloc_offset :: "kext_load_info \<Rightarrow> u32 \<Rightarrow> nat" where
  "reloc_offset info r_address = unat (scast r_address - vm_base info)"

definition kext_relocate_one ::
  "u64 \<Rightarrow> region \<Rightarrow> kext_load_info \<Rightarrow> nat \<Rightarrow> region \<Rightarrow> region kext_result" where
  "kext_relocate_one kext_va_slide file info lr_idx kext0 = do {
     let lr = locrel info + 8 * lr_idx;
     bits \<leftarrow> rd32 file (lr + 4);
     if r_extern bits \<or> r_length bits \<noteq> 3 then Some (Inr kext0)
     else do {
       r_address \<leftarrow> rd32 file lr;
       v \<leftarrow> rd64 kext0 (reloc_offset info r_address);
       kext1 \<leftarrow> wr64 kext0 (reloc_offset info r_address) (v + kext_va_slide);
       Some (Inr kext1)
     }
   }"

definition kext_relocate ::
  "u64 \<Rightarrow> u64 \<Rightarrow> region \<Rightarrow> nat \<Rightarrow> nat \<Rightarrow> region \<Rightarrow> kext_load_info \<Rightarrow> region kext_result" where
  "kext_relocate mh slide file st dst kext0 info =
     (let kext_va_slide = va_for_ptr mh slide (kext info) - vm_base info in
      ebind (loop_u32 (\<lambda>k. rd32 k (dst + 76)) (kext_relocate_one kext_va_slide file info) 0 kext0) (\<lambda>kext1.
        do {
          kext2 \<leftarrow> wr32 kext1 (dst + 76) 0;
          kext3 \<leftarrow> wr32 kext2 (st + 12) 0;
          Some (Inr kext3)
        }))"

section \<open>Linking\<close>

definition kext_link_one ::
  "(bytes \<Rightarrow> u64 option) \<Rightarrow> u64 \<Rightarrow> region \<Rightarrow> nat \<Rightarrow> kext_load_info \<Rightarrow> nat \<Rightarrow> region \<Rightarrow> region kext_result" where
  "kext_link_one lookup slide file strtab info er_idx kext0 = do {
     let er = extrel info + 8 * er_idx;
     bits \<leftarrow> rd32 file (er + 4);
     if \<not> r_extern bits \<or> r_length bits \<noteq> 3 then Some (Inr kext0)
     else do {
       n_strx \<leftarrow> rd32 file (nlist info + 16 * unat (r_symbolnum bits));
       name \<leftarrow> cstr_at file (strtab + unat n_strx);
       symbol_sa \<leftarrow> lookup name;
       if symbol_sa = 0 then Some (Inr kext0)
       else do {
         r_address \<leftarrow> rd32 file er;
         kext1 \<leftarrow> wr64 kext0 (reloc_offset info r_address) (va_for_sa slide symbol_sa);
         Some (Inr kext1)
       }
     }
   }"

definition kext_link ::
  "(bytes \<Rightarrow> u64 option) \<Rightarrow> u64 \<Rightarrow> region \<Rightarrow> nat \<Rightarrow> nat \<Rightarrow> region \<Rightarrow> kext_load_info \<Rightarrow> region kext_result" where
  "kext_link lookup slide file st dst kext0 info = do {
     stroff \<leftarrow> rd32 kext0 (st + 16);
     ebind (loop_u32 (\<lambda>k. rd32 k (dst + 68)) (kext_link_one lookup slide file (unat stroff) info) 0 kext0)
       (\<lambda>kext1. do {
          kext2 \<leftarrow> wr32 kext1 (dst + 68) 0;
          Some (Inr kext2)
        })
   }"

section \<open>Writes without a check\<close>

text \<open>The effect of a write that is in bounds, for specifications.\<close>

definition poke :: "region \<Rightarrow> nat \<Rightarrow> bytes \<Rightarrow> region" where
  "poke r off bs =
     r\<lparr>rbyte := (\<lambda>i. if off \<le> i \<and> i < off + length bs then bs ! (i - off) else rbyte r i)\<rparr>"

lemma wr_poke:
  "off + length bs \<le> rsize r \<Longrightarrow> wr_bytes r off bs = Some (poke r off bs)"
  "off + 4 \<le> rsize r \<Longrightarrow> wr32 r off w = Some (poke r off (le_bytes 4 w))"
  "off + 8 \<le> rsize r \<Longrightarrow> wr64 r off v = Some (poke r off (le_bytes 8 v))"
  by (simp_all add: wr_bytes_def wr32_def wr64_def poke_def)

lemma rsize_poke [simp]: "rsize (poke r off bs) = rsize r"
  by (simp add: poke_def)

lemma rbyte_poke:
  "rbyte (poke r off bs) i = (if off \<le> i \<and> i < off + length bs then bs ! (i - off) else rbyte r i)"
  by (simp add: poke_def)

lemma word_at_poke_other:
  "off' + 4 \<le> off \<or> off + length bs \<le> off' \<Longrightarrow> word_at (poke r off bs) off' = word_at r off'"
  "off' + 8 \<le> off \<or> off + length bs \<le> off' \<Longrightarrow> dword_at (poke r off bs) off' = dword_at r off'"
  by (rule field_cong; auto simp: rbyte_poke)+

lemma word_at_poke_same:
  "word_at (poke r off (le_bytes 4 w)) off = w"
  "dword_at (poke r off (le_bytes 8 v)) off = v"
proof -
  have "rslice (poke r off bs) off (length bs) = bs" for bs
    by (rule nth_equalityI) (simp_all add: rbyte_poke)
  from this [of "le_bytes 4 w"] this [of "le_bytes 8 v"]
  show "word_at (poke r off (le_bytes 4 w)) off = w" "dword_at (poke r off (le_bytes 8 v)) off = v"
    by (simp_all add: word_at_def dword_at_def)
qed

end
