(* ===== verification/Kext_Image.thy ===== *)
theory Kext_Image
  imports Kext_Load
begin

text \<open>
  \<open>kext_alloc\<close> and \<open>kext_map\<close> on a file that \<open>kext_parse\<close> accepted: the block is large enough for
  every segment, all copies stay inside the file and the block, and the block then holds the
  segments at their offsets from the first one, with the segment addresses moved to the block.
\<close>

section \<open>Allocation\<close>

lemma kext_alloc_fits:
  assumes "kext_alloc alloc_static info = Inr (k, info')"
  shows "unat (vm_size info) \<le> rsize k" and "rsize k < 2 ^ 32" and "\<exists>a. info' = info\<lparr>kext := a\<rparr>"
proof -
  let ?a = "ucast (kext_alloc_size (vm_size info)) :: u32"
  have "\<not> ucast ?a < vm_size info" and k: "rsize k = unat ?a" and "\<exists>a. info' = info\<lparr>kext := a\<rparr>"
    using assms by (auto simp: kext_alloc_def Let_def split: if_splits option.splits)
  then show "unat (vm_size info) \<le> rsize k" "rsize k < 2 ^ 32" "\<exists>a. info' = info\<lparr>kext := a\<rparr>"
    using unat_u32_less [of ?a] by (simp_all only: k not_less word_le_nat_alt unat_ucast_u32) simp_all
qed

text \<open>The rounding to 16 KB, and what the cut to 32 bits leaves of it.\<close>

lemma unat_kext_alloc_size:
  assumes "unat v \<le> 0xFFFFC000"
  shows "unat (kext_alloc_size v) = 16384 * ((unat v + 16383) div 16384)"
proof -
  let ?s = "v + 0x3fff"
  have m: "(0x3fff :: u64) = mask 14" by (simp add: mask_eq_exp_minus_1)
  have s: "unat ?s = unat v + 16383" using assms by (simp add: unat_word_ariths)
  have "kext_alloc_size v = push_bit 14 (drop_bit 14 ?s)"
    unfolding kext_alloc_size_def m by (rule bit_word_eqI) (auto simp: bit_simps)
  also have "unat \<dots> = 16384 * unat (drop_bit 14 ?s) mod 2 ^ 64"
    by (simp add: push_bit_eq_mult unat_word_ariths mult.commute)
  also have "unat (drop_bit 14 ?s) = (unat v + 16383) div 16384"
    using s by (simp only: unat_drop_bit_eq) (simp add: drop_bit_eq_div)
  also have "16384 * ((unat v + 16383) div 16384) mod 2 ^ 64 = 16384 * ((unat v + 16383) div 16384)"
    by (rule mod_less) (use assms in simp)
  finally show ?thesis .
qed

lemma kext_alloc_size_exact:
  assumes "unat v \<le> 0xFFFFC000"
  shows "v \<le> ucast (ucast (kext_alloc_size v) :: u32)"
proof -
  have "16384 * ((unat v + 16383) div 16384) < 4294967296" "unat v \<le> 16384 * ((unat v + 16383) div 16384)"
    using assms by linarith+
  then show ?thesis
    using unat_kext_alloc_size [OF assms]
    by (simp only: word_le_nat_alt unat_ucast_u32) (simp add: unsigned_ucast_eq take_bit_nat_eq_self)
qed

lemma kext_alloc_size_aligned: "take_bit 14 (kext_alloc_size v) = 0"
proof (rule bit_word_eqI)
  fix n
  have "(0x3fff :: u64) = mask 14" by (simp add: mask_eq_exp_minus_1)
  then show "bit (take_bit 14 (kext_alloc_size v)) n = bit 0 n"
    by (simp add: kext_alloc_size_def bit_simps)
qed

lemma block_aligned: "16384 dvd unat (ucast (kext_alloc_size v) :: u32)"
proof -
  have "take_bit 14 (ucast (kext_alloc_size v) :: u32) = 0"
  proof (rule bit_word_eqI)
    fix n
    have "\<not> bit (take_bit 14 (kext_alloc_size v)) n" by (simp add: kext_alloc_size_aligned)
    then show "bit (take_bit 14 (ucast (kext_alloc_size v) :: u32)) n = bit 0 n"
      by (auto simp: bit_simps)
  qed
  then have "unat (take_bit 14 (ucast (kext_alloc_size v) :: u32)) = 0" by simp
  then have "take_bit 14 (unat (ucast (kext_alloc_size v) :: u32)) = 0"
    by (simp only: unsigned_take_bit_eq)
  then show ?thesis
    by (simp add: take_bit_eq_mod dvd_eq_mod_eq_0)
qed
section \<open>What the parser's result says in natural numbers\<close>

lemma parsed_segment:
  assumes p: "walk_ok f fsize base n" and m: "m < n" "is_seg f m"
    and vm: "vm_before f n < 2 ^ 32" and fs: "unat fsize < 2 ^ 32"
  shows "unat (seg_vmaddr f m - base) = vm_before f m"
    and "vm_before f m + unat (seg_filesize f m) \<le> vm_before f (Suc m)"
    and "unat (seg_fileoff f m) + unat (seg_filesize f m) \<le> unat fsize"
    and "lc_off f m + 72 \<le> lc_off f (Suc m)"
    and "first_seg f m \<Longrightarrow> seg_fileoff f m = 0 \<and> 32 + unat (word_at f 20) \<le> unat (seg_filesize f m)"
proof -
  have s: "seg_ok f fsize base m" using p m by (simp add: walk_ok_def)
  have le: "vm_before f m \<le> vm_before f n" "vm_before f (Suc m) \<le> vm_before f n"
    using m vm_before_mono [of m n f] vm_before_mono [of "Suc m" n f] by (simp_all del: vm_before.simps)
  have "seg_vmaddr f m - base = word_of_nat (vm_before f m)" using s by (simp add: seg_ok_def)
  then show "unat (seg_vmaddr f m - base) = vm_before f m"
    using le vm by (simp add: unat_of_nat)
  show fit: "vm_before f m + unat (seg_filesize f m) \<le> vm_before f (Suc m)"
    using s m by (simp add: seg_ok_def word_le_nat_alt)
  have small: "unat (seg_filesize f m) < 2 ^ 32" using fit le vm by simp
  have "unat (seg_fileoff f m) \<le> unat fsize" using s by (simp add: seg_ok_def word_le_nat_alt)
  then have "unat (seg_fileoff f m + seg_filesize f m) = unat (seg_fileoff f m) + unat (seg_filesize f m)"
    using small fs by (simp add: unat_word_ariths)
  then show "unat (seg_fileoff f m) + unat (seg_filesize f m) \<le> unat fsize"
    using s by (simp add: seg_ok_def word_le_nat_alt)
  show "lc_off f m + 72 \<le> lc_off f (Suc m)"
    using s by (simp add: seg_ok_def cmdsize_at_def)
  assume "first_seg f m"
  then show "seg_fileoff f m = 0 \<and> 32 + unat (word_at f 20) \<le> unat (seg_filesize f m)"
    using s unat_u32_less [of "word_at f 20"] by (simp add: seg_ok_def word_le_nat_alt unat_word_ariths)
qed

text \<open>The parser bounds the 64-bit sum of a segment's file offset and size, which wraps. It bounds the
  range itself when the image is not so large that the two together pass \<open>2^64\<close>.\<close>

definition segments_in_file :: "region \<Rightarrow> u64 \<Rightarrow> bool" where
  "segments_in_file f fsize \<longleftrightarrow>
     (\<forall>j < unat (word_at f 16). is_seg f j \<longrightarrow> unat (seg_fileoff f j) + unat (seg_filesize f j) \<le> unat fsize)"

lemma kext_parsed_in_file:
  assumes p: "kext_parsed lookup f info" and small: "unat (vm_size info) + unat (file_size info) < 2 ^ 64"
  shows "segments_in_file f (file_size info)"
  unfolding segments_in_file_def
proof (intro allI impI)
  fix j assume j: "j < unat (word_at f 16)" "is_seg f j"
  have s: "seg_ok f (file_size info) (vm_base info) j" and vm: "unat (vm_size info) = vm_before f (unat (word_at f 16))"
    using p j by (simp_all add: kext_parsed_def walk_ok_def)
  have "unat (seg_filesize f j) \<le> vm_before f (Suc j)"
    using s j by (simp add: seg_ok_def word_le_nat_alt)
  also have "\<dots> \<le> unat (vm_size info)"
    unfolding vm by (rule vm_before_mono) (use j in simp)
  finally have "unat (seg_fileoff f j) + unat (seg_filesize f j) < 2 ^ 64"
    using s small by (simp add: seg_ok_def word_le_nat_alt)
  then have "unat (seg_fileoff f j + seg_filesize f j) = unat (seg_fileoff f j) + unat (seg_filesize f j)"
    by (simp add: unat_word_ariths)
  then show "unat (seg_fileoff f j) + unat (seg_filesize f j) \<le> unat (file_size info)"
    using s by (simp add: seg_ok_def word_le_nat_alt)
qed

lemma first_seg_exists:
  assumes "k < n" "is_seg f k"
  obtains m where "m < n" "first_seg f m" "vm_before f m = 0"
proof -
  obtain m where m: "is_seg f m" "\<forall>i < m. \<not> is_seg f i"
    using exists_least_iff [of "is_seg f"] assms(2) by blast
  then have "m \<le> k" using assms(2) by (meson not_le)
  with m assms(1) that [of m] vm_before_none [OF m(2)] show thesis
    unfolding first_seg_def by simp
qed

section \<open>Copying the segments\<close>

definition copied :: "region \<Rightarrow> nat \<Rightarrow> region \<Rightarrow> bool" where
  "copied f j k \<longleftrightarrow>
     (\<forall>m < j. is_seg f m \<longrightarrow> (\<forall>i < unat (seg_filesize f m).
        rbyte k (vm_before f m + i) = rbyte f (unat (seg_fileoff f m) + i)))"

lemma copy_segment_step:
  assumes p: "walk_ok f fsize base n" and j: "j < n" and base: "base = vm_base info"
    and vm: "vm_before f n \<le> rsize k" "rsize k < 2 ^ 32" and fs: "unat fsize < 2 ^ 32"
    and c: "copied f j k"
  shows "wt (kext_copy_segment f info i (k, lc_off f j))
    (\<lambda>(k', lc). rsize k' = rsize k \<and> lc = lc_off f (Suc j) \<and> copied f (Suc j) k')"
proof -
  let ?x = "lc_off f j"
  have room: "?x + 8 \<le> rsize f" "lc_off f n \<le> rsize f"
    using p j by (auto simp: walk_ok_def)
  show ?thesis
  proof (cases "is_seg f j")
    case False
    then have "copied f (Suc j) k" using c by (simp add: copied_def less_Suc_eq)
    with False room show ?thesis
      by (simp add: kext_copy_segment_def is_seg_def Let_def wp_simps)
  next
    case True
    have vm': "vm_before f n < 2 ^ 32" using vm by simp
    note s = parsed_segment [OF p j True vm' fs]
    let ?bs = "rslice f (unat (seg_fileoff f j)) (unat (seg_filesize f j))"
    let ?k = "poke k (vm_before f j) ?bs"
    have next_le: "lc_off f (Suc j) \<le> lc_off f n" "vm_before f (Suc j) \<le> vm_before f n"
      using j lc_off_mono [of "Suc j" n f] vm_before_mono [of "Suc j" n f]
      by (simp_all del: lc_off.simps vm_before.simps)
    have rd: "rd64 f (?x + 24) = Some (seg_vmaddr f j)" "rd64 f (?x + 40) = Some (seg_fileoff f j)"
      "rd64 f (?x + 48) = Some (seg_filesize f j)"
      using room next_le(1) s(4) by (simp_all add: seg_vmaddr_def seg_fileoff_def seg_filesize_def del: lc_off.simps)
    have src: "rd_bytes f (unat (seg_fileoff f j)) (unat (seg_filesize f j)) = Some ?bs"
      using s(3) p by (auto simp: rd_bytes_def walk_ok_def)
    have dst: "wr_bytes k (vm_before f j) ?bs = Some ?k"
      using s(2) next_le(2) vm by (intro wr_poke) simp
    have "rbyte ?k (vm_before f m + i) = rbyte f (unat (seg_fileoff f m) + i)"
      if m: "m < Suc j" "is_seg f m" "i < unat (seg_filesize f m)" for m i
    proof (cases "m = j")
      case True
      then show ?thesis using m by (simp add: rbyte_poke)
    next
      case False
      then have "m < j" using m by simp
      then have "vm_before f (Suc m) \<le> vm_before f j" by (intro vm_before_mono) simp
      moreover have "vm_before f m + unat (seg_filesize f m) \<le> vm_before f (Suc m)"
        using parsed_segment(2) [OF p _ m(2) vm' fs] \<open>m < j\<close> j by simp
      ultimately have "vm_before f m + i < vm_before f j" using m(3) by linarith
      then show ?thesis
        using c m \<open>m < j\<close> by (simp add: rbyte_poke copied_def)
    qed
    then have "copied f (Suc j) ?k" by (simp add: copied_def)
    moreover have "word_at f ?x = LC_SEGMENT_64" using True by (simp add: is_seg_def)
    ultimately show ?thesis
      using room rd src dst s(1) base by (simp add: kext_copy_segment_def Let_def wp_simps)
  qed
qed

section \<open>Moving the segment addresses\<close>

text \<open>The positions of the \<open>vmaddr\<close> fields of the first \<open>j\<close> commands.\<close>

definition vmaddr_field :: "region \<Rightarrow> nat \<Rightarrow> nat \<Rightarrow> bool" where
  "vmaddr_field f j x \<longleftrightarrow> (\<exists>m < j. is_seg f m \<and> lc_off f m + 24 \<le> x \<and> x < lc_off f m + 32)"

definition moved :: "region \<Rightarrow> u64 \<Rightarrow> region \<Rightarrow> nat \<Rightarrow> region \<Rightarrow> bool" where
  "moved f sa k1 j k \<longleftrightarrow>
     rsize k = rsize k1 \<and> (\<forall>x. \<not> vmaddr_field f j x \<longrightarrow> rbyte k x = rbyte k1 x)
     \<and> (\<forall>m < j. is_seg f m \<longrightarrow> dword_at k (lc_off f m + 24) = sa + word_of_nat (vm_before f m))"

lemma seg_gap:
  assumes "walk_ok f fsize base n" and "m < j" "j \<le> n" "is_seg f m"
  shows "lc_off f m + 72 \<le> lc_off f j"
proof -
  have "seg_ok f fsize base m" using assms by (simp add: walk_ok_def)
  moreover have "lc_off f (Suc m) \<le> lc_off f j" using assms(2) by (intro lc_off_mono) simp
  ultimately show ?thesis by (simp add: seg_ok_def cmdsize_at_def)
qed

text \<open>At the cursor and behind it, and in the header, the copy is still unchanged.\<close>

lemma moved_ahead:
  assumes p: "walk_ok f fsize base n" and j: "j \<le> n" and mv: "moved f sa k1 j k"
    and hdr: "\<And>x. x < 32 + unat (word_at f 20) \<Longrightarrow> rbyte k1 x = rbyte f x"
    and x: "x < 32 \<or> lc_off f j \<le> x" "x < 32 + unat (word_at f 20)"
  shows "rbyte k x = rbyte f x"
proof -
  have "\<not> vmaddr_field f j x"
  proof
    assume "vmaddr_field f j x"
    then obtain m where m: "m < j" "is_seg f m" "lc_off f m + 24 \<le> x" "x < lc_off f m + 32"
      by (auto simp: vmaddr_field_def)
    then show False
      using x(1) seg_gap [OF p m(1) j m(2)] lc_off_mono [of 0 m f] by simp
  qed
  then show ?thesis using mv hdr [OF x(2)] by (simp add: moved_def)
qed

lemma move_segment_step:
  assumes p: "walk_ok f fsize base n" and j: "j < n" and base: "base = vm_base info"
    and hdr: "\<And>x. x < 32 + unat (word_at f 20) \<Longrightarrow> rbyte k1 x = rbyte f x"
    and room: "32 + unat (word_at f 20) \<le> rsize k1"
    and mv: "moved f (sa_for_ptr mh (kext info)) k1 j k"
  shows "wt (kext_move_segment mh info i (k, lc_off f j))
    (\<lambda>(k', lc). lc = lc_off f (Suc j) \<and> moved f (sa_for_ptr mh (kext info)) k1 (Suc j) k')"
proof -
  let ?x = "lc_off f j" and ?sa = "sa_for_ptr mh (kext info)"
  have lim: "?x + 8 \<le> 32 + unat (word_at f 20)" "lc_off f n \<le> 32 + unat (word_at f 20)"
    using p j by (auto simp: walk_ok_def)
  have next_le: "lc_off f (Suc j) \<le> lc_off f n"
    using j lc_off_mono [of "Suc j" n f] by (simp del: lc_off.simps)
  note ahead = moved_ahead [OF p less_imp_le [OF j] mv hdr]
  have size: "rsize k = rsize k1" using mv by (simp add: moved_def)
  have words: "word_at k ?x = word_at f ?x" "word_at k (?x + 4) = word_at f (?x + 4)"
    using lim ahead by (auto intro!: field_cong)
  show ?thesis
  proof (cases "is_seg f j")
    case False
    then have "moved f ?sa k1 (Suc j) k"
      using mv by (auto simp: moved_def vmaddr_field_def less_Suc_eq)
    with False show ?thesis
      using lim room size words by (simp add: kext_move_segment_def is_seg_def Let_def wp_simps)
  next
    case True
    have gap: "?x + 72 \<le> 32 + unat (word_at f 20)"
      using seg_gap [OF p, of j "Suc j"] j True next_le lim(2) by simp
    have v: "dword_at k (?x + 24) = base + word_of_nat (vm_before f j)"
    proof -
      have "dword_at k (?x + 24) = seg_vmaddr f j"
        unfolding seg_vmaddr_def using gap by (intro field_cong ahead) simp_all
      then show ?thesis using p j True by (simp add: walk_ok_def seg_ok_def)
    qed
    let ?v = "dword_at k (?x + 24) - vm_base info + ?sa"
    let ?k = "poke k (?x + 24) (le_bytes 8 ?v)"
    have "dword_at ?k (lc_off f m + 24) = ?sa + word_of_nat (vm_before f m)"
      if m: "m < Suc j" "is_seg f m" for m
    proof (cases "m = j")
      case True
      then show ?thesis using v base by (simp add: word_at_poke_same)
    next
      case False
      then have "m < j" using m by simp
      then have "dword_at ?k (lc_off f m + 24) = dword_at k (lc_off f m + 24)"
        using seg_gap [OF p _ _ m(2), of j] j by (intro word_at_poke_other) simp
      then show ?thesis using mv m \<open>m < j\<close> by (simp add: moved_def)
    qed
    moreover have "rbyte ?k x = rbyte k1 x" if "\<not> vmaddr_field f (Suc j) x" for x
      using that mv True by (auto simp: rbyte_poke moved_def vmaddr_field_def less_Suc_eq)
    ultimately have "moved f ?sa k1 (Suc j) ?k" using size by (simp add: moved_def)
    moreover have "word_at ?k (?x + 4) = word_at f (?x + 4)"
      using words by (simp add: word_at_poke_other)
    ultimately show ?thesis
      using True lim room size words gap
      by (simp add: kext_move_segment_def is_seg_def Let_def wp_simps wr_poke)
  qed
qed

section \<open>The image\<close>

text \<open>
  The block holds every segment except for the \<open>vmaddr\<close> fields of the segment commands, and these
  hold the static kernelcache addresses of the segments in the block.
\<close>

definition kext_image :: "u64 \<Rightarrow> region \<Rightarrow> region \<Rightarrow> bool" where
  "kext_image sa f k \<longleftrightarrow>
     (let n = unat (word_at f 16) in
      \<forall>m < n. is_seg f m \<longrightarrow>
        dword_at k (lc_off f m + 24) = sa + word_of_nat (vm_before f m)
        \<and> (\<forall>i < unat (seg_filesize f m). \<not> vmaddr_field f n (vm_before f m + i) \<longrightarrow>
             rbyte k (vm_before f m + i) = rbyte f (unat (seg_fileoff f m) + i)))"

definition set_kmod_info :: "u64 \<Rightarrow> kext_load_info \<Rightarrow> region \<Rightarrow> region" where
  "set_kmod_info mh info k =
     (let off = unat (kmod_info info - vm_base info) in
      poke (poke k (off + 156) (le_bytes 8 (sa_for_ptr mh (kext info)))) (off + 164) (le_bytes 8 (vm_size info)))"

lemma copied_header:
  assumes p: "walk_ok f fsize base n" and c: "copied f n k" and ex: "\<exists>m < n. is_seg f m"
    and vm: "vm_before f n < 2 ^ 32" and fs: "unat fsize < 2 ^ 32" and x: "x < kext_end f"
  shows "rbyte k x = rbyte f x"
proof -
  obtain m where m: "m < n" "first_seg f m" "vm_before f m = 0"
    using ex first_seg_exists by blast
  then have s: "is_seg f m" by (simp add: first_seg_def)
  note seg = parsed_segment [OF p m(1) s vm fs]
  show ?thesis
    using c m s seg(5) [OF m(2)] x by (force simp: copied_def kext_end_def)
qed

lemma header_in_vm:
  assumes p: "walk_ok f fsize base n" and ex: "\<exists>m < n. is_seg f m"
    and vm: "vm_before f n < 2 ^ 32" and fs: "unat fsize < 2 ^ 32"
  shows "kext_end f \<le> vm_before f n"
proof -
  obtain m where m: "m < n" "first_seg f m" "vm_before f m = 0"
    using ex first_seg_exists by blast
  then have s: "is_seg f m" by (simp add: first_seg_def)
  note seg = parsed_segment [OF p m(1) s vm fs]
  have "vm_before f (Suc m) \<le> vm_before f n"
    using m(1) by (intro vm_before_mono) simp
  then show ?thesis
    using seg(2) seg(5) [OF m(2)] m(3) unfolding kext_end_def by linarith
qed

theorem kext_map_spec:
  assumes parsed: "kext_parsed lookup f info" and fs: "unat (file_size info) < 2 ^ 32"
    and room: "unat (vm_size info) \<le> rsize k" "rsize k < 2 ^ 32"
  shows "wt (kext_map mh f k info) (\<lambda>(k', info').
    (\<exists>k2. kext_image (sa_for_ptr mh (kext info)) f k2 \<and> rsize k2 = rsize k \<and> k' = set_kmod_info mh info k2)
    \<and> info' = info\<lparr>kmod_info := kext info + (kmod_info info - vm_base info)\<rparr>)"
proof -
  let ?n = "unat (word_at f 16)" and ?sa = "sa_for_ptr mh (kext info)"
  have p: "walk_ok f (file_size info) (vm_base info) ?n" and ex: "\<exists>m < ?n. is_seg f m"
    and vms: "unat (vm_size info) = vm_before f ?n"
    and kmod: "unat (kmod_info info - vm_base info) + 196 \<le> unat (vm_size info)"
    using parsed by (simp_all add: kext_parsed_def)
  have vm: "vm_before f ?n \<le> rsize k" "vm_before f ?n < 2 ^ 32" using room vms by simp_all
  have hdr: "32 \<le> rsize f" using p by (auto simp: walk_ok_def)
  let ?I1 = "\<lambda>j (k', lc). j \<le> ?n \<and> rsize k' = rsize k \<and> lc = lc_off f j \<and> copied f j k'"
  have loop1: "wt (loop_u32 (\<lambda>_. rd32 f 16) (kext_copy_segment f info) 0 (k, 32))
      (\<lambda>(k', _). rsize k' = rsize k \<and> copied f ?n k')"
  proof (rule wt_loop_u32 [where I = ?I1])
    show "?I1 0 (k, 32)" by (simp add: copied_def)
  next
    fix j s assume I: "?I1 j s"
    obtain k' where s: "s = (k', lc_off f j)" "rsize k' = rsize k" "copied f j k'" "j \<le> ?n"
      using I by (auto split: prod.splits)
    have "wt (kext_copy_segment f info j s) (?I1 (Suc j))" if "j < ?n"
      using copy_segment_step [OF p that refl _ _ fs s(3), of j] vm room s(1,2) that
      by (auto elim!: wt_mono)
    then show "\<exists>n. rd32 f 16 = Some n \<and> (j < unat n \<longrightarrow> wt (kext_copy_segment f info j s) (?I1 (Suc j)))
        \<and> (unat n \<le> j \<longrightarrow> (case s of (k', _) \<Rightarrow> rsize k' = rsize k \<and> copied f ?n k'))"
      using s hdr by auto
  qed
  have loop2: "wt (loop_u32 (\<lambda>s. rd32 (fst s) 16) (kext_move_segment mh info) 0 (k1, 32))
      (\<lambda>(k2, _). rsize k2 = rsize k \<and> kext_image ?sa f k2)"
    if k1: "rsize k1 = rsize k" "copied f ?n k1" for k1
  proof -
    have head: "rbyte k1 x = rbyte f x" if "x < 32 + unat (word_at f 20)" for x
      using copied_header [OF p k1(2) ex vm(2) fs, of x] that by (simp add: kext_end_def)
    have room1: "32 + unat (word_at f 20) \<le> rsize k1"
      using header_in_vm [OF p ex vm(2) fs] vm k1 by (simp add: kext_end_def)
    let ?I2 = "\<lambda>j (k', lc). j \<le> ?n \<and> lc = lc_off f j \<and> moved f ?sa k1 j k'"
    show ?thesis
    proof (rule wt_loop_u32 [where I = ?I2])
      show "?I2 0 (k1, 32)" by (simp add: moved_def)
    next
      fix j s assume I: "?I2 j s"
      obtain k' where s: "s = (k', lc_off f j)" "moved f ?sa k1 j k'" "j \<le> ?n"
        using I by (auto split: prod.splits)
      have size: "rsize k' = rsize k1" using s(2) by (simp add: moved_def)
      have "word_at k' 16 = word_at f 16"
        using moved_ahead [OF p s(3,2) head] by (intro field_cong) simp_all
      then have bound: "rd32 (fst s) 16 = Some (word_at f 16)"
        using s(1) size room1 by simp
      have step: "wt (kext_move_segment mh info j s) (?I2 (Suc j))" if "j < ?n"
        using move_segment_step [OF p that refl head room1 s(2), of j] s(1) that
        by (auto elim!: wt_mono)
      have "kext_image ?sa f k'" if "?n \<le> j"
      proof -
        have mv: "moved f ?sa k1 ?n k'" using s that by simp
        show ?thesis
          using mv k1(2) by (simp add: kext_image_def moved_def copied_def Let_def)
      qed
      then show "\<exists>n. rd32 (fst s) 16 = Some n \<and> (j < unat n \<longrightarrow> wt (kext_move_segment mh info j s) (?I2 (Suc j)))
          \<and> (unat n \<le> j \<longrightarrow> (case s of (k2, _) \<Rightarrow> rsize k2 = rsize k \<and> kext_image ?sa f k2))"
        using bound step s(1) size k1 by auto
    qed
  qed
  have set: "kext_set_kmod_info mh k2 info
      = Some (set_kmod_info mh info k2, info\<lparr>kmod_info := kext info + (kmod_info info - vm_base info)\<rparr>)"
    if "rsize k2 = rsize k" for k2
    using that kmod room by (simp add: kext_set_kmod_info_def set_kmod_info_def Let_def wr_poke)
  show ?thesis
    unfolding kext_map_def wt_ebind
  proof (rule wt_mono [OF loop1], goal_cases)
    case (1 x)
    then obtain k1 l1 where x: "x = (k1, l1)" and k1: "rsize k1 = rsize k" "copied f ?n k1"
      by (cases x) auto
    show ?case
      unfolding x prod.case wt_ebind
      by (rule wt_mono [OF loop2 [OF k1]]) (auto simp: set wp_simps)
  qed
qed

end
