(* ===== verification/Kext_Reloc.thy ===== *)
theory Kext_Reloc
  imports Kext_Image
begin

text \<open>
  \<open>kext_relocate\<close> and \<open>kext_link\<close> on a mapped kernel extension. For a file whose segments start
  at address 0 and whose relocations stay behind the load commands, both are a fold over the
  relocation entries, inside the block, followed by clearing the counters of the symbol table
  commands.
\<close>

section \<open>Relocation addresses\<close>

lemma reloc_in_bounds:
  assumes "vm_base info = 0" and "\<not> reloc_bad_address info r 3" and "unat (vm_size info) < 2 ^ 32"
  shows "reloc_offset info r + 8 \<le> unat (vm_size info)"
proof -
  let ?a = "scast r :: u64"
  have *: "unat ?a \<le> unat (vm_size info)" "unat (?a + 8) \<le> unat (vm_size info)"
    using assms(1,2)
    by (simp_all add: reloc_bad_address_def reloc_vm_addr_def Let_def word_le_nat_alt not_less push_bit_of_1)
  then have "unat (?a + 8) = unat ?a + 8"
    using assms(3) by (simp add: unat_word_ariths)
  with * show ?thesis using assms(1) by (simp add: reloc_offset_def)
qed

text \<open>The offset in the block that an entry of a relocation table designates.\<close>

definition entry_offset :: "region \<Rightarrow> kext_load_info \<Rightarrow> nat \<Rightarrow> nat \<Rightarrow> nat" where
  "entry_offset f info tab e = reloc_offset info (word_at f (tab + 8 * e))"

section \<open>Local relocations\<close>

fun reloc_fold :: "u64 \<Rightarrow> region \<Rightarrow> kext_load_info \<Rightarrow> nat \<Rightarrow> region \<Rightarrow> region" where
  "reloc_fold slide f info 0 k = k"
| "reloc_fold slide f info (Suc e) k =
     (let k' = reloc_fold slide f info e k; a = entry_offset f info (locrel info) e in
      poke k' a (le_bytes 8 (dword_at k' a + slide)))"

lemma rsize_reloc_fold [simp]: "rsize (reloc_fold slide f info n k) = rsize k"
  by (induction n) (simp_all add: Let_def)

lemma reloc_fold_below:
  assumes "\<And>e. e < n \<Longrightarrow> lim \<le> entry_offset f info (locrel info) e" and "off + 4 \<le> lim"
  shows "word_at (reloc_fold slide f info n k) off = word_at k off"
  using assms(1)
proof (induction n)
  case (Suc n)
  have "off + 4 \<le> entry_offset f info (locrel info) n"
    using assms(2) Suc.prems [OF lessI] by linarith
  moreover have "word_at (reloc_fold slide f info n k) off = word_at k off"
    using Suc by simp
  ultimately show ?case by (simp add: Let_def word_at_poke_other)
qed simp

lemma relocate_step:
  assumes ok: "locrel_ok f info e" and vb: "vm_base info = 0"
    and room: "locrel info + 8 * e + 8 \<le> rsize f" "unat (vm_size info) \<le> rsize k" "rsize k < 2 ^ 32"
  shows "kext_relocate_one slide f info e k =
    (let a = entry_offset f info (locrel info) e in
     Some (Inr (poke k a (le_bytes 8 (dword_at k a + slide)))))"
proof -
  have b: "\<not> r_extern (word_at f (locrel info + 8 * e + 4))" "r_length (word_at f (locrel info + 8 * e + 4)) = 3"
    "\<not> reloc_bad_address info (word_at f (locrel info + 8 * e)) 3"
    using ok by (simp_all add: locrel_ok_def Let_def)
  have "entry_offset f info (locrel info) e + 8 \<le> rsize k"
    using reloc_in_bounds [OF vb b(3)] room unfolding entry_offset_def by simp
  then show ?thesis
    using b room by (simp add: kext_relocate_one_def entry_offset_def Let_def wr_poke)
qed

text \<open>The whole of \<open>kext_relocate\<close>: relocate, then clear \<open>nlocrel\<close> and \<open>nsyms\<close>.\<close>

definition kext_relocated ::
  "u64 \<Rightarrow> region \<Rightarrow> nat \<Rightarrow> nat \<Rightarrow> region \<Rightarrow> kext_load_info \<Rightarrow> region" where
  "kext_relocated slide f st dst k info =
     poke (poke (reloc_fold slide f info (unat (word_at f (dst + 76))) k)
       (dst + 76) (le_bytes 4 (0 :: u32))) (st + 12) (le_bytes 4 (0 :: u32))"

lemma kext_relocate_spec:
  assumes ok: "kext_symtabs_ok lookup f info st dst" and vb: "vm_base info = 0"
    and f: "unat (file_size info) \<le> rsize f"
    and k: "unat (vm_size info) \<le> rsize k" "rsize k < 2 ^ 32" "kext_end f \<le> rsize k"
    and cnt: "word_at k (dst + 76) = word_at f (dst + 76)"
    and clear: "\<And>e. e < unat (word_at f (dst + 76)) \<Longrightarrow> kext_end f \<le> entry_offset f info (locrel info) e"
  shows "kext_relocate mh slide f st dst k info
    = Some (Inr (kext_relocated (va_for_ptr mh slide (kext info)) f st dst k info))"
proof -
  let ?n = "word_at f (dst + 76)" and ?s = "va_for_ptr mh slide (kext info)"
  have d: "dst + 80 \<le> kext_end f" "st + 24 \<le> kext_end f" "locrel info + 8 * unat ?n \<le> rsize f"
    and l: "\<And>e. e < unat ?n \<Longrightarrow> locrel_ok f info e"
    using ok f by (simp_all add: kext_symtabs_ok_def dysymtab_ok_def symtab_ok_def)
  have "wt (loop_u32 (\<lambda>k. rd32 k (dst + 76)) (kext_relocate_one ?s f info) 0 k)
      (\<lambda>k'. k' = reloc_fold ?s f info (unat ?n) k)"
  proof (rule wt_loop_u32 [where I = "\<lambda>j k'. j \<le> unat ?n \<and> k' = reloc_fold ?s f info j k"])
    fix j k' assume I: "j \<le> unat ?n \<and> k' = reloc_fold ?s f info j k"
    have "word_at k' (dst + 76) = ?n"
      using I reloc_fold_below [of j "kext_end f" f info "dst + 76" ?s k] clear cnt d by simp
    moreover have "wt (kext_relocate_one ?s f info j k') (\<lambda>k'. k' = reloc_fold ?s f info (Suc j) k)"
      if "j < unat ?n"
    proof -
      have "kext_relocate_one ?s f info j k' =
          (let a = entry_offset f info (locrel info) j in Some (Inr (poke k' a (le_bytes 8 (dword_at k' a + ?s)))))"
        by (rule relocate_step [OF l [OF that] vb]) (use I k d that in simp_all)
      then show ?thesis using I by (simp add: Let_def wp_simps)
    qed
    ultimately show "\<exists>n. rd32 k' (dst + 76) = Some n
        \<and> (j < unat n \<longrightarrow> wt (kext_relocate_one ?s f info j k')
             (\<lambda>k'. Suc j \<le> unat ?n \<and> k' = reloc_fold ?s f info (Suc j) k))
        \<and> (unat n \<le> j \<longrightarrow> k' = reloc_fold ?s f info (unat ?n) k)"
      using I d k by (auto simp del: reloc_fold.simps elim!: wt_mono)
  qed simp
  then show ?thesis
    using d k vb by (auto simp: kext_relocate_def kext_relocated_def Let_def wt_def wr_poke)
qed

section \<open>External relocations\<close>

text \<open>The address an external relocation resolves to, as it is found in the file.\<close>

definition entry_symbol :: "(bytes \<Rightarrow> u64 option) \<Rightarrow> region \<Rightarrow> nat \<Rightarrow> kext_load_info \<Rightarrow> nat \<Rightarrow> u64" where
  "entry_symbol lookup f st info e =
     (case cstr_at f (sym_stroff f st
         (nlist info + 16 * unat (r_symbolnum (word_at f (extrel info + 8 * e + 4))))) of
        None \<Rightarrow> 0
      | Some name \<Rightarrow> (case lookup name of None \<Rightarrow> 0 | Some a \<Rightarrow> a))"

fun link_fold ::
  "(bytes \<Rightarrow> u64 option) \<Rightarrow> u64 \<Rightarrow> region \<Rightarrow> nat \<Rightarrow> kext_load_info \<Rightarrow> nat \<Rightarrow> region \<Rightarrow> region" where
  "link_fold lookup slide f st info 0 k = k"
| "link_fold lookup slide f st info (Suc e) k =
     poke (link_fold lookup slide f st info e k) (entry_offset f info (extrel info) e)
       (le_bytes 8 (entry_symbol lookup f st info e + slide))"

lemma rsize_link_fold [simp]: "rsize (link_fold lookup slide f st info n k) = rsize k"
  by (induction n) simp_all

lemma link_fold_below:
  assumes "\<And>e. e < n \<Longrightarrow> lim \<le> entry_offset f info (extrel info) e" and "off + 4 \<le> lim"
  shows "word_at (link_fold lookup slide f st info n k) off = word_at k off"
  using assms(1)
proof (induction n)
  case (Suc n)
  have "off + 4 \<le> entry_offset f info (extrel info) n"
    using assms(2) Suc.prems [OF lessI] by linarith
  moreover have "word_at (link_fold lookup slide f st info n k) off = word_at k off"
    using Suc by simp
  ultimately show ?case by (simp add: word_at_poke_other)
qed simp

lemma link_step:
  assumes ok: "extrel_ok lookup f st info e" and vb: "vm_base info = 0"
    and names: "\<And>i. i < unat (word_at f (st + 12)) \<Longrightarrow> sym_name_ok f st (nlist info) i"
    and syms: "nlist info + 16 * unat (word_at f (st + 12)) \<le> rsize f"
    and room: "extrel info + 8 * e + 8 \<le> rsize f" "unat (vm_size info) \<le> rsize k" "rsize k < 2 ^ 32"
  shows "kext_link_one lookup slide f (unat (word_at f (st + 16))) info e k
    = Some (Inr (poke k (entry_offset f info (extrel info) e)
        (le_bytes 8 (entry_symbol lookup f st info e + slide))))"
proof -
  let ?er = "extrel info + 8 * e"
  define bits where "bits = word_at f (?er + 4)"
  define nl where "nl = nlist info + 16 * unat (r_symbolnum bits)"
  obtain name a where b: "r_extern bits" "r_length bits = 3" "r_symbolnum bits < word_at f (st + 12)"
    "\<not> reloc_bad_address info (word_at f ?er) 3"
    and name: "cstr_at f (sym_stroff f st nl) = Some name" and a: "lookup name = Some a" "a \<noteq> 0"
    using ok by (auto simp: extrel_ok_def Let_def bits_def nl_def split: option.splits)
  have i: "unat (r_symbolnum bits) < unat (word_at f (st + 12))"
    using b(3) by (simp add: word_less_nat_alt)
  have "word_at f (st + 16) \<le> word_at f (st + 16) + word_at f nl"
    using names [OF i] by (simp add: sym_name_ok_def nl_def)
  then have str: "sym_stroff f st nl = unat (word_at f (st + 16)) + unat (word_at f nl)"
    using no_olen_add_nat [of "word_at f (st + 16)" "word_at f nl"]
    by (simp add: sym_stroff_def unat_word_ariths)
  have "entry_offset f info (extrel info) e + 8 \<le> rsize k"
    using reloc_in_bounds [OF vb b(4)] room unfolding entry_offset_def by simp
  moreover have "entry_symbol lookup f st info e = a"
    using name a(1) by (simp add: entry_symbol_def bits_def [symmetric] nl_def)
  moreover have "rd32 f nl = Some (word_at f nl)"
    using i syms by (simp add: nl_def)
  ultimately show ?thesis
    using b room name a
    by (simp add: kext_link_one_def entry_offset_def Let_def wr_poke bits_def [symmetric] nl_def [symmetric]
        str va_for_sa_def)
qed

definition kext_linked ::
  "(bytes \<Rightarrow> u64 option) \<Rightarrow> u64 \<Rightarrow> region \<Rightarrow> nat \<Rightarrow> nat \<Rightarrow> region \<Rightarrow> kext_load_info \<Rightarrow> region" where
  "kext_linked lookup slide f st dst k info =
     poke (link_fold lookup slide f st info (unat (word_at f (dst + 68))) k) (dst + 68) (le_bytes 4 (0 :: u32))"

lemma kext_link_spec:
  assumes ok: "kext_symtabs_ok lookup f info st dst" and vb: "vm_base info = 0"
    and f: "unat (file_size info) \<le> rsize f"
    and k: "unat (vm_size info) \<le> rsize k" "rsize k < 2 ^ 32" "kext_end f \<le> rsize k"
    and hdr: "word_at k (dst + 68) = word_at f (dst + 68)" "word_at k (st + 16) = word_at f (st + 16)"
    and clear: "\<And>e. e < unat (word_at f (dst + 68)) \<Longrightarrow> kext_end f \<le> entry_offset f info (extrel info) e"
  shows "kext_link lookup slide f st dst k info = Some (Inr (kext_linked lookup slide f st dst k info))"
proof -
  let ?n = "word_at f (dst + 68)"
  have d: "dst + 80 \<le> kext_end f" "st + 24 \<le> kext_end f" "extrel info + 8 * unat ?n \<le> rsize f"
    "nlist info + 16 * unat (word_at f (st + 12)) \<le> rsize f"
    and l: "\<And>e. e < unat ?n \<Longrightarrow> extrel_ok lookup f st info e"
    using ok f by (simp_all add: kext_symtabs_ok_def dysymtab_ok_def symtab_ok_def)
  have names: "\<And>i. i < unat (word_at f (st + 12)) \<Longrightarrow> sym_name_ok f st (nlist info) i"
    using ok unfolding kext_symtabs_ok_def by blast
  let ?one = "kext_link_one lookup slide f (unat (word_at f (st + 16))) info"
  have "wt (loop_u32 (\<lambda>k. rd32 k (dst + 68)) ?one 0 k) (\<lambda>k'. k' = link_fold lookup slide f st info (unat ?n) k)"
  proof (rule wt_loop_u32 [where I = "\<lambda>j k'. j \<le> unat ?n \<and> k' = link_fold lookup slide f st info j k"])
    fix j k' assume I: "j \<le> unat ?n \<and> k' = link_fold lookup slide f st info j k"
    have "word_at k' (dst + 68) = ?n"
      using I link_fold_below [of j "kext_end f" f info "dst + 68" lookup slide st k] clear hdr d by simp
    moreover have "wt (?one j k') (\<lambda>k'. k' = link_fold lookup slide f st info (Suc j) k)" if "j < unat ?n"
    proof -
      have "?one j k' = Some (Inr (poke k' (entry_offset f info (extrel info) j)
          (le_bytes 8 (entry_symbol lookup f st info j + slide))))"
        by (rule link_step [OF l [OF that] vb names d(4)]) (use I k d that in simp_all)
      then show ?thesis using I by (simp add: wp_simps)
    qed
    ultimately show "\<exists>n. rd32 k' (dst + 68) = Some n
        \<and> (j < unat n \<longrightarrow> wt (?one j k') (\<lambda>k'. Suc j \<le> unat ?n \<and> k' = link_fold lookup slide f st info (Suc j) k))
        \<and> (unat n \<le> j \<longrightarrow> k' = link_fold lookup slide f st info (unat ?n) k)"
      using I d k by (auto simp del: link_fold.simps elim!: wt_mono)
  qed simp
  then show ?thesis
    using d k hdr by (auto simp: kext_link_def kext_linked_def wt_def wr_poke)
qed

section \<open>The values of relocated fields\<close>

text \<open>The 8-byte fields that the first \<open>n\<close> entries of a table designate do not overlap.\<close>

definition entries_apart :: "region \<Rightarrow> kext_load_info \<Rightarrow> nat \<Rightarrow> nat \<Rightarrow> bool" where
  "entries_apart f info tab n \<longleftrightarrow>
     (\<forall>i < n. \<forall>j < i. entry_offset f info tab i + 8 \<le> entry_offset f info tab j
        \<or> entry_offset f info tab j + 8 \<le> entry_offset f info tab i)"

lemma entries_apartD:
  "entries_apart f info tab (Suc n) \<Longrightarrow> e < n \<Longrightarrow>
     entry_offset f info tab n + 8 \<le> entry_offset f info tab e
     \<or> entry_offset f info tab e + 8 \<le> entry_offset f info tab n"
  "entries_apart f info tab (Suc n) \<Longrightarrow> entries_apart f info tab n"
  by (simp_all add: entries_apart_def)

lemma poke_dword_apart:
  "a + 8 \<le> b \<or> b + 8 \<le> a \<Longrightarrow> dword_at (poke k a (le_bytes 8 v)) b = dword_at k b"
  using word_at_poke_other(2) [of b a "le_bytes 8 v" k] by auto

text \<open>The bytes no entry designates.\<close>

definition outside_entries :: "region \<Rightarrow> kext_load_info \<Rightarrow> nat \<Rightarrow> nat \<Rightarrow> nat \<Rightarrow> bool" where
  "outside_entries f info tab n x \<longleftrightarrow>
     (\<forall>e < n. x < entry_offset f info tab e \<or> entry_offset f info tab e + 8 \<le> x)"

lemma reloc_fold_apart:
  assumes "\<And>e. e < n \<Longrightarrow> entry_offset f info (locrel info) e + 8 \<le> b \<or> b + 8 \<le> entry_offset f info (locrel info) e"
  shows "dword_at (reloc_fold slide f info n k) b = dword_at k b"
  using assms by (induction n) (simp_all add: Let_def poke_dword_apart)

lemma reloc_fold_value:
  "entries_apart f info (locrel info) n \<Longrightarrow> e < n \<Longrightarrow>
     dword_at (reloc_fold slide f info n k) (entry_offset f info (locrel info) e)
     = dword_at k (entry_offset f info (locrel info) e) + slide"
proof (induction n)
  case (Suc n)
  show ?case
  proof (cases "e = n")
    case True
    have "dword_at (reloc_fold slide f info n k) (entry_offset f info (locrel info) n)
        = dword_at k (entry_offset f info (locrel info) n)"
      using entries_apartD(1) [OF Suc.prems(1)] by (intro reloc_fold_apart) blast
    with True show ?thesis by (simp add: Let_def word_at_poke_same)
  next
    case False
    with Suc.prems have "e < n" by simp
    with Suc entries_apartD [OF Suc.prems(1)] show ?thesis
      by (simp add: Let_def poke_dword_apart)
  qed
qed simp

lemma reloc_fold_outside:
  "outside_entries f info (locrel info) n x \<Longrightarrow> rbyte (reloc_fold slide f info n k) x = rbyte k x"
  by (induction n) (auto simp: outside_entries_def Let_def rbyte_poke)

lemma link_fold_apart:
  assumes "\<And>e. e < n \<Longrightarrow> entry_offset f info (extrel info) e + 8 \<le> b \<or> b + 8 \<le> entry_offset f info (extrel info) e"
  shows "dword_at (link_fold lookup slide f st info n k) b = dword_at k b"
  using assms by (induction n) (simp_all add: poke_dword_apart)

lemma link_fold_value:
  "entries_apart f info (extrel info) n \<Longrightarrow> e < n \<Longrightarrow>
     dword_at (link_fold lookup slide f st info n k) (entry_offset f info (extrel info) e)
     = entry_symbol lookup f st info e + slide"
proof (induction n)
  case (Suc n)
  show ?case
  proof (cases "e = n")
    case True
    then show ?thesis by (simp add: word_at_poke_same)
  next
    case False
    with Suc.prems have "e < n" by simp
    with Suc entries_apartD [OF Suc.prems(1)] show ?thesis
      by (simp add: poke_dword_apart)
  qed
qed simp

lemma link_fold_outside:
  "outside_entries f info (extrel info) n x \<Longrightarrow> rbyte (link_fold lookup slide f st info n k) x = rbyte k x"
  by (induction n) (auto simp: outside_entries_def rbyte_poke)

end
