(* ===== verification/Kext_Insert.thy ===== *)
theory Kext_Insert
  imports Kext_Reloc Symbol_State
begin

text \<open>
  \<open>kext_insert\<close> of \<^verbatim>\<open>kextload.c\<close> puts a dictionary for the kernel extension into the
  \<open>__PRELINK_INFO\<close> section of the kernelcache, and \<open>command_kextload\<close> runs all the phases. The
  kernelcache is a region whose offset 0 is the address \<open>mh\<close>. pongoOS's search for the section is
  an argument; it answers the offset of the \<open>section_64\<close> structure.
\<close>

section \<open>The dictionary\<close>

text \<open>The dictionary, cut at the five fields that are filled in.\<close>

definition prelink_part0 :: string where
  "prelink_part0 =
     ''<dict><key>CFBundleName</key><string>KTRW_''"

definition prelink_part1 :: string where
  "prelink_part1 =
     ''</string><key>CFBundleIdentifier</key><string>com.apple.kec.KTRW_''"

definition prelink_part2 :: string where
  "prelink_part2 =
     ''</string><key>CFBundleInfoDictionaryVersion</key><string>6.0</string>'' @
     ''<key>OSBundleCompatibleVersion</key><string>1.0.0d1</string>'' @
     ''<key>CFBundleVersion</key><string>1.0.0</string>'' @
     ''<key>CFBundleExecutable</key><string>KTRW_HAX</string>'' @
     ''<key>CFBundleSignature</key><string>????</string>'' @
     ''<key>CFBundlePackageType</key><string>KEXT</string>'' @
     ''<key>CFBundleDevelopmentRegion</key><string>English</string>'' @
     ''<key>CFBundleShortVersionString</key><string>1.0.0</string>'' @
     ''<key>CFBundleSupportedPlatforms</key><array><string>iPhoneOS</string>'' @
     ''</array><key>AppleKernelExternalComponent</key><true/>'' @
     ''<key>_PrelinkExecutableRelativePath</key><string>KTRW_HAX</string>'' @
     ''<key>_PrelinkExecutableLoadAddr</key><integer size=\"64\">0x''"

definition prelink_part3 :: string where
  "prelink_part3 =
     ''</integer><key>_PrelinkExecutableSize</key><integer size=\"64\">0x''"

definition prelink_part4 :: string where
  "prelink_part4 =
     ''</integer><key>_PrelinkKmodInfo</key><integer size=\"64\">0x''"

definition prelink_part5 :: string where
  "prelink_part5 =
     ''</integer><key>UIRequiredDeviceCapabilities</key><array>'' @
     ''<string>arm64</string></array><key>MinimumOSVersion</key>'' @
     ''<string>13.3</string><key>IOKitPersonalities</key><dict></dict>'' @
     ''<key>OSBundleLibraries</key><dict><key>com.apple.kpi.bsd</key>'' @
     ''<string>8.0.0b1</string><key>com.apple.kpi.libkern</key>'' @
     ''<string>8.0.0b2</string><key>com.apple.kpi.mach</key>'' @
     ''<string>8.0.0b2</string><key>com.apple.kpi.iokit</key>'' @
     ''<string>8.0.0b2</string><key>com.apple.kpi.unsupported</key>'' @
     ''<string>8.0</string></dict><key>UIDeviceFamily</key><array>'' @
     ''<integer IDREF=\"2\"/></array></dict>''"

definition prelink_info_str :: string where
  "prelink_info_str =
     prelink_part0 @ ''NNN0'' @ prelink_part1 @ ''NNN1'' @ prelink_part2
     @ ''ADDRESS_________'' @ prelink_part3 @ ''SIZE____________'' @ prelink_part4
     @ ''KMODINFO________'' @ prelink_part5"

definition prelink_tail :: string where
  "prelink_tail = ''</array></dict>''"

definition hex_char :: "u8 list" where
  "hex_char = bytes_of ''0123456789abcdef''"

text \<open>\<open>format_hex\<close>: the digits from the last to the first.\<close>

definition format_hex_digit :: "nat \<Rightarrow> nat \<Rightarrow> nat \<Rightarrow> region \<times> u64 \<Rightarrow> (unit + (region \<times> u64)) option" where
  "format_hex_digit buf n i s = do {
     r \<leftarrow> wr_bytes (fst s) (buf + (n - (i + 1))) [hex_char ! unat (snd s AND 0xf)];
     Some (Inr (r, drop_bit 4 (snd s)))
   }"

definition format_hex :: "region \<Rightarrow> nat \<Rightarrow> nat \<Rightarrow> u64 \<Rightarrow> region option" where
  "format_hex r buf n value = do {
     x \<leftarrow> for_loop n 0 (format_hex_digit buf n) (r, value);
     (case x of Inl _ \<Rightarrow> None | Inr s \<Rightarrow> Some (fst s))
   }"

section \<open>Finding the end of the section\<close>

text \<open>\<open>while (p[-1] == 0) p--\<close>\<close>

fun skip_zeros :: "region \<Rightarrow> nat \<Rightarrow> nat option" where
  "skip_zeros r 0 = None"
| "skip_zeros r (Suc p) = do {
     c \<leftarrow> rd8 r p;
     if c = 0 then skip_zeros r p else Some (Suc p)
   }"

text \<open>\<open>while (strcmp(p, tail) != 0) { if (p <= begin) return; p--; }\<close>\<close>

fun find_tail :: "region \<Rightarrow> nat \<Rightarrow> nat \<Rightarrow> (unit + nat) option" where
  "find_tail r begin p = do {
     eq \<leftarrow> c_streq r p (bytes_of prelink_tail);
     if eq then Some (Inr p)
     else if p \<le> begin then Some (Inl ())
     else find_tail r begin (p - 1)
   }"

declare find_tail.simps [simp del]

text \<open>\<open>memmem\<close> on a part of a region.\<close>

definition find_bytes :: "region \<Rightarrow> nat \<Rightarrow> nat \<Rightarrow> string \<Rightarrow> nat option" where
  "find_bytes r p n s = do {
     big \<leftarrow> rd_bytes r p n;
     k \<leftarrow> c_memmem big (bytes_of s);
     Some (p + k)
   }"

text \<open>\<open>strcpy\<close> of a literal, with the zero behind it.\<close>

definition put_string :: "region \<Rightarrow> nat \<Rightarrow> string \<Rightarrow> region option" where
  "put_string r p s = wr_bytes r p (bytes_of s @ [0])"

section \<open>Insertion\<close>

definition kext_insert_at ::
  "u64 \<Rightarrow> nat \<Rightarrow> nat \<Rightarrow> u32 \<Rightarrow> kext_load_info \<Rightarrow> region \<Rightarrow> region option" where
  "kext_insert_at mh sec p kext_id info k0 = do {
     k1 \<leftarrow> put_string k0 p prelink_info_str;
     let info_size = length prelink_info_str;
     k2 \<leftarrow> put_string k1 (p + info_size) prelink_tail;
     nnn0 \<leftarrow> find_bytes k2 p info_size ''NNN0'';
     nnn1 \<leftarrow> find_bytes k2 p info_size ''NNN1'';
     address \<leftarrow> find_bytes k2 p info_size ''ADDRESS'';
     sz \<leftarrow> find_bytes k2 p info_size ''SIZE'';
     kmodinfo \<leftarrow> find_bytes k2 p info_size ''KMODINFO'';
     k3 \<leftarrow> format_hex k2 address 16 (sa_for_ptr mh (kext info));
     k4 \<leftarrow> format_hex k3 sz 16 (vm_size info);
     k5 \<leftarrow> format_hex k4 kmodinfo 16 (sa_for_ptr mh (kmod_info info));
     k6 \<leftarrow> format_hex k5 nnn0 4 (ucast kext_id);
     k7 \<leftarrow> format_hex k6 nnn1 4 (ucast kext_id);
     size0 \<leftarrow> rd64 k7 (sec + 40);
     wr64 k7 (sec + 40) (size0 + word_of_nat info_size)
   }"

text \<open>
  The result: the kernelcache and the next kext ID, which stay as they are when the end of the
  section is not found. The bounds of the section are read from its header.
\<close>

definition kext_insert ::
  "u64 \<Rightarrow> u64 \<Rightarrow> (region \<Rightarrow> nat option) \<Rightarrow> kext_load_info \<Rightarrow> region \<times> u32 \<Rightarrow> (bool \<times> region \<times> u32) option" where
  "kext_insert mh slide macho_get_section info s = do {
     let (kernel, kext_id) = s;
     sec \<leftarrow> macho_get_section kernel;
     addr0 \<leftarrow> rd64 kernel (sec + 32);
     size0 \<leftarrow> rd64 kernel (sec + 40);
     let begin = unat (ptr_for_va mh slide addr0 - mh);
     p0 \<leftarrow> skip_zeros kernel (begin + unat size0);
     r \<leftarrow> find_tail kernel begin p0;
     (case r of
        Inl _ \<Rightarrow> Some (False, kernel, kext_id)
      | Inr p \<Rightarrow> do {
          kernel' \<leftarrow> kext_insert_at mh sec p kext_id info kernel;
          Some (True, kernel', kext_id + 1)
        })
   }"

section \<open>The kextload command\<close>

datatype kextload_result =
    Kext_too_small
  | Kext_invalid kext_error
  | Kext_not_allocated
  | Kext_loaded region kext_load_info bool

record kextload_env =
  e_mh :: u64
  e_slide :: u64
  e_alloc_static :: static_allocator
  e_get_section :: "region \<Rightarrow> nat option"

text \<open>The three phases that work on the block.\<close>

definition kext_phases ::
  "(bytes \<Rightarrow> u64 option) \<Rightarrow> u64 \<Rightarrow> u64 \<Rightarrow> region \<Rightarrow> nat \<Rightarrow> nat \<Rightarrow> region \<Rightarrow> kext_load_info \<Rightarrow>
     (region \<times> kext_load_info) kext_result" where
  "kext_phases lookup mh slide f st dst k0 info0 =
     ebind (kext_map mh f k0 info0) (\<lambda>(k1, info1).
     ebind (kext_relocate mh slide f st dst k1 info1) (\<lambda>k2.
     ebind (kext_link lookup slide f st dst k2 info1) (\<lambda>k3. Some (Inr (k3, info1)))))"

text \<open>
  The phases after a successful \<open>kext_parse\<close>, on the checked file. The last component of
  \<open>Kext_loaded\<close> is whether the dictionary was inserted.
\<close>

definition kext_load_parsed ::
  "kextload_env \<Rightarrow> pongo_state \<Rightarrow> u32 \<Rightarrow> region \<Rightarrow> kext_load_info \<Rightarrow>
     (kextload_result \<times> pongo_state \<times> u32) option" where
  "kext_load_parsed env st kext_id file info =
     (let st1 = st\<lparr>loader_xfer_recv_data := file\<rparr>;
          lookup = kernelcache_symbol_table_lookup st1 in
      case kext_alloc (e_alloc_static env) info of
        Inl _ \<Rightarrow> Some (Kext_not_allocated, st1, kext_id)
      | Inr (k0, info0) \<Rightarrow> do {
          let sd = (symtab info0, dysymtab info0);
          stab \<leftarrow> fst sd;
          dtab \<leftarrow> snd sd;
          x \<leftarrow> kext_phases lookup (e_mh env) (e_slide env) file stab dtab k0 info0;
          (case x of
             Inl e \<Rightarrow> Some (Kext_invalid e, st1, kext_id)
           | Inr (k3, info1) \<Rightarrow> do {
               (ok, kernel, kext_id') \<leftarrow> kext_insert (e_mh env) (e_slide env) (e_get_section env) info1
                 (mh_execute_header st1, kext_id);
               Some (Kext_loaded k3 info1 ok, st1\<lparr>mh_execute_header := kernel\<rparr>, kext_id')
             })
        })"

definition command_kextload ::
  "kextload_env \<Rightarrow> pongo_state \<Rightarrow> u32 \<Rightarrow> (kextload_result \<times> pongo_state \<times> u32) option" where
  "command_kextload env st0 kext_id =
     (let kext_size = ucast (loader_xfer_recv_count st0) :: u64;
          st = st0\<lparr>loader_xfer_recv_count := 0\<rparr> in
      if kext_size < 0x4000 then Some (Kext_too_small, st, kext_id)
      else do {
        parsed \<leftarrow> kext_parse (kernelcache_symbol_table_lookup st) (loader_xfer_recv_data st) kext_size;
        (case parsed of
           Inl (e, file) \<Rightarrow> Some (Kext_invalid e, st\<lparr>loader_xfer_recv_data := file\<rparr>, kext_id)
         | Inr (file, info) \<Rightarrow> kext_load_parsed env st kext_id file info)
      })"

end
