(* ===== verification/Kext_Insert_Spec.thy ===== *)
theory Kext_Insert_Spec
  imports Kext_Insert
begin

text \<open>
  What \<open>kext_insert\<close> does to a \<open>__PRELINK_INFO.__info\<close> section that ends in the expected tail: the
  dictionary with its five fields filled in goes in front of the tail.
\<close>

section \<open>Formatting numbers\<close>

text \<open>The \<open>n\<close> hexadecimal digits of a value, the most significant first.\<close>

definition hex_nibble :: "u64 \<Rightarrow> nat \<Rightarrow> u8" where
  "hex_nibble v i = hex_char ! unat (drop_bit (4 * i) v AND 0xf)"

definition hex_digits :: "nat \<Rightarrow> u64 \<Rightarrow> bytes" where
  "hex_digits n v = rev (map (hex_nibble v) [0..<n])"

lemma length_hex_digits [simp]: "length (hex_digits n v) = n"
  by (simp add: hex_digits_def)

lemma poke_Nil [simp]: "poke r a [] = r"
  by (rule region.equality) (auto simp: poke_def fun_eq_iff)

lemma poke_poke_front:
  "length x = 1 \<Longrightarrow> poke (poke r (Suc a) bs) a x = poke r a (x @ bs)"
  by (auto simp: poke_def nth_append fun_eq_iff)

lemma format_hex_spec:
  assumes room: "buf + n \<le> rsize r"
  shows "format_hex r buf n v = Some (poke r buf (hex_digits n v))"
proof -
  let ?I = "\<lambda>i (r', v'). i \<le> n \<and> r' = poke r (buf + (n - i)) (hex_digits i v) \<and> v' = drop_bit (4 * i) v"
  have "wt (for_loop n 0 (format_hex_digit buf n) (r, v)) (?I (0 + n))"
  proof (rule wt_for_loop)
    show "?I 0 (r, v)" by (simp add: hex_digits_def)
  next
    fix i s assume i: "0 \<le> i" "i < 0 + n" and I: "?I i s"
    obtain r' where s: "s = (r', drop_bit (4 * i) v)" "r' = poke r (buf + (n - i)) (hex_digits i v)"
      using I by (auto split: prod.splits)
    have at: "buf + (n - i) = Suc (buf + (n - (i + 1)))" using i by simp
    have digits: "hex_digits (Suc i) v = [hex_nibble v i] @ hex_digits i v"
      by (simp add: hex_digits_def)
    have "wr_bytes r' (buf + (n - (i + 1))) [hex_nibble v i]
        = Some (poke r (buf + (n - (i + 1))) (hex_digits (Suc i) v))"
      using i room by (simp add: wr_poke s(2) at poke_poke_front digits)
    moreover have "drop_bit 4 (drop_bit (4 * i) v) = drop_bit (4 * Suc i) v"
      by (simp add: drop_bit_drop_bit add.commute)
    ultimately show "wt (format_hex_digit buf n i s) (?I (Suc i))"
      using i by (simp add: format_hex_digit_def s(1) wp_simps hex_nibble_def)
  qed
  then show ?thesis
    by (auto simp: format_hex_def wt_def)
qed

section \<open>The fields of the dictionary\<close>

lemma c_memmem_map: "inj f \<Longrightarrow> c_memmem (map f big) (map f little) = c_memmem big little"
proof (induction big arbitrary: little)
  case Nil
  then show ?case by simp
next
  case (Cons x big)
  have "take (length (map f little)) (map f (x # big)) = map f (take (length little) (x # big))"
    by (simp only: take_map length_map)
  then have "take (length (map f little)) (map f (x # big)) = map f little
      \<longleftrightarrow> take (length little) (x # big) = little"
    using inj_map_eq_map [OF Cons.prems] by metis
  with Cons show ?case by simp
qed

lemma c_memmem_here: "c_memmem (l @ post) l = Some 0"
proof (cases "l @ post")
  case (Cons a xs)
  have "take (length l) (l @ post) = l" by simp
  then show ?thesis by (simp add: Cons)
qed simp

lemma c_memmem_first:
  assumes "(x, y) \<notin> set (zip (pre @ l1 @ [x]) (tl (pre @ l1 @ [x])))"
  shows "c_memmem (pre @ (l1 @ [x, y] @ l2) @ post) (l1 @ [x, y] @ l2) = Some (length pre)"
  using assms
proof (induction pre)
  case Nil
  then show ?case using c_memmem_here [of "l1 @ [x, y] @ l2" post] by simp
next
  case (Cons a pre)
  let ?l = "l1 @ [x, y] @ l2" and ?s = "(a # pre) @ l1 @ [x]"
  have "take (length ?l) (a # pre @ ?l @ post) \<noteq> ?l"
  proof
    assume eq: "take (length ?l) (a # pre @ ?l @ post) = ?l"
    let ?k = "length l1"
    have split: "a # pre @ ?l @ post = ?s @ y # l2 @ post" by simp
    have "?s ! ?k = x"
    proof -
      have "(a # pre @ ?l @ post) ! ?k = ?l ! ?k"
        using arg_cong [OF eq, of "\<lambda>xs. xs ! ?k"] nth_take [of ?k "length ?l" "a # pre @ ?l @ post"] by simp
      moreover have "(a # pre @ ?l @ post) ! ?k = ?s ! ?k"
        unfolding split by (subst nth_append) simp
      ultimately show ?thesis by simp
    qed
    moreover have "?s ! Suc ?k = y"
    proof -
      have "(a # pre @ ?l @ post) ! Suc ?k = ?l ! Suc ?k"
        using arg_cong [OF eq, of "\<lambda>xs. xs ! Suc ?k"] nth_take [of "Suc ?k" "length ?l" "a # pre @ ?l @ post"] by simp
      moreover have "?l ! Suc ?k = y" by (simp add: nth_append)
      moreover have "(a # pre @ ?l @ post) ! Suc ?k = ?s ! Suc ?k"
        unfolding split by (subst nth_append) simp
      ultimately show ?thesis by simp
    qed
    moreover have "(?s ! ?k, ?s ! Suc ?k) \<in> set (zip ?s (tl ?s))"
      by (force simp: set_zip nth_tl)
    ultimately show False using Cons.prems by simp
  qed
  moreover have "(x, y) \<notin> set (zip (pre @ l1 @ [x]) (tl (pre @ l1 @ [x])))"
    using Cons.prems by (cases "pre @ l1 @ [x]") auto
  ultimately show ?case using Cons.IH by simp
qed

lemma field_at:
  assumes "big = pre @ l @ post" and "l = l1 @ [x, y] @ l2"
    and "(x, y) \<notin> set (zip (pre @ l1 @ [x]) (tl (pre @ l1 @ [x])))" and "length pre = n"
  shows "c_memmem big l = Some n"
  using c_memmem_first [OF assms(3), of l2 post] assms by simp

lemma field_NNN0: "c_memmem prelink_info_str ''NNN0'' = Some 42"
proof (rule field_at)
  show "prelink_info_str = (prelink_part0) @ ''NNN0'' @ prelink_part1 @ ''NNN1'' @ prelink_part2 @ ''ADDRESS_________'' @ prelink_part3 @ ''SIZE____________'' @ prelink_part4 @ ''KMODINFO________'' @ prelink_part5"
    by (simp add: prelink_info_str_def)
  show "''NNN0'' = ''NN'' @ [CHR ''N'', CHR ''0''] @ []" by simp
  show "(CHR ''N'', CHR ''0'') \<notin> set (zip ((prelink_part0) @ ''NN'' @ [CHR ''N'']) (tl ((prelink_part0) @ ''NN'' @ [CHR ''N''])))"
    unfolding prelink_part0_def by simp
  show "length (prelink_part0) = 42"
    unfolding prelink_part0_def by simp
qed

lemma field_NNN1: "c_memmem prelink_info_str ''NNN1'' = Some 111"
proof (rule field_at)
  show "prelink_info_str = (prelink_part0 @ ''NNN0'' @ prelink_part1) @ ''NNN1'' @ prelink_part2 @ ''ADDRESS_________'' @ prelink_part3 @ ''SIZE____________'' @ prelink_part4 @ ''KMODINFO________'' @ prelink_part5"
    by (simp add: prelink_info_str_def)
  show "''NNN1'' = ''NN'' @ [CHR ''N'', CHR ''1''] @ []" by simp
  show "(CHR ''N'', CHR ''1'') \<notin> set (zip ((prelink_part0 @ ''NNN0'' @ prelink_part1) @ ''NN'' @ [CHR ''N'']) (tl ((prelink_part0 @ ''NNN0'' @ prelink_part1) @ ''NN'' @ [CHR ''N''])))"
    unfolding prelink_part0_def prelink_part1_def by simp
  show "length (prelink_part0 @ ''NNN0'' @ prelink_part1) = 111"
    unfolding prelink_part0_def prelink_part1_def by simp
qed

lemma field_ADDRESS: "c_memmem prelink_info_str ''ADDRESS'' = Some 812"
proof (rule field_at)
  show "prelink_info_str = (prelink_part0 @ ''NNN0'' @ prelink_part1 @ ''NNN1'' @ prelink_part2) @ ''ADDRESS'' @ ''_________'' @ prelink_part3 @ ''SIZE____________'' @ prelink_part4 @ ''KMODINFO________'' @ prelink_part5"
    by (simp add: prelink_info_str_def)
  show "''ADDRESS'' = ''A'' @ [CHR ''D'', CHR ''D''] @ ''RESS''" by simp
  show "(CHR ''D'', CHR ''D'') \<notin> set (zip ((prelink_part0 @ ''NNN0'' @ prelink_part1 @ ''NNN1'' @ prelink_part2) @ ''A'' @ [CHR ''D'']) (tl ((prelink_part0 @ ''NNN0'' @ prelink_part1 @ ''NNN1'' @ prelink_part2) @ ''A'' @ [CHR ''D''])))"
    unfolding prelink_part0_def prelink_part1_def prelink_part2_def by simp
  show "length (prelink_part0 @ ''NNN0'' @ prelink_part1 @ ''NNN1'' @ prelink_part2) = 812"
    unfolding prelink_part0_def prelink_part1_def prelink_part2_def by simp
qed

lemma field_SIZE: "c_memmem prelink_info_str ''SIZE'' = Some 892"
proof (rule field_at)
  show "prelink_info_str = (prelink_part0 @ ''NNN0'' @ prelink_part1 @ ''NNN1'' @ prelink_part2 @ ''ADDRESS_________'' @ prelink_part3) @ ''SIZE'' @ ''____________'' @ prelink_part4 @ ''KMODINFO________'' @ prelink_part5"
    by (simp add: prelink_info_str_def)
  show "''SIZE'' = ''S'' @ [CHR ''I'', CHR ''Z''] @ ''E''" by simp
  show "(CHR ''I'', CHR ''Z'') \<notin> set (zip ((prelink_part0 @ ''NNN0'' @ prelink_part1 @ ''NNN1'' @ prelink_part2 @ ''ADDRESS_________'' @ prelink_part3) @ ''S'' @ [CHR ''I'']) (tl ((prelink_part0 @ ''NNN0'' @ prelink_part1 @ ''NNN1'' @ prelink_part2 @ ''ADDRESS_________'' @ prelink_part3) @ ''S'' @ [CHR ''I''])))"
    unfolding prelink_part0_def prelink_part1_def prelink_part2_def prelink_part3_def by simp
  show "length (prelink_part0 @ ''NNN0'' @ prelink_part1 @ ''NNN1'' @ prelink_part2 @ ''ADDRESS_________'' @ prelink_part3) = 892"
    unfolding prelink_part0_def prelink_part1_def prelink_part2_def prelink_part3_def by simp
qed

lemma field_KMODINFO: "c_memmem prelink_info_str ''KMODINFO'' = Some 966"
proof (rule field_at)
  show "prelink_info_str = (prelink_part0 @ ''NNN0'' @ prelink_part1 @ ''NNN1'' @ prelink_part2 @ ''ADDRESS_________'' @ prelink_part3 @ ''SIZE____________'' @ prelink_part4) @ ''KMODINFO'' @ ''________'' @ prelink_part5"
    by (simp add: prelink_info_str_def)
  show "''KMODINFO'' = [] @ [CHR ''K'', CHR ''M''] @ ''ODINFO''" by simp
  show "(CHR ''K'', CHR ''M'') \<notin> set (zip ((prelink_part0 @ ''NNN0'' @ prelink_part1 @ ''NNN1'' @ prelink_part2 @ ''ADDRESS_________'' @ prelink_part3 @ ''SIZE____________'' @ prelink_part4) @ [] @ [CHR ''K'']) (tl ((prelink_part0 @ ''NNN0'' @ prelink_part1 @ ''NNN1'' @ prelink_part2 @ ''ADDRESS_________'' @ prelink_part3 @ ''SIZE____________'' @ prelink_part4) @ [] @ [CHR ''K''])))"
    unfolding prelink_part0_def prelink_part1_def prelink_part2_def prelink_part3_def prelink_part4_def by simp
  show "length (prelink_part0 @ ''NNN0'' @ prelink_part1 @ ''NNN1'' @ prelink_part2 @ ''ADDRESS_________'' @ prelink_part3 @ ''SIZE____________'' @ prelink_part4) = 966"
    unfolding prelink_part0_def prelink_part1_def prelink_part2_def prelink_part3_def prelink_part4_def by simp
qed

lemma length_prelink_info_str: "length prelink_info_str = 1537"
  unfolding prelink_info_str_def prelink_part0_def prelink_part1_def prelink_part2_def prelink_part3_def
    prelink_part4_def prelink_part5_def by simp

section \<open>Overwriting a part\<close>

definition overlay :: "bytes \<Rightarrow> nat \<Rightarrow> bytes \<Rightarrow> bytes" where
  "overlay s k bs = take k s @ bs @ drop (k + length bs) s"

lemma length_overlay [simp]: "k + length bs \<le> length s \<Longrightarrow> length (overlay s k bs) = length s"
  by (simp add: overlay_def)

lemma holds_poke_inside:
  assumes "holds r p s" and "k + length bs \<le> length s"
  shows "holds (poke r (p + k) bs) p (overlay s k bs)"
proof -
  have at: "rbyte r (p + i) = s ! i" if "i < length s" for i
    using assms(1) nth_rslice [OF that, of r p] by (simp add: holds_def)
  have "rslice (poke r (p + k) bs) p (length s) = overlay s k bs"
    using assms(2) at by (intro nth_equalityI) (auto simp: rbyte_poke overlay_def nth_append)
  then show ?thesis
    using assms by (simp add: holds_def)
qed

lemma holds_poke_other:
  "holds r a s \<Longrightarrow> a + length s \<le> off1 \<or> off1 + length bs \<le> a \<Longrightarrow> holds (poke r off1 bs) a s"
  by (auto simp: holds_def rbyte_poke intro!: nth_equalityI)
    (metis holds_def nth_rslice)+

lemma holds_poke_same: "p + length bs \<le> rsize r \<Longrightarrow> holds (poke r p bs) p bs"
  by (auto simp: holds_def rbyte_poke intro!: nth_equalityI)

text \<open>The dictionary with its fields.\<close>

definition prelink_info_filled :: "u64 \<Rightarrow> u64 \<Rightarrow> u64 \<Rightarrow> u64 \<Rightarrow> bytes" where
  "prelink_info_filled address sz kmodinfo kid =
     overlay (overlay (overlay (overlay (overlay (bytes_of prelink_info_str)
       812 (hex_digits 16 address)) 892 (hex_digits 16 sz)) 966 (hex_digits 16 kmodinfo))
       42 (hex_digits 4 kid)) 111 (hex_digits 4 kid)"

lemma length_prelink_info_filled [simp]: "length (prelink_info_filled a s k i) = 1537"
  by (simp add: prelink_info_filled_def length_prelink_info_str)

lemma inj_of_char_u8: "inj (of_char :: char \<Rightarrow> u8)"
  by (simp add: inj_def)

lemma find_bytes_prelink:
  assumes "holds r p (bytes_of prelink_info_str)" and "c_memmem prelink_info_str s = Some k"
  shows "find_bytes r p 1537 s = Some (p + k)"
  using holds_rd(3) [OF assms(1)] c_memmem_map [OF inj_of_char_u8, of prelink_info_str s] assms(2)
  by (simp add: find_bytes_def length_prelink_info_str)

lemma length_prelink_tail: "length prelink_tail = 15"
  by (simp add: prelink_tail_def)

lemma kext_insert_at_spec:
  assumes room: "p + 1553 \<le> rsize r" "sec + 48 \<le> rsize r" "sec + 48 \<le> p \<or> p + 1553 \<le> sec"
  obtains r' where "kext_insert_at mh sec p kid info r = Some r'" and "rsize r' = rsize r"
    and "holds r' p (prelink_info_filled (sa_for_ptr mh (kext info)) (vm_size info)
          (sa_for_ptr mh (kmod_info info)) (ucast kid) @ bytes_of prelink_tail @ [0])"
    and "dword_at r' (sec + 40) = dword_at r (sec + 40) + 1537"
    and "\<And>i. i < p \<or> p + 1553 \<le> i \<Longrightarrow> i < sec + 40 \<or> sec + 48 \<le> i \<Longrightarrow> rbyte r' i = rbyte r i"
proof -
  let ?s = "bytes_of prelink_info_str" and ?t = "bytes_of prelink_tail"
  let ?a = "hex_digits 16 (sa_for_ptr mh (kext info))" and ?v = "hex_digits 16 (vm_size info)"
  let ?m = "hex_digits 16 (sa_for_ptr mh (kmod_info info))" and ?i = "hex_digits 4 (ucast kid)"
  note len = length_prelink_info_str length_prelink_tail
  define r1 where "r1 = poke r p (?s @ [0])"
  define r2 where "r2 = poke r1 (p + 1537) (?t @ [0])"
  define r3 where "r3 = poke r2 (p + 812) ?a"
  define r4 where "r4 = poke r3 (p + 892) ?v"
  define r5 where "r5 = poke r4 (p + 966) ?m"
  define r6 where "r6 = poke r5 (p + 42) ?i"
  define r7 where "r7 = poke r6 (p + 111) ?i"
  define r8 where "r8 = poke r7 (sec + 40) (le_bytes 8 (dword_at r7 (sec + 40) + 1537))"
  note rs = r1_def r2_def r3_def r4_def r5_def r6_def r7_def r8_def
  have size: "rsize r1 = rsize r" "rsize r2 = rsize r" "rsize r3 = rsize r" "rsize r4 = rsize r"
    "rsize r5 = rsize r" "rsize r6 = rsize r" "rsize r7 = rsize r" "rsize r8 = rsize r"
    by (simp_all add: rs)
  have h1: "holds r1 p ?s"
    using holds_poke_same [of p "?s @ [0]" r] room by (simp add: r1_def holds_append len)
  have h2: "holds r2 p ?s"
    unfolding r2_def by (rule holds_poke_other [OF h1]) (simp add: len)
  have t2: "holds r2 (p + 1537) (?t @ [0])"
    using holds_poke_same [of "p + 1537" "?t @ [0]" r1] room size by (simp add: r2_def holds_append len)
  note find = find_bytes_prelink [OF h2]
  have run: "kext_insert_at mh sec p kid info r = Some r8"
    using room size
    by (simp add: kext_insert_at_def put_string_def len find [OF field_NNN0] find [OF field_NNN1]
        find [OF field_ADDRESS] find [OF field_SIZE] find [OF field_KMODINFO] wr_poke format_hex_spec
        flip: rs)
  have "holds r7 p (prelink_info_filled (sa_for_ptr mh (kext info)) (vm_size info)
          (sa_for_ptr mh (kmod_info info)) (ucast kid))"
    unfolding prelink_info_filled_def r7_def r6_def r5_def r4_def r3_def
    by (intro holds_poke_inside h2) (simp_all add: len)
  moreover have "holds r7 (p + 1537) (?t @ [0])"
    unfolding r7_def r6_def r5_def r4_def r3_def
    by (intro holds_poke_other t2) (simp_all add: len)
  ultimately have body: "holds r8 p (prelink_info_filled (sa_for_ptr mh (kext info)) (vm_size info)
          (sa_for_ptr mh (kmod_info info)) (ucast kid) @ ?t @ [0])"
    unfolding holds_append r8_def using room(3)
    by (intro conjI holds_poke_other) (auto simp: len)
  have frame: "rbyte r7 i = rbyte r i" if "i < p \<or> p + 1553 \<le> i" for i
    using that by (auto simp: rs(1-7) rbyte_poke len)
  have "dword_at r7 (sec + 40) = dword_at r (sec + 40)"
    using frame room(3) by (intro field_cong) auto
  then have field: "dword_at r8 (sec + 40) = dword_at r (sec + 40) + 1537"
    by (simp add: r8_def word_at_poke_same)
  have "rbyte r8 i = rbyte r i" if "i < p \<or> p + 1553 \<le> i" "i < sec + 40 \<or> sec + 48 \<le> i" for i
    using frame [OF that(1)] that(2) by (auto simp: r8_def rbyte_poke)
  with run size(8) body field show thesis by (rule that)
qed

section \<open>Finding the tail\<close>

lemma skip_zeros_spec:
  assumes "holds r p (replicate z 0)" and "0 < p" and "rbyte r (p - 1) \<noteq> 0"
  shows "skip_zeros r (p + z) = Some p"
  using assms(1)
proof (induction z)
  case 0
  obtain q where "p = Suc q" using assms(2) by (cases p) auto
  with 0 assms(3) show ?case by simp
next
  case (Suc z)
  have "rslice r p (Suc z) = replicate (Suc z) 0" "p + Suc z \<le> rsize r"
    using Suc.prems by (simp_all add: holds_def)
  then have "rbyte r (p + z) = 0"
    using nth_rslice [of z "Suc z" r p] by (simp del: replicate_Suc)
  moreover have "holds r p (replicate z 0)"
    using Suc.prems holds_append [of r p "replicate z 0" "[0]"]
    by (simp add: replicate_append_same flip: replicate_Suc)
  ultimately show ?case
    using Suc.IH \<open>p + Suc z \<le> rsize r\<close> by simp
qed

lemma cstr_at_string:
  assumes "holds r p (s @ [0])" and "0 \<notin> set s" and "k \<le> length s"
  shows "cstr_at r (p + k) = Some (drop k s)"
proof -
  have "0 \<in> set (drop k (s @ [0]))" using assms(3) by simp
  from cstr_at_holds [OF assms(1) this] have "cstr_at r (p + k) = Some (takeWhile (\<lambda>c. c \<noteq> 0) (drop k s @ [0]))"
    using assms(3) by simp
  moreover have "takeWhile (\<lambda>c. c \<noteq> 0) (drop k s @ [0]) = drop k s"
    using assms(2) by (auto simp: takeWhile_append dest: in_set_dropD)
  ultimately show ?thesis by simp
qed

lemma find_tail_spec:
  assumes "holds r (begin + n) (bytes_of prelink_tail @ [0])" and "k \<le> 15"
  shows "find_tail r begin (begin + n + k) = Some (Inr (begin + n))"
  using assms(2)
proof (induction k)
  case 0
  let ?t = "bytes_of prelink_tail"
  have nz: "0 \<notin> set ?t" by (simp add: prelink_tail_def)
  have "c_streq r (begin + n) ?t = Some True"
    using c_streq_cstr [OF cstr_at_string [OF assms(1) nz, of 0] nz] by simp
  then show ?case by (subst find_tail.simps) simp
next
  case (Suc k)
  let ?t = "bytes_of prelink_tail"
  have nz: "0 \<notin> set ?t" by (simp add: prelink_tail_def)
  have "length (drop (Suc k) ?t) \<noteq> length ?t" using Suc.prems by (simp add: length_prelink_tail)
  then have "drop (Suc k) ?t \<noteq> ?t" by metis
  then have "c_streq r (begin + n + Suc k) ?t = Some False"
    using c_streq_cstr [OF cstr_at_string [OF assms(1) nz, of "Suc k"] nz] Suc.prems
    by (simp add: length_prelink_tail)
  with Suc show ?case by (subst find_tail.simps) simp
qed

section \<open>The whole insertion\<close>

text \<open>
  The section at file offset \<open>begin\<close> of the kernelcache: some text, the tail and at least one
  zero. Its header is at \<open>sec\<close>.
\<close>

definition prelink_section ::
  "u64 \<Rightarrow> u64 \<Rightarrow> region \<Rightarrow> nat \<Rightarrow> nat \<Rightarrow> bytes \<Rightarrow> nat \<Rightarrow> bool" where
  "prelink_section mh slide r sec begin txt z \<longleftrightarrow>
     sec + 48 \<le> rsize r
     \<and> begin = unat (ptr_for_va mh slide (dword_at r (sec + 32)) - mh)
     \<and> unat (dword_at r (sec + 40)) = length txt + 15 + Suc z
     \<and> holds r begin (txt @ bytes_of prelink_tail @ replicate (Suc z) 0)"

theorem kext_insert_spec:
  assumes s: "prelink_section mh slide r sec begin txt z" and get: "macho_get_section r = Some sec"
    and room: "begin + length txt + 1553 \<le> rsize r"
    and apart: "sec + 48 \<le> begin \<or> begin + length txt + 1553 \<le> sec"
  obtains r' where "kext_insert mh slide macho_get_section info (r, kid) = Some (True, r', kid + 1)"
    and "holds r' begin (txt @ prelink_info_filled (sa_for_ptr mh (kext info)) (vm_size info)
          (sa_for_ptr mh (kmod_info info)) (ucast kid) @ bytes_of prelink_tail @ [0])"
    and "dword_at r' (sec + 40) = dword_at r (sec + 40) + 1537"
    and "rsize r' = rsize r"
    and "\<And>i. i < begin + length txt \<or> begin + length txt + 1553 \<le> i \<Longrightarrow> i < sec + 40 \<or> sec + 48 \<le> i
          \<Longrightarrow> rbyte r' i = rbyte r i"
proof -
  let ?n = "length txt" and ?t = "bytes_of prelink_tail"
  note len = length_prelink_tail
  have S: "sec + 48 \<le> rsize r" "begin = unat (ptr_for_va mh slide (dword_at r (sec + 32)) - mh)"
    "unat (dword_at r (sec + 40)) = ?n + 15 + Suc z"
    and h: "holds r begin txt" "holds r (begin + ?n) ?t" "holds r (begin + ?n + 15) (replicate (Suc z) 0)"
    using s unfolding prelink_section_def holds_append length_map len by blast+
  have hz: "holds r (begin + ?n) (?t @ [0])"
    using h(2,3) holds_append [of r "begin + ?n + 15" "[0]" "replicate z 0"]
    by (simp add: holds_append len)
  have "rbyte r (begin + ?n + 14) = ?t ! 14"
    using h(2) nth_rslice [of 14 15 r "begin + ?n"] by (simp add: holds_def len)
  moreover have "begin + ?n + 15 - 1 = begin + ?n + 14" "?t ! 14 \<noteq> 0"
    by (simp_all add: prelink_tail_def)
  ultimately have "rbyte r (begin + ?n + 15 - 1) \<noteq> 0"
    by (simp only: not_False_eq_True)
  then have "skip_zeros r (begin + ?n + 15 + Suc z) = Some (begin + ?n + 15)"
    by (intro skip_zeros_spec h(3)) simp
  moreover have "find_tail r begin (begin + ?n + 15) = Some (Inr (begin + ?n))"
    using find_tail_spec [OF hz, of 15] by simp
  moreover obtain r' where r': "kext_insert_at mh sec (begin + ?n) kid info r = Some r'"
    "rsize r' = rsize r"
    "holds r' (begin + ?n) (prelink_info_filled (sa_for_ptr mh (kext info)) (vm_size info)
          (sa_for_ptr mh (kmod_info info)) (ucast kid) @ ?t @ [0])"
    "dword_at r' (sec + 40) = dword_at r (sec + 40) + 1537"
    "\<And>i. i < begin + ?n \<or> begin + ?n + 1553 \<le> i \<Longrightarrow> i < sec + 40 \<or> sec + 48 \<le> i \<Longrightarrow> rbyte r' i = rbyte r i"
    by (rule kext_insert_at_spec [of "begin + ?n" r sec mh kid info])
      (use room S(1) apart in auto)
  ultimately have run: "kext_insert mh slide macho_get_section info (r, kid) = Some (True, r', kid + 1)"
    using S(1) get by (simp add: kext_insert_def Let_def S(3) S(2) [symmetric] ac_simps)
  have "holds r' begin txt"
  proof -
    have "rslice r' begin ?n = rslice r begin ?n"
      using r'(5) apart by (intro rslice_cong) auto
    then show ?thesis using h(1) r'(2) by (simp add: holds_def)
  qed
  with r'(3) have body: "holds r' begin (txt @ prelink_info_filled (sa_for_ptr mh (kext info)) (vm_size info)
          (sa_for_ptr mh (kmod_info info)) (ucast kid) @ ?t @ [0])"
    by (simp add: holds_append)
  show thesis by (rule that [OF run body r'(4,2,5)])
qed

end
