(* ===== verification/Kext_Command.thy ===== *)
theory Kext_Command
  imports Kext_Insert_Spec Kext_Refused
begin

text \<open>
  The phases of \<open>command_kextload\<close> together. For an extension that \<open>kext_parse\<close> accepts, whose
  segments start at address 0 and whose relocations and \<open>kmod_info\<close> lie behind the load
  commands, mapping, relocating and linking neither fault nor leave the block, and the finished
  block is the mapped image with both relocation tables applied and the counters cleared.
\<close>

section \<open>The header of the mapped image\<close>

text \<open>
  What the later phases rely on beyond the checks of the parser: the addresses of the extension
  start at 0 and nothing that is patched overlaps the load commands.
\<close>

definition kext_layout_sane :: "region \<Rightarrow> kext_load_info \<Rightarrow> nat \<Rightarrow> bool" where
  "kext_layout_sane f info dst \<longleftrightarrow>
     vm_base info = 0
     \<and> kext_end f \<le> unat (kmod_info info) + 156
     \<and> (\<forall>e < unat (word_at f (dst + 76)). kext_end f \<le> entry_offset f info (locrel info) e)
     \<and> (\<forall>e < unat (word_at f (dst + 68)). kext_end f \<le> entry_offset f info (extrel info) e)"

lemma image_header:
  assumes p: "walk_ok f fsize base n" and n: "n = unat (word_at f 16)" and ex: "\<exists>m < n. is_seg f m"
    and vm: "vm_before f n < 2 ^ 32" and fs: "unat fsize < 2 ^ 32" and img: "kext_image sa f k"
    and x: "x < kext_end f" "\<not> vmaddr_field f n x"
  shows "rbyte k x = rbyte f x"
proof -
  obtain m where m: "m < n" "first_seg f m" "vm_before f m = 0"
    using ex first_seg_exists by blast
  then have s: "is_seg f m" by (simp add: first_seg_def)
  note seg = parsed_segment [OF p m(1) s vm fs]
  have "x < unat (seg_filesize f m)" using seg(5) [OF m(2)] x(1) by (simp add: kext_end_def)
  then show ?thesis
    using img m s x(2) seg(5) [OF m(2)] n by (force simp: kext_image_def Let_def)
qed

text \<open>The fields of a command that is no segment are not among the moved addresses.\<close>

lemma cmd_of_not_vmaddr:
  assumes p: "walk_ok f fsize base n" and c: "cmd_of f n c x len" and nc: "c \<noteq> LC_SEGMENT_64"
    and y: "x \<le> y" "y < x + len"
  shows "\<not> vmaddr_field f n y"
proof
  assume "vmaddr_field f n y"
  then obtain m where m: "m < n" "is_seg f m" "lc_off f m + 24 \<le> y" "y < lc_off f m + 32"
    by (auto simp: vmaddr_field_def)
  obtain i where i: "i < n" "x = lc_off f i" "x + len \<le> lc_off f (Suc i)" "word_at f x = c"
    using c by (auto simp: cmd_of_def)
  have "m \<noteq> i" using m(2) i(2,4) nc by (auto simp: is_seg_def)
  then consider "m < i" | "i < m" by linarith
  then show False
  proof cases
    case 1
    then show False using seg_gap [OF p 1 less_imp_le [OF i(1)] m(2)] m(4) i(2) y by simp
  next
    case 2
    then have "lc_off f (Suc i) \<le> lc_off f m" by (intro lc_off_mono) simp
    then show False using m(3) i(3) y by simp
  qed
qed

lemma cmd_of_disjoint:
  assumes "cmd_of f n c x len" and "cmd_of f n c' x' len'" and "c \<noteq> c'"
  shows "x + len \<le> x' \<or> x' + len' \<le> x"
proof -
  obtain i where i: "x = lc_off f i" "x + len \<le> lc_off f (Suc i)" "word_at f x = c"
    using assms(1) by (auto simp: cmd_of_def)
  obtain j where j: "x' = lc_off f j" "x' + len' \<le> lc_off f (Suc j)" "word_at f x' = c'"
    using assms(2) by (auto simp: cmd_of_def)
  have "i \<noteq> j" using i j assms(3) by auto
  then consider "Suc i \<le> j" | "Suc j \<le> i" by linarith
  then show ?thesis
    using i(1,2) j(1,2) lc_off_mono [of "Suc i" j f] lc_off_mono [of "Suc j" i f]
    by cases linarith+
qed

section \<open>Mapping, relocating and linking\<close>

text \<open>The block after the three phases, from the image that \<open>kext_map\<close> copied.\<close>

definition kext_finished ::
  "(bytes \<Rightarrow> u64 option) \<Rightarrow> u64 \<Rightarrow> u64 \<Rightarrow> region \<Rightarrow> nat \<Rightarrow> nat \<Rightarrow> kext_load_info \<Rightarrow> region \<Rightarrow> region" where
  "kext_finished lookup mh slide f st dst info k =
     kext_linked lookup slide f st dst
       (kext_relocated (va_for_ptr mh slide (kext info)) f st dst (set_kmod_info mh info k) info) info"

lemma same_relocations:
  "kext_symtabs_ok lookup f (info\<lparr>kmod_info := a\<rparr>) st dst = kext_symtabs_ok lookup f info st dst"
  "reloc_fold slide f (info\<lparr>kmod_info := a\<rparr>) n k = reloc_fold slide f info n k"
  "link_fold lookup slide f st (info\<lparr>kmod_info := a\<rparr>) n k = link_fold lookup slide f st info n k"
  "entry_offset f (info\<lparr>kmod_info := a\<rparr>) tab e = entry_offset f info tab e"
proof -
  show off: "entry_offset f (info\<lparr>kmod_info := a\<rparr>) tab e = entry_offset f info tab e" for tab e
    by (simp add: entry_offset_def reloc_offset_def)
  show "reloc_fold slide f (info\<lparr>kmod_info := a\<rparr>) n k = reloc_fold slide f info n k"
    by (induction n) (simp_all add: off Let_def)
  have "entry_symbol lookup f st (info\<lparr>kmod_info := a\<rparr>) e = entry_symbol lookup f st info e" for e
    by (simp add: entry_symbol_def)
  then show "link_fold lookup slide f st (info\<lparr>kmod_info := a\<rparr>) n k = link_fold lookup slide f st info n k"
    by (induction n) (simp_all add: off)
  show "kext_symtabs_ok lookup f (info\<lparr>kmod_info := a\<rparr>) st dst = kext_symtabs_ok lookup f info st dst"
    by (simp add: kext_symtabs_ok_def extrel_ok_def locrel_ok_def reloc_bad_address_def reloc_vm_addr_def)
qed

theorem kext_phases_spec:
  assumes parsed: "kext_parsed lookup f info" and st: "kext_symtabs_ok lookup f info st dst"
    and sane: "kext_layout_sane f info dst" and fs: "unat (file_size info) < 2 ^ 32"
    and room: "unat (vm_size info) \<le> rsize k0" "rsize k0 < 2 ^ 32"
  obtains k where "kext_image (sa_for_ptr mh (kext info)) f k" and "rsize k = rsize k0"
    and "kext_phases lookup mh slide f st dst k0 info
      = Some (Inr (kext_finished lookup mh slide f st dst info k, info\<lparr>kmod_info := kext info + kmod_info info\<rparr>))"
proof -
  let ?n = "unat (word_at f 16)" and ?sa = "sa_for_ptr mh (kext info)"
  let ?info = "info\<lparr>kmod_info := kext info + kmod_info info\<rparr>"
  have vb: "vm_base info = 0" using sane by (simp add: kext_layout_sane_def)
  have p: "walk_ok f (file_size info) (vm_base info) ?n" and ex: "\<exists>m < ?n. is_seg f m"
    and vms: "unat (vm_size info) = vm_before f ?n"
    using parsed by (simp_all add: kext_parsed_def)
  have vm: "vm_before f ?n < 2 ^ 32" using room vms by simp
  obtain k where img: "kext_image ?sa f k" and size: "rsize k = rsize k0"
    and map: "kext_map mh f k0 info = Some (Inr (set_kmod_info mh info k, ?info))"
    using kext_map_spec [OF parsed fs room, of mh] vb by (auto simp: wt_def)
  let ?k1 = "set_kmod_info mh info k"
  have d: "32 \<le> dst" "dst + 80 \<le> kext_end f" "32 \<le> st" "st + 24 \<le> kext_end f"
    and cmds: "cmd_of f ?n LC_SYMTAB st 24" "cmd_of f ?n LC_DYSYMTAB dst 80"
    using st by (simp_all add: kext_symtabs_ok_def symtab_ok_def dysymtab_ok_def)
  have head: "rbyte ?k1 x = rbyte f x" if "st \<le> x \<and> x < st + 24 \<or> dst \<le> x \<and> x < dst + 80" for x
  proof -
    have "\<not> vmaddr_field f ?n x"
      using that cmd_of_not_vmaddr [OF p cmds(1)] cmd_of_not_vmaddr [OF p cmds(2)] by auto
    then have "rbyte k x = rbyte f x"
      using image_header [OF p refl ex vm fs img] that d by auto
    moreover have "rbyte ?k1 x = rbyte k x"
      using that d sane vb by (auto simp: set_kmod_info_def Let_def rbyte_poke kext_layout_sane_def)
    ultimately show ?thesis by simp
  qed
  have words: "word_at ?k1 (dst + 76) = word_at f (dst + 76)" "word_at ?k1 (dst + 68) = word_at f (dst + 68)"
    "word_at ?k1 (st + 16) = word_at f (st + 16)"
    using head by (auto intro!: field_cong)
  have room1: "unat (vm_size ?info) \<le> rsize ?k1" "rsize ?k1 < 2 ^ 32" "kext_end f \<le> rsize ?k1"
    using room size vms header_in_vm [OF p ex vm fs] by (simp_all add: set_kmod_info_def Let_def)
  have st': "kext_symtabs_ok lookup f ?info st dst" using st by (simp add: same_relocations(1))
  have f: "unat (file_size ?info) \<le> rsize f" using p by (auto simp: walk_ok_def)
  let ?s = "va_for_ptr mh slide (kext info)"
  let ?k2 = "kext_relocated ?s f st dst ?k1 ?info"
  have clear: "kext_end f \<le> entry_offset f ?info (locrel ?info) e" if "e < unat (word_at f (dst + 76))" for e
    using sane that by (simp add: kext_layout_sane_def same_relocations(4))
  have clear': "kext_end f \<le> entry_offset f ?info (extrel ?info) e" if "e < unat (word_at f (dst + 68))" for e
    using sane that by (simp add: kext_layout_sane_def same_relocations(4))
  have vb': "vm_base ?info = 0" using vb by simp
  have reloc: "kext_relocate mh slide f st dst ?k1 ?info = Some (Inr ?k2)"
    using kext_relocate_spec [OF st' vb' f room1 words(1) clear, of mh slide] by simp
  have disj: "st + 24 \<le> dst \<or> dst + 80 \<le> st"
    using cmd_of_disjoint [OF cmds] by simp
  have words2: "word_at ?k2 (dst + 68) = word_at f (dst + 68)" "word_at ?k2 (st + 16) = word_at f (st + 16)"
    using words d disj reloc_fold_below [of "unat (word_at f (dst + 76))" "kext_end f" f ?info _ ?s ?k1] clear
    by (auto simp: kext_relocated_def word_at_poke_other)
  have room2: "unat (vm_size ?info) \<le> rsize ?k2" "rsize ?k2 < 2 ^ 32" "kext_end f \<le> rsize ?k2"
    using room1 by (simp_all add: kext_relocated_def)
  have link: "kext_link lookup slide f st dst ?k2 ?info
      = Some (Inr (kext_linked lookup slide f st dst ?k2 ?info))"
    by (rule kext_link_spec [OF st' vb' f room2 words2 clear'])
  have "kext_linked lookup slide f st dst ?k2 ?info = kext_finished lookup mh slide f st dst info k"
    by (simp add: kext_finished_def kext_linked_def kext_relocated_def same_relocations)
  then have "kext_phases lookup mh slide f st dst k0 info
      = Some (Inr (kext_finished lookup mh slide f st dst info k, ?info))"
    by (simp add: kext_phases_def map reloc link)
  with img size show thesis by (rule that)
qed

text \<open>The counters that the kernel's own loader would act on are zero in the finished block.\<close>

lemma kext_finished_counters:
  assumes st: "kext_symtabs_ok lookup f info st dst" and sane: "kext_layout_sane f info dst"
  shows "word_at (kext_finished lookup mh slide f st dst info k) (dst + 68) = 0"
    and "word_at (kext_finished lookup mh slide f st dst info k) (dst + 76) = 0"
    and "word_at (kext_finished lookup mh slide f st dst info k) (st + 12) = 0"
proof -
  have d: "dst + 80 \<le> kext_end f" "st + 24 \<le> kext_end f"
    and cmds: "cmd_of f (unat (word_at f 16)) LC_SYMTAB st 24" "cmd_of f (unat (word_at f 16)) LC_DYSYMTAB dst 80"
    using st by (simp_all add: kext_symtabs_ok_def symtab_ok_def dysymtab_ok_def)
  have disj: "st + 24 \<le> dst \<or> dst + 80 \<le> st" using cmd_of_disjoint [OF cmds] by simp
  have below: "word_at (link_fold lookup slide f st info (unat (word_at f (dst + 68))) k') o1 = word_at k' o1"
    if "o1 + 4 \<le> kext_end f" for k' o1
    by (rule link_fold_below [OF _ that]) (use sane in \<open>simp add: kext_layout_sane_def\<close>)
  show "word_at (kext_finished lookup mh slide f st dst info k) (dst + 68) = 0"
    by (simp add: kext_finished_def kext_linked_def word_at_poke_same)
  show "word_at (kext_finished lookup mh slide f st dst info k) (dst + 76) = 0"
    using d disj by (auto simp: kext_finished_def kext_linked_def kext_relocated_def word_at_poke_other
        word_at_poke_same below)
  show "word_at (kext_finished lookup mh slide f st dst info k) (st + 12) = 0"
    using d disj by (auto simp: kext_finished_def kext_linked_def kext_relocated_def word_at_poke_other
        word_at_poke_same below)
qed

section \<open>The command\<close>

lemma kext_parsed_update:
  "kext_parsed lookup f (info\<lparr>kext := a\<rparr>) = kext_parsed lookup f info"
  "kext_symtabs_ok lookup f (info\<lparr>kext := a\<rparr>) st dst = kext_symtabs_ok lookup f info st dst"
  "kext_layout_sane f (info\<lparr>kext := a\<rparr>) dst = kext_layout_sane f info dst"
proof -
  show *: "kext_symtabs_ok lookup f (info\<lparr>kext := a\<rparr>) st dst = kext_symtabs_ok lookup f info st dst" for st dst
    by (simp add: kext_symtabs_ok_def extrel_ok_def locrel_ok_def reloc_bad_address_def reloc_vm_addr_def)
  show "kext_parsed lookup f (info\<lparr>kext := a\<rparr>) = kext_parsed lookup f info"
    by (simp add: kext_parsed_def *)
  show "kext_layout_sane f (info\<lparr>kext := a\<rparr>) dst = kext_layout_sane f info dst"
    by (simp add: kext_layout_sane_def entry_offset_def reloc_offset_def)
qed

text \<open>The kernelcache has room for the dictionary in its \<open>__PRELINK_INFO\<close> section.\<close>

definition prelink_room :: "kextload_env \<Rightarrow> region \<Rightarrow> bool" where
  "prelink_room env r \<longleftrightarrow>
     (\<exists>sec begin txt z. e_get_section env r = Some sec
        \<and> prelink_section (e_mh env) (e_slide env) r sec begin txt z
        \<and> begin + length txt + 1553 \<le> rsize r
        \<and> (sec + 48 \<le> begin \<or> begin + length txt + 1553 \<le> sec))"

text \<open>The kernelcache after the insertion: the dictionary of the loaded extension stands between the old
  content of the section and its closing tags, the section's size has grown by its length, and
  every other byte is as before.\<close>

definition prelink_grown :: "kextload_env \<Rightarrow> region \<Rightarrow> kext_load_info \<Rightarrow> u32 \<Rightarrow> region \<Rightarrow> bool" where
  "prelink_grown env r info kid r' \<longleftrightarrow>
     (\<exists>sec begin txt z. e_get_section env r = Some sec
        \<and> prelink_section (e_mh env) (e_slide env) r sec begin txt z
        \<and> holds r' begin (txt @ prelink_info_filled (sa_for_ptr (e_mh env) (kext info)) (vm_size info)
              (sa_for_ptr (e_mh env) (kmod_info info)) (ucast kid) @ bytes_of prelink_tail @ [0])
        \<and> dword_at r' (sec + 40) = dword_at r (sec + 40) + 1537 \<and> rsize r' = rsize r
        \<and> (\<forall>i. i < begin + length txt \<or> begin + length txt + 1553 \<le> i \<longrightarrow> i < sec + 40 \<or> sec + 48 \<le> i
              \<longrightarrow> rbyte r' i = rbyte r i))"

lemma kext_insert_total:
  assumes "prelink_room env r"
  obtains r' where "kext_insert (e_mh env) (e_slide env) (e_get_section env) info (r, kid) = Some (True, r', kid + 1)"
    and "prelink_grown env r info kid r'"
proof -
  obtain sec b0 old z where s: "prelink_section (e_mh env) (e_slide env) r sec b0 old z"
    "e_get_section env r = Some sec" "b0 + length old + 1553 \<le> rsize r"
    "sec + 48 \<le> b0 \<or> b0 + length old + 1553 \<le> sec"
    using assms unfolding prelink_room_def by blast
  show thesis
    by (rule kext_insert_spec [where macho_get_section = "e_get_section env" and info = info and kid = kid, OF s], rule that, assumption)
       (unfold prelink_grown_def, intro exI conjI allI impI, rule s(2), rule s(1), simp_all only:)
qed

lemma lookup_recv_data [simp]:
  "kernelcache_symbol_table_lookup (st\<lparr>loader_xfer_recv_data := f\<rparr>) = kernelcache_symbol_table_lookup st"
  "kernelcache_symbol_table_lookup (st\<lparr>loader_xfer_recv_count := c\<rparr>) = kernelcache_symbol_table_lookup st"
  by (simp_all add: kernelcache_symbol_table_lookup_def fun_eq_iff)

lemma kext_load_parsed_spec:
  assumes parsed: "kext_parsed (kernelcache_symbol_table_lookup ps) f info"
    and sane: "\<And>dst. dysymtab info = Some dst \<Longrightarrow> kext_layout_sane f info dst"
    and fs: "unat (file_size info) < 2 ^ 32" and prelink: "prelink_room env (mh_execute_header ps)"
  obtains (full) e where "kext_alloc (e_alloc_static env) info = Inl e" and "kext_load_parsed env ps kid f info
      = Some (Kext_not_allocated, ps\<lparr>loader_xfer_recv_data := f\<rparr>, kid)"
  | (loaded) a k0 k st dst kernel where "kext_alloc (e_alloc_static env) info = Inr (k0, info\<lparr>kext := a\<rparr>)"
    and "kext_image (sa_for_ptr (e_mh env) a) f k" and "rsize k = rsize k0"
    and "symtab info = Some st" and "dysymtab info = Some dst"
    and "prelink_grown env (mh_execute_header ps) (info\<lparr>kext := a, kmod_info := a + kmod_info info\<rparr>) kid kernel"
    and "kext_load_parsed env ps kid f info
      = Some (Kext_loaded (kext_finished (kernelcache_symbol_table_lookup ps) (e_mh env) (e_slide env) f st dst
                (info\<lparr>kext := a\<rparr>) k) (info\<lparr>kext := a, kmod_info := a + kmod_info info\<rparr>) True,
              ps\<lparr>loader_xfer_recv_data := f, mh_execute_header := kernel\<rparr>, kid + 1)"
proof (cases "kext_alloc (e_alloc_static env) info")
  case (Inl e)
  then have "kext_load_parsed env ps kid f info
      = Some (Kext_not_allocated, ps\<lparr>loader_xfer_recv_data := f\<rparr>, kid)"
    by (simp add: kext_load_parsed_def Let_def)
  with Inl show thesis by (rule full)
next
  case (Inr x)
  then obtain k0 a where alloc: "kext_alloc (e_alloc_static env) info = Inr (k0, info\<lparr>kext := a\<rparr>)"
    using kext_alloc_fits(3) by (metis surj_pair)
  let ?info = "info\<lparr>kext := a\<rparr>" and ?look = "kernelcache_symbol_table_lookup ps"
  obtain st dst where sd: "kext_symtabs_ok ?look f info st dst"
    using parsed by (auto simp: kext_parsed_def)
  then have ptr: "symtab info = Some st" "dysymtab info = Some dst"
    by (simp_all add: kext_symtabs_ok_def)
  obtain k where img: "kext_image (sa_for_ptr (e_mh env) a) f k" "rsize k = rsize k0"
    and run: "kext_phases ?look (e_mh env) (e_slide env) f st dst k0 ?info
      = Some (Inr (kext_finished ?look (e_mh env) (e_slide env) f st dst ?info k,
                   ?info\<lparr>kmod_info := a + kmod_info info\<rparr>))"
    using kext_phases_spec [of ?look f ?info st dst k0 "e_mh env" "e_slide env"] parsed sd sane [OF ptr(2)] fs
      kext_alloc_fits(1,2) [OF alloc] by (auto simp: kext_parsed_update)
  obtain kernel where ins: "kext_insert (e_mh env) (e_slide env) (e_get_section env)
      (?info\<lparr>kmod_info := a + kmod_info info\<rparr>) (mh_execute_header ps, kid) = Some (True, kernel, kid + 1)"
    and grown: "prelink_grown env (mh_execute_header ps) (?info\<lparr>kmod_info := a + kmod_info info\<rparr>) kid kernel"
    using kext_insert_total [OF prelink] by blast
  from ins have "kext_load_parsed env ps kid f info
      = Some (Kext_loaded (kext_finished ?look (e_mh env) (e_slide env) f st dst ?info k)
                (?info\<lparr>kmod_info := a + kmod_info info\<rparr>) True,
              ps\<lparr>loader_xfer_recv_data := f, mh_execute_header := kernel\<rparr>, kid + 1)"
    by (simp add: kext_load_parsed_def alloc Let_def ptr run)
  with alloc img ptr grown show thesis by (intro loaded) simp_all
qed

text \<open>What each report of the command means: the state it leaves and, for a loaded extension, the
  block, the load information and the kernelcache. A refused upload stays in the receive buffer with
  the split info commands destroyed that the parser had passed.\<close>

definition kextload_outcome ::
  "kextload_env \<Rightarrow> pongo_state \<Rightarrow> u32 \<Rightarrow> kextload_result \<Rightarrow> pongo_state \<Rightarrow> u32 \<Rightarrow> bool" where
  "kextload_outcome env ps kid res ps' kid' \<longleftrightarrow>
     (let n = ucast (loader_xfer_recv_count ps) :: u64; look = kernelcache_symbol_table_lookup ps;
          parsed = kext_parse look (loader_xfer_recv_data ps) n;
          ps0 = ps\<lparr>loader_xfer_recv_count := 0\<rparr> in
      case res of
        Kext_too_small \<Rightarrow> n < 0x4000 \<and> ps' = ps0 \<and> kid' = kid
      | Kext_invalid e \<Rightarrow> (\<exists>g. 0x4000 \<le> n \<and> parsed = Some (Inl (e, g))
          \<and> (\<exists>j \<le> unat (word_at (loader_xfer_recv_data ps) 16). g = split_destroyed (loader_xfer_recv_data ps) j)
          \<and> ps' = ps0\<lparr>loader_xfer_recv_data := g\<rparr> \<and> kid' = kid)
      | Kext_not_allocated \<Rightarrow> (\<exists>f info. 0x4000 \<le> n \<and> parsed = Some (Inr (f, info))
          \<and> isl (kext_alloc (e_alloc_static env) info) \<and> ps' = ps0\<lparr>loader_xfer_recv_data := f\<rparr> \<and> kid' = kid)
      | Kext_loaded k info' ok \<Rightarrow>
          (\<exists>f info a k0 img st dst kernel. 0x4000 \<le> n \<and> parsed = Some (Inr (f, info)) \<and> kext_parsed look f info
             \<and> symtab info = Some st \<and> dysymtab info = Some dst
             \<and> kext_alloc (e_alloc_static env) info = Inr (k0, info\<lparr>kext := a\<rparr>)
             \<and> kext_image (sa_for_ptr (e_mh env) a) f img \<and> rsize img = rsize k0
             \<and> k = kext_finished look (e_mh env) (e_slide env) f st dst (info\<lparr>kext := a\<rparr>) img
             \<and> info' = info\<lparr>kext := a, kmod_info := a + kmod_info info\<rparr> \<and> ok \<and> kid' = kid + 1
             \<and> ps' = ps0\<lparr>loader_xfer_recv_data := f, mh_execute_header := kernel\<rparr>
             \<and> prelink_grown env (mh_execute_header ps) info' kid kernel))"

theorem command_kextload_total:
  assumes ok: "pongo_ok ps" and prelink: "prelink_room env (mh_execute_header ps)"
    and sane: "\<And>f info dst. kext_parse (kernelcache_symbol_table_lookup ps) (loader_xfer_recv_data ps)
        (ucast (loader_xfer_recv_count ps)) = Some (Inr (f, info)) \<Longrightarrow> dysymtab info = Some dst
        \<Longrightarrow> kext_layout_sane f info dst"
  obtains res ps' kid' where "command_kextload env ps kid = Some (res, ps', kid')"
    and "kextload_outcome env ps kid res ps' kid'"
proof (cases "ucast (loader_xfer_recv_count ps) < (0x4000 :: u64)")
  case True
  then have "command_kextload env ps kid = Some (Kext_too_small, ps\<lparr>loader_xfer_recv_count := 0\<rparr>, kid)"
    by (simp add: command_kextload_def Let_def)
  then show thesis by (rule that) (use True in \<open>simp add: kextload_outcome_def Let_def\<close>)
next
  case False
  let ?ps = "ps\<lparr>loader_xfer_recv_count := 0\<rparr>" and ?n = "ucast (loader_xfer_recv_count ps) :: u64"
  let ?look = "kernelcache_symbol_table_lookup ps"
  have n: "0x4000 \<le> unat ?n" "unat ?n \<le> rsize (loader_xfer_recv_data ps)" "unat ?n < 2 ^ 32"
    using False ok unat_u32_less [of "loader_xfer_recv_count ps"]
    by (simp_all add: pongo_ok_def word_less_nat_alt)
  note run = command_kextload_def [of env ps kid, unfolded Let_def, simplified False if_False lookup_recv_data]
  have "wp (kext_parse ?look (loader_xfer_recv_data ps) ?n) (\<lambda>(f, info).
      rsize f = rsize (loader_xfer_recv_data ps) \<and> file_size info = ?n \<and> kext_parsed ?look f info)"
    by (rule kernelcache.kext_parse_wp [OF ok]) (use n in simp_all)
  then show thesis
  proof (cases rule: wp_cases)
    case (error x)
    obtain e g where x: "x = (e, g)" by fastforce
    with error have run': "command_kextload env ps kid = Some (Kext_invalid e, ?ps\<lparr>loader_xfer_recv_data := g\<rparr>, kid)"
      by (simp add: run)
    have "\<exists>j \<le> unat (word_at (loader_xfer_recv_data ps) 16). g = split_destroyed (loader_xfer_recv_data ps) j"
      using error by (intro kext_parse_refused) (simp add: x)
    then show thesis
      by (intro that [OF run']) (use error False in \<open>simp add: kextload_outcome_def Let_def x\<close>)
  next
    case (result x)
    obtain f info where x: "x = (f, info)" by fastforce
    have parsed: "kext_parsed (kernelcache_symbol_table_lookup ?ps) f info" "unat (file_size info) < 2 ^ 32"
      using result n by (simp_all add: x)
    have lay: "kext_layout_sane f info dst" if "dysymtab info = Some dst" for dst
      using sane result that by (simp add: x)
    have room: "prelink_room env (mh_execute_header ?ps)" using prelink by simp
    have step: "command_kextload env ps kid = kext_load_parsed env ?ps kid f info"
      using result by (simp add: run x)
    show thesis
    proof (rule kext_load_parsed_spec [OF parsed(1) _ parsed(2) room, of kid])
      show "dysymtab info = Some dst \<Longrightarrow> kext_layout_sane f info dst" for dst by (rule lay)
    next
      fix e assume full: "kext_alloc (e_alloc_static env) info = Inl e"
        "kext_load_parsed env ?ps kid f info = Some (Kext_not_allocated, ?ps\<lparr>loader_xfer_recv_data := f\<rparr>, kid)"
      from step [unfolded full(2)] show thesis
        by (rule that) (use full(1) result False in \<open>simp add: kextload_outcome_def Let_def x\<close>)
    next
      fix a k0 k st dst kernel
      assume loaded: "kext_alloc (e_alloc_static env) info = Inr (k0, info\<lparr>kext := a\<rparr>)"
        "kext_image (sa_for_ptr (e_mh env) a) f k" "rsize k = rsize k0" "symtab info = Some st" "dysymtab info = Some dst"
        "prelink_grown env (mh_execute_header ?ps) (info\<lparr>kext := a, kmod_info := a + kmod_info info\<rparr>) kid kernel"
        and run': "kext_load_parsed env ?ps kid f info
          = Some (Kext_loaded (kext_finished (kernelcache_symbol_table_lookup ?ps) (e_mh env) (e_slide env) f st dst
                    (info\<lparr>kext := a\<rparr>) k) (info\<lparr>kext := a, kmod_info := a + kmod_info info\<rparr>) True,
                  ?ps\<lparr>loader_xfer_recv_data := f, mh_execute_header := kernel\<rparr>, kid + 1)"
      from step [unfolded run'] show thesis
        by (rule that) (use loaded parsed(1) result False in \<open>auto simp: kextload_outcome_def Let_def x\<close>)
    qed
  qed
qed

end
