(* ===== verification/Kext_Samples.thy ===== *)
theory Kext_Samples
  imports Upload_Props Kext_Command
begin

text \<open>
  Concrete inputs for the witnesses of the kernel extension loader's properties: \<open>sample_kext\<close>, a
  Mach-O extension of one segment with a \<open>kmod_info\<close>, one external and one local relocation, and
  \<open>sample_kernelcache\<close>, which has room in its \<open>__PRELINK_INFO\<close> section.
\<close>

section \<open>Samples\<close>

definition w32s :: "u32 list \<Rightarrow> bytes" where
  "w32s ws = concat (map (le_bytes 4) ws)"

text \<open>Segment 0..224 of the file in 448 bytes of memory, symbols at 224, relocations at 256 and 264,
  strings at 272. The external relocation is for \<open>ext\<close>, the local one for \<open>local\<close>.\<close>

definition kext_bytes :: "u64 \<Rightarrow> u32 \<Rightarrow> u32 \<Rightarrow> bytes" where
  "kext_bytes base ext local =
     w32s [0xfeedfacf, 0x100000c, 0, 0xb, 3, 176, 0, 0]
     @ w32s [0x19, 72, 0, 0, 0, 0] @ le_bytes 8 base @ w32s [448, 0, 0, 0, 224, 0, 7, 7, 0, 0]
     @ w32s [2, 24, 224, 2, 272, 17]
     @ w32s [0xb, 80, 0, 0, 0, 0, 0, 0, 0, 0, 0, 0, 0, 0, 0, 0, 256, 1, 264, 1]
     @ w32s [0x11111111, 0x11111111, 0x40, 0]
     @ w32s [1, 0x10e] @ le_bytes 8 (base + 224) @ w32s [12, 1, 0, 0]
     @ w32s [ext, 0x0E000001] @ w32s [local, 0x06000001]
     @ [0] @ bytes_of ''_kmod_info'' @ [0] @ bytes_of ''_foo'' @ [0]"

definition sample_kext :: region where
  "sample_kext = region_of (kext_bytes 0 208 216)"

definition sample_lookup :: "bytes \<Rightarrow> u64 option" where
  "sample_lookup s = Some (if s = bytes_of ''_foo'' then 0xFFFFFFF007008000 else 0)"

definition sample_info :: kext_load_info where
  "sample_info = kext_load_info_zero\<lparr>file_size := 289, vm_size := 448, vm_base := 0, kmod_info := 224,
     symtab := Some 104, dysymtab := Some 128, nlist := 224, extrel := 256, locrel := 264\<rparr>"

text \<open>One evaluation of the parser: its result and the words of the checked file that matter later.\<close>

lemma sample_kext_parse:
  "map_option (map_sum fst (\<lambda>(f, info). (info, [word_at f 20, word_at f 196, word_at f 204, word_at f 256, word_at f 264])))
     (kext_parse sample_lookup sample_kext 289)
   = Some (Inr (sample_info, [176, 1, 1, 208, 216]))"
  by code_simp

text \<open>The parser on any total lookup, as an instance of the service it asks for.\<close>

definition total_lookup :: "(bytes \<Rightarrow> u64 option) \<Rightarrow> bool" where
  "total_lookup lookup \<longleftrightarrow> (\<forall>s. 0 \<notin> set s \<longrightarrow> lookup s \<noteq> None)"

interpretation any_lookup: symbol_resolver "\<lambda>lookup. lookup" total_lookup
  by unfold_locales (simp add: total_lookup_def)

lemma sample_lookup_total: "total_lookup sample_lookup"
  by (simp add: total_lookup_def sample_lookup_def)

lemma kext_parse_accepted:
  assumes "total_lookup lookup" and "32 \<le> unat fsize" and "unat fsize \<le> rsize file"
    and "kext_parse lookup file fsize = Some (Inr (f, info))"
  shows "rsize f = rsize file" and "file_size info = fsize" and "kext_parsed lookup f info"
  using wp_Inr [OF any_lookup.kext_parse_wp [OF assms(1-3)] assms(4)] by simp_all

text \<open>The sample's checked file.\<close>

lemma sample_parsed:
  obtains f where "kext_parse sample_lookup sample_kext 289 = Some (Inr (f, sample_info))"
    and "kext_parsed sample_lookup f sample_info" and "kext_symtabs_ok sample_lookup f sample_info 104 128"
    and "kext_layout_sane f sample_info 128" and "rsize f = 289"
    and "word_at f 196 = 1" and "word_at f 204 = 1" and "word_at f 20 = 176"
    and "word_at f 256 = 208" and "word_at f 264 = 216"
proof -
  have len: "rsize sample_kext = 289" by code_simp
  obtain f where f: "kext_parse sample_lookup sample_kext 289 = Some (Inr (f, sample_info))"
    and words: "word_at f 20 = 176" "word_at f 196 = 1" "word_at f 204 = 1" "word_at f 256 = 208" "word_at f 264 = 216"
  proof -
    obtain z where z: "kext_parse sample_lookup sample_kext 289 = Some z"
      and "map_sum fst (\<lambda>(f, info). (info, [word_at f 20, word_at f 196, word_at f 204, word_at f 256, word_at f 264])) z
        = Inr (sample_info, [176, 1, 1, 208, 216])"
      using sample_kext_parse by (auto simp: map_option_eq_Some)
    then show thesis by (cases z) (auto intro: that)
  qed
  have parsed: "rsize f = 289" "kext_parsed sample_lookup f sample_info"
    using kext_parse_accepted [OF sample_lookup_total _ _ f] by (simp_all add: len)
  then obtain st dst where "kext_symtabs_ok sample_lookup f sample_info st dst"
    by (auto simp: kext_parsed_def)
  then have st: "kext_symtabs_ok sample_lookup f sample_info 104 128"
    by (auto simp: kext_symtabs_ok_def sample_info_def)
  have "kext_layout_sane f sample_info 128"
    by (simp add: kext_layout_sane_def words kext_end_def entry_offset_def reloc_offset_def)
       (simp add: sample_info_def words kext_load_info_zero_def)
  with f parsed st words that show thesis by blast
qed

text \<open>A block that holds the same bytes as a checked file, in 16 KB.\<close>

definition block_of :: "region \<Rightarrow> region" where
  "block_of f = \<lparr>rsize = 16384, rbyte = rbyte f\<rparr>"

lemma block_of_simps [simp]: "rsize (block_of f) = 16384" "rbyte (block_of f) = rbyte f"
  "word_at (block_of f) = word_at f" "dword_at (block_of f) = dword_at f"
  by (auto simp: block_of_def word_at_def dword_at_def rslice_def fun_eq_iff)

text \<open>A kernelcache whose section header is at 0 and whose section, seven bytes of text and the tail,
  is at 80.\<close>

definition sample_kernelcache :: region where
  "sample_kernelcache =
     (let bs = replicate 32 0 @ le_bytes 8 (static_base + 80) @ le_bytes 8 (23 :: u64) @ replicate 32 0
            @ bytes_of ''<array>'' @ bytes_of ''</array></dict>'' @ [0] in
      \<lparr>rsize = 3000, rbyte = (\<lambda>i. if i < length bs then bs ! i else 0)\<rparr>)"

lemma sample_kernelcache_section:
  "prelink_section 0 0 sample_kernelcache 0 80 (bytes_of ''<array>'') 0"
proof -
  have "dword_at sample_kernelcache 32 = static_base + 80" "dword_at sample_kernelcache 40 = 23"
    "rslice sample_kernelcache 80 23 = bytes_of ''<array>'' @ bytes_of ''</array></dict>'' @ [0]"
    by code_simp+
  moreover have size: "rsize sample_kernelcache = 3000"
    by (simp add: sample_kernelcache_def Let_def)
  moreover have "holds sample_kernelcache 80 (bytes_of ''<array>'' @ bytes_of prelink_tail @ replicate (Suc 0) 0)"
    (is "holds _ _ ?bs")
  proof -
    have "?bs = bytes_of ''<array>'' @ bytes_of ''</array></dict>'' @ [0]" "length ?bs = 23"
      by (simp_all add: prelink_tail_def)
    with calculation(3) size show ?thesis by (simp only: holds_def) simp
  qed
  ultimately show ?thesis
    by (simp add: prelink_section_def ptr_for_va_def ptr_for_sa_def sa_for_va_def)
qed

end
