(* ===== verification/Kext_Prefix.thy ===== *)
theory Kext_Prefix
  imports Kext_Refused Kext_Samples
begin

text \<open>
  A result on a file is the result on every larger buffer that starts with the same bytes. The rules
  relate two runs of the parser, construct by construct; that the parser never faults then gives
  that its verdict depends on the uploaded bytes only, not on what the receive buffer holds behind
  them.
\<close>

section \<open>Results on a larger buffer\<close>

definition extends :: "region \<Rightarrow> region \<Rightarrow> bool" where
  "extends r r' \<longleftrightarrow> rsize r \<le> rsize r' \<and> (\<forall>i < rsize r. rbyte r' i = rbyte r i)"

text \<open>A result of the first run, if it has one, is related to one of the second.\<close>

definition carries :: "('a \<Rightarrow> 'b \<Rightarrow> bool) \<Rightarrow> 'a option \<Rightarrow> 'b option \<Rightarrow> bool" where
  "carries R x y \<longleftrightarrow> (\<forall>a. x = Some a \<longrightarrow> (\<exists>b. y = Some b \<and> R a b))"

named_theorems carries_intros \<open>how results of a run are those of the run on a larger buffer\<close>

lemma carries_Some [carries_intros]: "R a b \<Longrightarrow> carries R (Some a) (Some b)"
  by (simp add: carries_def)

lemma carries_refl: "carries (=) x x"
  by (simp add: carries_def)

lemma carries_bind [carries_intros]:
  "carries (=) x y \<Longrightarrow> (\<And>a. carries R (f a) (g a)) \<Longrightarrow> carries R (x \<bind> f) (y \<bind> g)"
  by (auto simp: carries_def bind_eq_Some_conv)

lemma carries_bind_region [carries_intros]:
  "carries extends x y \<Longrightarrow> (\<And>a b. extends a b \<Longrightarrow> carries R (f a) (g b)) \<Longrightarrow> carries R (x \<bind> f) (y \<bind> g)"
  by (fastforce simp: carries_def bind_eq_Some_conv)

lemma carries_if [carries_intros]:
  "(c \<Longrightarrow> carries R x y) \<Longrightarrow> (\<not> c \<Longrightarrow> carries R x' y') \<Longrightarrow> carries R (if c then x else x') (if c then y else y')"
  by simp

lemma carries_error [carries_intros]: "carries (rel_sum (=) S) (Some (Inl e)) (Some (Inl e))"
  by (simp add: carries_def)

lemma carries_result [carries_intros]: "S a b \<Longrightarrow> carries (rel_sum E S) (Some (Inr a)) (Some (Inr b))"
  by (simp add: carries_def)

lemma carries_ebind:
  assumes "carries (rel_sum E S) x y" and "\<And>a b. S a b \<Longrightarrow> carries (rel_sum E T) (f a) (g b)"
  shows "carries (rel_sum E T) (ebind x f) (ebind y g)"
proof (cases x)
  case (Some a)
  then obtain b where "y = Some b" "rel_sum E S a b" using assms(1) by (auto simp: carries_def)
  with Some assms(2) show ?thesis
    by (cases a; cases b) (auto simp: ebind_def carries_def)
qed (simp add: ebind_def carries_def)

lemma carries_ebind_same:
  "carries (rel_sum E (=)) x y \<Longrightarrow> (\<And>a. carries (rel_sum E T) (f a) (g a)) \<Longrightarrow> carries (rel_sum E T) (ebind x f) (ebind y g)"
  by (rule carries_ebind [where S = "(=)"]) simp_all

lemma carries_loop_u32:
  assumes "S s t" and "\<And>a b. S a b \<Longrightarrow> carries (=) (bound a) (bound' b)"
    and "\<And>i a b. S a b \<Longrightarrow> carries (rel_sum E S) (body i a) (body' i b)"
  shows "carries (rel_sum E S) (loop_u32 bound body i s) (loop_u32 bound' body' i t)"
  using assms(1)
proof (induction "4294967296 - i" arbitrary: i s t rule: less_induct)
  case less
  have next_step: "carries (rel_sum E S) (loop_u32 bound body (Suc i) a) (loop_u32 bound' body' (Suc i) b)"
    if "S a b" "i < unat (n :: u32)" for a b n
    using less.hyps [of "Suc i" a b] that unat_u32_less [of n] by simp
  show ?case
    by (subst (1 2) loop_u32.simps)
      (intro carries_bind carries_if assms(2,3) less.prems carries_ebind [where S = S] carries_result; blast intro: next_step less.prems assms(3))
qed

section \<open>Reads\<close>

lemma extends_refl: "extends r r" by (simp add: extends_def)

lemma extends_rslice: "extends r r' \<Longrightarrow> p + n \<le> rsize r \<Longrightarrow> rslice r' p n = rslice r p n"
  by (rule rslice_cong) (simp add: extends_def)

lemma carries_rd [carries_intros]:
  assumes "extends r r'"
  shows "carries (=) (rd8 r p) (rd8 r' p)" "carries (=) (rd32 r p) (rd32 r' p)"
    "carries (=) (rd64 r p) (rd64 r' p)"
  using assms extends_rslice [OF assms]
  by (auto simp: carries_def rd8_def rd32_def rd64_def extends_def)

lemma carries_wr32 [carries_intros]:
  "extends r r' \<Longrightarrow> carries extends (wr32 r p w) (wr32 r' p w)"
  by (auto simp: carries_def wr32_def wr_bytes_def extends_def)

lemma carries_strnlen [carries_intros]:
  "extends r r' \<Longrightarrow> carries (=) (c_strnlen r s n) (c_strnlen r' s n)"
proof (induction n arbitrary: s)
  case (Suc n)
  then show ?case by (fastforce simp: carries_def bind_eq_Some_conv rd8_def extends_def split: if_splits)
qed (simp add: carries_def)

lemma carries_streq [carries_intros]:
  "extends r r' \<Longrightarrow> carries (=) (c_streq r p cs) (c_streq r' p cs)"
proof (induction cs arbitrary: p)
  case (Cons c cs)
  then show ?case by (auto simp: carries_def extends_def)
qed (auto simp: carries_def extends_def)

lemma carries_cstr_at [carries_intros]:
  "extends r r' \<Longrightarrow> carries (=) (cstr_at r p) (cstr_at r' p)"
proof (induction r p rule: cstr_at.induct)
  case (1 r p)
  show ?case
  proof (cases "p < rsize r")
    case True
    then have "p < rsize r'" "rbyte r' p = rbyte r p" using "1.prems" by (simp_all add: extends_def)
    with True 1 show ?thesis
      by (subst (1 2) cstr_at.simps) (auto simp: carries_def)
  next
    case False
    then show ?thesis by (subst cstr_at.simps) (simp add: carries_def)
  qed
qed

section \<open>Errors that carry the file\<close>

definition same_stop :: "kext_error \<times> region \<Rightarrow> kext_error \<times> region \<Rightarrow> bool" where
  "same_stop x y \<longleftrightarrow> fst y = fst x \<and> extends (snd x) (snd y)"

lemma carries_stop [carries_intros]:
  "extends f f' \<Longrightarrow> carries (rel_sum same_stop S) (Some (Inl (e, f))) (Some (Inl (e, f')))"
  by (simp add: carries_def same_stop_def)

lemma carries_with_file [carries_intros]:
  assumes "extends f f'" and "carries (rel_sum (=) S) x y"
  shows "carries (rel_sum same_stop S) (with_file f x) (with_file f' y)"
proof (cases x)
  case (Some a)
  then obtain b where "y = Some b" "rel_sum (=) S a b" using assms(2) by (auto simp: carries_def)
  with Some assms(1) show ?thesis
    by (cases a; cases b) (auto simp: carries_def same_stop_def)
qed (simp add: carries_def)

section \<open>The parser\<close>

text \<open>The local variables are the same, the file has grown.\<close>

definition walk_extends :: "kext_walk \<Rightarrow> kext_walk \<Rightarrow> bool" where
  "walk_extends w w' \<longleftrightarrow> extends (w_file w) (w_file w') \<and> w' = w\<lparr>w_file := w_file w'\<rparr>"

lemma walk_extendsD:
  assumes "walk_extends w w'"
  shows "extends (w_file w) (w_file w')" "w_info w' = w_info w" "w_vmaddr w' = w_vmaddr w"
    "w_found w' = w_found w" "w_lc w' = w_lc w"
proof -
  have e: "extends (w_file w) (w_file w')" "w' = w\<lparr>w_file := w_file w'\<rparr>"
    using assms by (simp_all add: walk_extends_def)
  show "extends (w_file w) (w_file w')" by (rule e)
  show "w_info w' = w_info w" "w_vmaddr w' = w_vmaddr w" "w_found w' = w_found w" "w_lc w' = w_lc w"
    by (subst e(2), simp)+
qed

lemma walk_extends_update [carries_intros]:
  assumes "walk_extends w w'"
  shows "walk_extends (w\<lparr>w_info := info\<rparr>) (w'\<lparr>w_info := info\<rparr>)"
    and "walk_extends (w\<lparr>w_vmaddr := a\<rparr>) (w'\<lparr>w_vmaddr := a\<rparr>)"
    and "walk_extends (w\<lparr>w_found := b, w_vmaddr := a, w_info := info\<rparr>) (w'\<lparr>w_found := b, w_vmaddr := a, w_info := info\<rparr>)"
    and "walk_extends (w\<lparr>w_lc := n\<rparr>) (w'\<lparr>w_lc := n\<rparr>)"
    and "extends f f' \<Longrightarrow> walk_extends (w\<lparr>w_file := f\<rparr>) (w'\<lparr>w_file := f'\<rparr>)"
  using assms by (cases w; cases w'; simp add: walk_extends_def)+

lemma carries_parse_segment [carries_intros]:
  assumes w: "walk_extends w w'"
  shows "carries (rel_sum (=) walk_extends) (kext_parse_segment w) (kext_parse_segment w')"
proof -
  have first: "walk_extends (if w_found w then w
        else w\<lparr>w_found := True, w_vmaddr := a, w_info := (w_info w)\<lparr>vm_base := a\<rparr>\<rparr>)
      (if w_found w then w' else w'\<lparr>w_found := True, w_vmaddr := a, w_info := (w_info w)\<lparr>vm_base := a\<rparr>\<rparr>)" for a
    using w by (simp add: carries_intros)
  show ?thesis
    unfolding kext_parse_segment_def Let_def walk_extendsD(2-) [OF w] walk_extendsD(2-) [OF first]
    by (intro carries_intros walk_extendsD(1) w first)
qed

lemma carries_parse_symtab [carries_intros]:
  assumes w: "walk_extends w w'"
  shows "carries (rel_sum (=) walk_extends) (kext_parse_symtab w) (kext_parse_symtab w')"
  unfolding kext_parse_symtab_def Let_def walk_extendsD(2-) [OF w]
  by (intro carries_intros walk_extendsD(1) w)

lemma carries_parse_dysymtab [carries_intros]:
  assumes w: "walk_extends w w'"
  shows "carries (rel_sum (=) walk_extends) (kext_parse_dysymtab w) (kext_parse_dysymtab w')"
  unfolding kext_parse_dysymtab_def Let_def walk_extendsD(2-) [OF w]
  by (intro carries_intros walk_extendsD(1) w)

lemma carries_destroy_split_info [carries_intros]:
  assumes w: "walk_extends w w'"
  shows "carries (rel_sum same_stop walk_extends) (kext_destroy_split_info w) (kext_destroy_split_info w')"
  unfolding kext_destroy_split_info_def Let_def walk_extendsD(2-) [OF w]
  by (intro carries_bind [OF carries_rd(2)] carries_if carries_bind_region [OF carries_wr32] carries_result
      walk_extends_update(5) walk_extendsD(1) w)

lemma carries_when [carries_intros]:
  assumes w: "walk_extends w w'"
    and f: "\<And>v v'. walk_extends v v' \<Longrightarrow> carries (rel_sum (=) walk_extends) (f v) (f' v')"
  shows "carries (rel_sum same_stop walk_extends) (kext_when c f w) (kext_when c f' w')"
  unfolding kext_when_def Let_def walk_extendsD(2-) [OF w]
  by (intro carries_intros walk_extendsD(1) w f)

lemma carries_next_command [carries_intros]:
  assumes w: "walk_extends w w'"
  shows "carries (rel_sum same_stop walk_extends) (kext_next_command w) (kext_next_command w')"
  unfolding kext_next_command_def Let_def walk_extendsD(2-) [OF w]
  by (intro carries_intros walk_extendsD(1) w)

lemma carries_parse_command [carries_intros]:
  assumes w: "walk_extends w w'"
  shows "carries (rel_sum same_stop walk_extends) (kext_parse_command e i w) (kext_parse_command e i w')"
  unfolding kext_parse_command_def Let_def walk_extendsD(2-) [OF w]
  by (intro carries_bind [OF carries_rd(2)] carries_if carries_error carries_stop carries_ebind [where S = walk_extends]
      carries_when carries_destroy_split_info carries_parse_segment carries_parse_symtab carries_parse_dysymtab
      carries_next_command walk_extendsD(1) w)

lemma carries_parse_commands:
  assumes f: "extends f f'"
  shows "carries (rel_sum same_stop walk_extends) (kext_parse_commands f fsize) (kext_parse_commands f' fsize)"
  unfolding kext_parse_commands_def
  by (intro carries_bind [OF carries_rd(2)] carries_if carries_stop carries_loop_u32 carries_parse_command f)
    (simp_all add: walk_extends_def f kext_ncmds_def carries_rd)

lemma carries_stroff [carries_intros]:
  "extends f f' \<Longrightarrow> carries (=) (nlist_stroff f st nl) (nlist_stroff f' st nl)"
  unfolding nlist_stroff_def by (intro carries_bind [OF carries_rd(2)] carries_Some refl)

lemma carries_split [carries_intros]:
  "(\<And>a b. carries R (f a b) (g a b)) \<Longrightarrow> carries R (case x of (a, b) \<Rightarrow> f a b) (case x of (a, b) \<Rightarrow> g a b)"
  by (cases x) simp

lemma carries_parse_symbol:
  assumes "extends f f'"
  shows "carries (rel_sum (=) (=)) (kext_parse_symbol f st vm_end i info) (kext_parse_symbol f' st vm_end i info)"
  unfolding kext_parse_symbol_def Let_def by (intro carries_intros assms refl)

lemma carries_parse_extrel:
  assumes "extends f f'"
  shows "carries (rel_sum (=) (=)) (kext_parse_extrel lookup f st info i m) (kext_parse_extrel lookup f' st info i m)"
  unfolding kext_parse_extrel_def Let_def by (intro carries_intros carries_refl [of "lookup _"] assms refl)

lemma carries_parse_locrel:
  assumes "extends f f'"
  shows "carries (rel_sum (=) (=)) (kext_parse_locrel f info i u) (kext_parse_locrel f' info i u)"
  unfolding kext_parse_locrel_def Let_def by (intro carries_intros assms refl)

lemma carries_loop_same:
  assumes "\<And>s. carries (=) (bound s) (bound' s)" and "\<And>i s. carries (rel_sum (=) (=)) (body i s) (body' i s)"
  shows "carries (rel_sum (=) (=)) (loop_u32 bound body i s) (loop_u32 bound' body' i s)"
  by (rule carries_loop_u32) (use assms in auto)

lemma carries_parse_symbols:
  assumes "extends f f'"
  shows "carries (rel_sum (=) (=)) (kext_parse_symbols f st vm_end info) (kext_parse_symbols f' st vm_end info)"
  unfolding kext_parse_symbols_def
  by (intro carries_bind [OF carries_rd(2)] carries_ebind_same carries_loop_same carries_if carries_error carries_result
      carries_parse_symbol carries_rd(2) assms refl)

lemma carries_parse_relocations:
  assumes "extends f f'"
  shows "carries (rel_sum (=) (=)) (kext_parse_relocations lookup f st dst info) (kext_parse_relocations lookup f' st dst info)"
  unfolding kext_parse_relocations_def Let_def
  by (intro carries_bind [OF carries_rd(2)] carries_ebind_same carries_loop_same carries_if carries_error carries_result
      carries_parse_extrel carries_parse_locrel carries_rd(2) assms refl)

text \<open>A parsed file and its load information: the same information, the file has grown.\<close>

definition parsed_extends :: "region \<times> kext_load_info \<Rightarrow> region \<times> kext_load_info \<Rightarrow> bool" where
  "parsed_extends x y \<longleftrightarrow> extends (fst x) (fst y) \<and> snd y = snd x"

theorem kext_parse_extends:
  assumes "extends f f'"
  shows "carries (rel_sum same_stop parsed_extends) (kext_parse lookup f fsize) (kext_parse lookup f' fsize)"
  unfolding kext_parse_def Let_def
proof (rule carries_ebind [OF carries_parse_commands [OF assms]], goal_cases)
  case (1 w w')
  note grown = walk_extendsD(1) [OF 1]
  have fin: "carries (rel_sum same_stop parsed_extends) (Some (Inr (w_file w, info))) (Some (Inr (w_file w', info)))" for info
    using grown by (simp add: carries_result parsed_extends_def)
  show ?case
    unfolding walk_extendsD(2-) [OF 1]
    by (intro carries_if carries_stop)
      (auto intro!: carries_stop carries_ebind_same carries_with_file carries_parse_symbols carries_parse_relocations grown fin split: option.split)
qed

section \<open>What is behind the upload\<close>

definition same_prefix :: "nat \<Rightarrow> region \<Rightarrow> region \<Rightarrow> bool" where
  "same_prefix n f f' \<longleftrightarrow> (\<forall>i < n. rbyte f' i = rbyte f i)"

text \<open>The same verdict: the same error or the same information, on files that agree in the first \<open>n\<close> bytes.\<close>

definition same_verdict :: "nat \<Rightarrow> (region \<times> kext_load_info) kext_stop \<Rightarrow> (region \<times> kext_load_info) kext_stop \<Rightarrow> bool" where
  "same_verdict n = rel_option (rel_sum (\<lambda>(e, g) (e', g'). e' = e \<and> same_prefix n g g')
     (\<lambda>(g, info) (g', info'). same_prefix n g g' \<and> info' = info))"

lemma same_verdictD:
  assumes "same_verdict n x y"
  shows "((\<exists>g. x = Some (Inl (e, g))) \<longleftrightarrow> (\<exists>g. y = Some (Inl (e, g))))
    \<and> ((\<exists>g. x = Some (Inr (g, info))) \<longleftrightarrow> (\<exists>g. y = Some (Inr (g, info))))
    \<and> (x = Some (Inr (g, info)) \<longrightarrow> y = Some (Inr (g', info')) \<longrightarrow> (\<forall>i < n. rbyte g' i = rbyte g i))
    \<and> (x = Some (Inl (e, g)) \<longrightarrow> y = Some (Inl (e', g')) \<longrightarrow> (\<forall>i < n. rbyte g' i = rbyte g i))"
  using assms
  by (cases x; cases y; simp add: same_verdict_def same_prefix_def; case_tac a; case_tac aa; auto)

lemma carries_verdict:
  assumes "carries (rel_sum same_stop parsed_extends) x y" and "carries (rel_sum same_stop parsed_extends) x z" and "x \<noteq> None"
    and "\<And>g info. x = Some (Inr (g, info)) \<Longrightarrow> rsize g = n" and "\<And>e g. x = Some (Inl (e, g)) \<Longrightarrow> rsize g = n"
  shows "same_verdict n y z"
proof -
  obtain a b c where x: "x = Some a" "y = Some b" "z = Some c" "rel_sum same_stop parsed_extends a b" "rel_sum same_stop parsed_extends a c"
    using assms(1-3) by (auto simp: carries_def)
  show ?thesis
  proof (cases a)
    case (Inl eg)
    then have "rsize (snd eg) = n" using assms(5) [of "fst eg" "snd eg"] x(1) by simp
    with x Inl show ?thesis
      by (cases b; cases c) (auto simp: same_verdict_def same_prefix_def same_stop_def extends_def)
  next
    case (Inr gi)
    then have "rsize (fst gi) = n" using assms(4) [of "fst gi" "snd gi"] x(1) by simp
    with x Inr show ?thesis
      by (cases b; cases c) (auto simp: same_verdict_def same_prefix_def parsed_extends_def extends_def)
  qed
qed

lemma kext_parse_prefix:
  assumes lookup: "total_lookup lookup" and room: "32 \<le> unat fsize"
    and size: "unat fsize \<le> rsize f" "unat fsize \<le> rsize f'" and same: "same_prefix (unat fsize) f f'"
  shows "same_verdict (unat fsize) (kext_parse lookup f fsize) (kext_parse lookup f' fsize)"
proof -
  let ?c = "f\<lparr>rsize := unat fsize\<rparr>"
  have cut: "wp (kext_parse lookup ?c fsize) (\<lambda>(g, info). rsize g = unat fsize \<and> file_size info = fsize \<and> kext_parsed lookup g info)"
    using any_lookup.kext_parse_wp [OF lookup room, of ?c] by simp
  have "extends ?c f" "extends ?c f'"
    using size same by (simp_all add: extends_def same_prefix_def)
  then have "carries (rel_sum same_stop parsed_extends) (kext_parse lookup ?c fsize) (kext_parse lookup f fsize)"
    "carries (rel_sum same_stop parsed_extends) (kext_parse lookup ?c fsize) (kext_parse lookup f' fsize)"
    by (simp_all add: kext_parse_extends)
  then show ?thesis
  proof (rule carries_verdict [OF _ _ wp_not_None [OF cut]])
    show "rsize g = unat fsize" if "kext_parse lookup ?c fsize = Some (Inr (g, info))" for g info
      using cut that by (simp add: wp_def)
    show "rsize g = unat fsize" if "kext_parse lookup ?c fsize = Some (Inl (e, g))" for e g
    proof -
      have "rsize (split_destroyed ?c j) = unat fsize" for j
        using current_command(1) [of 0 j ?c] by simp
      with kext_parse_refused [OF that] show ?thesis by auto
    qed
  qed
qed

lemma same_prefix_field:
  assumes "same_prefix n f f'"
  shows "p + 4 \<le> n \<Longrightarrow> word_at f' p = word_at f p" and "p + 8 \<le> n \<Longrightarrow> dword_at f' p = dword_at f p"
  using assms by (auto intro!: field_cong simp: same_prefix_def)

lemma kext_accepts_prefix:
  assumes lookup: "total_lookup lookup" and room: "32 \<le> unat fsize"
    and size: "unat fsize \<le> rsize f" "unat fsize \<le> rsize f'" and same: "same_prefix (unat fsize) f f'"
    and acc: "kext_accepts lookup (split_destroyed f (unat (word_at f 16))) fsize info"
  shows "kext_accepts lookup (split_destroyed f' (unat (word_at f' 16))) fsize info"
    and "same_prefix (unat fsize) (split_destroyed f (unat (word_at f 16))) (split_destroyed f' (unat (word_at f' 16)))"
proof -
  have exact: "kext_parse lookup g fsize = Some (Inr (g', i)) \<longleftrightarrow>
      g' = split_destroyed g (unat (word_at g 16)) \<and> kext_accepts lookup (split_destroyed g (unat (word_at g 16))) fsize i"
    if "unat fsize \<le> rsize g" for g g' i
    using kext_parse_exact [OF _ room that] lookup by (simp add: total_lookup_def)
  have "kext_parse lookup f fsize = Some (Inr (split_destroyed f (unat (word_at f 16)), info))"
    using acc by (simp add: exact [OF size(1)])
  with kext_parse_prefix [OF lookup room size same]
  obtain g' where "kext_parse lookup f' fsize = Some (Inr (g', info))"
    "same_prefix (unat fsize) (split_destroyed f (unat (word_at f 16))) g'"
    by (auto simp: same_verdict_def option_rel_Some1 rel_sum.simps)
  then show "kext_accepts lookup (split_destroyed f' (unat (word_at f' 16))) fsize info"
    "same_prefix (unat fsize) (split_destroyed f (unat (word_at f 16))) (split_destroyed f' (unat (word_at f' 16)))"
    by (simp_all add: exact [OF size(2)])
qed

text \<open>What an accepted file relies on beyond the checks lies in its upload, too.\<close>

lemma kext_layout_sane_prefix:
  assumes same: "same_prefix (unat fsize) f f'" and acc: "kext_accepts lookup f fsize info" and room: "32 \<le> unat fsize"
    and dst: "dysymtab info = Some dst" and sane: "kext_layout_sane f info dst"
  shows "kext_layout_sane f' info dst"
proof -
  note word = same_prefix_field(1) [OF same]
  obtain st where found: "find_cmd f LC_SYMTAB (unat (word_at f 16)) = Some st"
      "find_cmd f LC_DYSYMTAB (unat (word_at f 16)) = Some dst"
    and info: "info = accepted_info f fsize st dst"
    using acc dst by (auto simp: kext_accepts_def accepted_info_def Let_def split: option.splits)
  have fits: "\<forall>j < unat (word_at f 16). command_fits f fsize j" "32 + unat (word_at f 20) \<le> unat fsize"
    using acc by (simp_all add: kext_accepts_def)
  note room = found_commands(3-5) [OF fits found]
  have tabs: "extrel info = unat (word_at f (dst + 64))" "locrel info = unat (word_at f (dst + 72))"
    by (simp_all add: info accepted_info_def Let_def)
  have "kext_end f' = kext_end f" "word_at f' (dst + 68) = word_at f (dst + 68)" "word_at f' (dst + 76) = word_at f (dst + 76)"
    using word [of 20] word [of "dst + 68"] word [of "dst + 76"] room(1) \<open>32 \<le> unat fsize\<close> by (simp_all add: kext_end_def)
  moreover have "entry_offset f' info (extrel info) e = entry_offset f info (extrel info) e"
    if "e < unat (word_at f (dst + 68))" for e
    using word [of "extrel info + 8 * e"] that room(2) by (simp add: entry_offset_def tabs)
  moreover have "entry_offset f' info (locrel info) e = entry_offset f info (locrel info) e"
    if "e < unat (word_at f (dst + 76))" for e
    using word [of "locrel info + 8 * e"] that room(3) by (simp add: entry_offset_def tabs)
  ultimately show ?thesis
    using sane by (simp add: kext_layout_sane_def)
qed

end
