(* ===== verification/Kext_Session.thy ===== *)
theory Kext_Session
  imports Kext_Accept Kext_Command
begin

text \<open>
  Several extensions in one session: what one \<open>kextload\<close> command needs of the kernelcache is left for
  the next one, so that a sequence of acceptable uploads is loaded as a whole.
\<close>

section \<open>The section after an insertion\<close>

text \<open>A section behind which the kernelcache has zeros for \<open>k\<close> more dictionaries.\<close>

definition prelink_slack :: "u64 \<Rightarrow> u64 \<Rightarrow> region \<Rightarrow> nat \<Rightarrow> nat \<Rightarrow> bytes \<Rightarrow> nat \<Rightarrow> nat \<Rightarrow> bool" where
  "prelink_slack mh slide r sec begin txt z k \<longleftrightarrow>
     prelink_section mh slide r sec begin txt z
     \<and> holds r (begin + length txt + 15) (replicate (Suc z + 1537 * k) 0)
     \<and> (sec + 48 \<le> begin \<or> begin + length txt + 16 + z + 1537 * k \<le> sec)
     \<and> length txt + 16 + z + 1537 * k < 2 ^ 64"

lemma prelink_section_unique:
  assumes "prelink_section mh slide r sec b txt1 z" and "prelink_section mh slide r sec b' txt' z'"
  shows "b' = b \<and> txt' = txt1 \<and> z' = z"
proof -
  have b: "b' = b" and len: "length txt' + z' = length txt1 + z"
    using assms by (simp_all add: prelink_section_def)
  let ?t = "bytes_of prelink_tail"
  have eq: "txt' @ ?t @ replicate (Suc z') 0 = txt1 @ ?t @ replicate (Suc z) 0"
    using assms len unfolding prelink_section_def holds_def b
    by (simp add: length_prelink_tail del: replicate_Suc) (metis (no_types, lifting) add.assoc add.commute)
  have count: "length (takeWhile (\<lambda>c. c = 0) (rev (xs @ ?t @ replicate n 0))) = n" for xs n
    by (simp add: prelink_tail_def takeWhile_append)
  have "Suc z' = Suc z"
    using count [of txt' "Suc z'"] count [of txt1 "Suc z"] unfolding eq by simp
  with eq b show ?thesis by simp
qed

lemma holds_replicate: "holds r p (replicate n 0) \<longleftrightarrow> p + n \<le> rsize r \<and> (\<forall>i < n. rbyte r (p + i) = 0)"
  by (auto simp: holds_def list_eq_iff_nth_eq)

text \<open>One insertion uses up the room of one dictionary.\<close>

lemma prelink_slack_step:
  assumes slack: "prelink_slack mh slide r sec b txt1 z (Suc k)"
    and body: "holds r' b (txt1 @ d @ bytes_of prelink_tail @ [0])" and d: "length d = 1537"
    and size: "dword_at r' (sec + 40) = dword_at r (sec + 40) + 1537" and rs: "rsize r' = rsize r"
    and frame: "\<And>i. i < b + length txt1 \<or> b + length txt1 + 1553 \<le> i \<Longrightarrow> i < sec + 40 \<or> sec + 48 \<le> i
          \<Longrightarrow> rbyte r' i = rbyte r i"
  shows "prelink_slack mh slide r' sec b (txt1 @ d) z k"
proof -
  let ?n = "length txt1" and ?t = "bytes_of prelink_tail"
  have s: "sec + 48 \<le> rsize r" "b = unat (ptr_for_va mh slide (dword_at r (sec + 32)) - mh)"
    "unat (dword_at r (sec + 40)) = ?n + 15 + Suc z"
    and zeros: "b + ?n + 15 + (Suc z + 1537 * Suc k) \<le> rsize r"
      "\<And>i. i < Suc z + 1537 * Suc k \<Longrightarrow> rbyte r (b + ?n + 15 + i) = 0"
    and apart: "sec + 48 \<le> b \<or> b + ?n + 16 + z + 1537 * Suc k \<le> sec"
    and big: "?n + 16 + z + 1537 * Suc k < 2 ^ 64"
    using slack unfolding prelink_slack_def prelink_section_def holds_replicate by blast+
  have "dword_at r' (sec + 32) = dword_at r (sec + 32)"
    using frame apart by (intro field_cong) auto
  moreover have "unat (dword_at r' (sec + 40)) = ?n + 1537 + 15 + Suc z"
    using s(3) big by (simp add: size unat_word_ariths)
  moreover have h: "holds r' b (txt1 @ d @ ?t)" and nul: "rbyte r' (b + ?n + 1552) = 0"
    using body d unfolding append_assoc [symmetric] holds_append [of r' b "(txt1 @ d) @ ?t" "[0]"]
    by (auto simp: holds_def length_prelink_tail rslice_def add.assoc)
  have run: "holds r' (b + length (txt1 @ d) + 15) (replicate (Suc z + 1537 * k) 0)"
    unfolding holds_replicate
  proof (intro conjI allI impI)
    show "b + length (txt1 @ d) + 15 + (Suc z + 1537 * k) \<le> rsize r'"
      using zeros(1) by (simp add: rs d)
    fix i assume i: "i < Suc z + 1537 * k"
    show "rbyte r' (b + length (txt1 @ d) + 15 + i) = 0"
    proof (cases "i = 0")
      case True
      then show ?thesis using nul by (simp add: d add.assoc)
    next
      case False
      let ?j = "b + ?n + 15 + (1537 + i)"
      have "rbyte r' ?j = rbyte r ?j" by (rule frame) (use False apart i in auto)
      also have "\<dots> = 0" by (rule zeros(2)) (use i in simp)
      finally show ?thesis by (simp add: d add.assoc)
    qed
  qed
  have "holds r' b ((txt1 @ d) @ ?t @ replicate (Suc z) 0)"
  proof -
    have "holds r' (b + length (txt1 @ d) + 15) (replicate (Suc z) 0)"
      using run unfolding holds_replicate by (auto simp: add.assoc)
    with h show ?thesis
      unfolding append_assoc holds_append by (simp add: length_prelink_tail add.assoc d del: replicate_Suc)
  qed
  ultimately have "prelink_section mh slide r' sec b (txt1 @ d) z"
    using s by (simp add: prelink_section_def rs d del: replicate_Suc)
  with run apart big show ?thesis
    by (auto simp: prelink_slack_def d)
qed

section \<open>One acceptable upload\<close>

text \<open>
  An upload of \<open>n\<close> received bytes that the command loads: an acceptable extension that starts at
  address 0 and patches nothing in its load commands, of a size for which \<open>alloc_static\<close> has the
  block at \<open>a\<close>.
\<close>

definition loadable ::
  "(bytes \<Rightarrow> u64 option) \<Rightarrow> static_allocator \<times> region \<times> u32 \<Rightarrow> kext_load_info \<times> u64 \<Rightarrow> bool" where
  "loadable lookup u x \<longleftrightarrow>
     (let (alloc, data, n) = u; (info, a) = x; file = split_destroyed data (unat (word_at data 16)) in
      0x4000 \<le> n \<and> unat n \<le> rsize data
      \<and> kext_accepts lookup file (ucast n) info
      \<and> (\<forall>dst. dysymtab info = Some dst \<longrightarrow> kext_layout_sane file info dst)
      \<and> unat (vm_size info) \<le> 0xFFFFC000
      \<and> map_option fst (alloc (ucast (kext_alloc_size (vm_size info)))) = Some a)"

definition loaded_info :: "kext_load_info \<times> u64 \<Rightarrow> kext_load_info" where
  "loaded_info x = (fst x)\<lparr>kext := snd x, kmod_info := snd x + kmod_info (fst x)\<rparr>"

lemma loadable_is_loaded:
  assumes ok: "pongo_ok ps" and room: "prelink_room env (mh_execute_header ps)"
    and load: "loadable (kernelcache_symbol_table_lookup ps)
      (e_alloc_static env, loader_xfer_recv_data ps, loader_xfer_recv_count ps) x"
  obtains k f kernel where "command_kextload env ps kid
      = Some (Kext_loaded k (loaded_info x) True,
          ps\<lparr>loader_xfer_recv_count := 0, loader_xfer_recv_data := f, mh_execute_header := kernel\<rparr>, kid + 1)"
    and "prelink_grown env (mh_execute_header ps) (loaded_info x) kid kernel"
proof -
  let ?data = "loader_xfer_recv_data ps" and ?n = "ucast (loader_xfer_recv_count ps) :: u64"
  let ?look = "kernelcache_symbol_table_lookup ps" and ?info = "fst x" and ?a = "snd x"
  let ?file = "split_destroyed ?data (unat (word_at ?data 16))"
  have load': "0x4000 \<le> loader_xfer_recv_count ps" "kext_accepts ?look ?file ?n ?info"
    "\<And>dst. dysymtab ?info = Some dst \<Longrightarrow> kext_layout_sane ?file ?info dst" "unat (vm_size ?info) \<le> 0xFFFFC000"
    and alloc0: "map_option fst (e_alloc_static env (ucast (kext_alloc_size (vm_size ?info)))) = Some ?a"
    using load by (simp_all add: loadable_def Let_def split: prod.splits)
  have n: "\<not> ?n < 0x4000" "32 \<le> unat ?n" "unat ?n \<le> rsize ?data"
    using ok load'(1) by (simp_all add: pongo_ok_def word_le_nat_alt word_less_nat_alt)
  have total: "?look s \<noteq> None" if "0 \<notin> set s" for s
    using kernelcache.resolve_Some [OF ok that] by auto
  have exact: "kext_parse ?look ?data ?n = Some (Inr (f, info')) \<longleftrightarrow> f = ?file \<and> kext_accepts ?look ?file ?n info'"
    for f info' by (rule kext_parse_exact) (use total n in auto)
  then have parsed: "kext_parse ?look ?data ?n = Some (Inr (?file, ?info))"
    using load'(2) by blast
  obtain k0 where alloc: "kext_alloc (e_alloc_static env) ?info = Inr (k0, ?info\<lparr>kext := ?a\<rparr>)"
    using kext_alloc_size_exact [OF load'(4)] alloc0
    by (auto simp: kext_alloc_def Let_def not_less [symmetric])
  have same: "i\<lparr>kext := a\<rparr> = i\<lparr>kext := b\<rparr> \<longleftrightarrow> a = b" for i :: kext_load_info and a b
    by (cases i) simp
  obtain res ps' kid' where run: "command_kextload env ps kid = Some (res, ps', kid')"
    and out: "kextload_outcome env ps kid res ps' kid'"
    by (rule command_kextload_total [OF ok room, of kid]) (use parsed load'(3) in auto)
  show thesis
  proof (cases res)
    case (Kext_loaded k info' loaded)
    then obtain kernel where "info' = loaded_info x" "loaded" "kid' = kid + 1"
      "ps' = ps\<lparr>loader_xfer_recv_count := 0, loader_xfer_recv_data := ?file, mh_execute_header := kernel\<rparr>"
      "prelink_grown env (mh_execute_header ps) info' kid kernel"
      using out alloc parsed by (auto simp: kextload_outcome_def Let_def same loaded_info_def)
    with run Kext_loaded show thesis by (intro that [of k kernel ?file]) simp_all
  qed (use out alloc parsed n in \<open>auto simp: kextload_outcome_def Let_def\<close>)
qed

section \<open>A sequence of uploads\<close>

text \<open>Each upload is received and followed by the \<open>kextload\<close> command.\<close>

fun kextload_session ::
  "kextload_env \<Rightarrow> (static_allocator \<times> region \<times> u32) list \<Rightarrow> pongo_state \<times> u32
     \<Rightarrow> (kextload_result list \<times> pongo_state \<times> u32) option" where
  "kextload_session env [] s = Some ([], s)"
| "kextload_session env ((alloc, data, n) # us) (ps, kid) = do {
     (res, s1) \<leftarrow> command_kextload (env\<lparr>e_alloc_static := alloc\<rparr>)
       (ps\<lparr>loader_xfer_recv_data := data, loader_xfer_recv_count := n\<rparr>) kid;
     (rs, s2) \<leftarrow> kextload_session env us s1;
     Some (res # rs, s2)
   }"

text \<open>The dictionaries of the loaded extensions, with consecutive identifiers.\<close>

fun loaded_dicts :: "u64 \<Rightarrow> u32 \<Rightarrow> (kext_load_info \<times> u64) list \<Rightarrow> bytes" where
  "loaded_dicts mh kid [] = []"
| "loaded_dicts mh kid (x # xs) =
     prelink_info_filled (sa_for_ptr mh (kext (loaded_info x))) (vm_size (loaded_info x))
       (sa_for_ptr mh (kmod_info (loaded_info x))) (ucast kid) @ loaded_dicts mh (kid + 1) xs"

lemma prelink_slack_room:
  assumes "prelink_slack (e_mh env) (e_slide env) r sec b old z (Suc k)" and "e_get_section env r = Some sec"
  shows "prelink_room env r"
proof -
  have "b + length old + 1553 \<le> rsize r" "sec + 48 \<le> b \<or> b + length old + 1553 \<le> sec"
    using assms(1) by (auto simp: prelink_slack_def holds_replicate)
  with assms show ?thesis by (auto simp: prelink_room_def prelink_slack_def)
qed

lemma prelink_slack_grown:
  assumes slack: "prelink_slack (e_mh env) (e_slide env) r sec b old z (Suc k)"
    and sec: "e_get_section env r = Some sec" and grown: "prelink_grown env r info kid r'"
    and low: "32 \<le> sec" "32 \<le> b"
  shows "prelink_slack (e_mh env) (e_slide env) r' sec b
      (old @ prelink_info_filled (sa_for_ptr (e_mh env) (kext info)) (vm_size info)
              (sa_for_ptr (e_mh env) (kmod_info info)) (ucast kid)) z k"
    and "rsize r' = rsize r" and "i < 24 \<Longrightarrow> rbyte r' i = rbyte r i"
proof -
  obtain sec1 b1 old1 z1 where g: "e_get_section env r = Some sec1"
    "prelink_section (e_mh env) (e_slide env) r sec1 b1 old1 z1"
    "holds r' b1 (old1 @ prelink_info_filled (sa_for_ptr (e_mh env) (kext info)) (vm_size info)
              (sa_for_ptr (e_mh env) (kmod_info info)) (ucast kid) @ bytes_of prelink_tail @ [0])"
    "dword_at r' (sec1 + 40) = dword_at r (sec1 + 40) + 1537" "rsize r' = rsize r"
    "\<forall>i. i < b1 + length old1 \<or> b1 + length old1 + 1553 \<le> i \<longrightarrow> i < sec1 + 40 \<or> sec1 + 48 \<le> i
              \<longrightarrow> rbyte r' i = rbyte r i"
    using grown unfolding prelink_grown_def by blast
  have eq: "sec1 = sec" using g(1) sec by simp
  have "b1 = b \<and> old1 = old \<and> z1 = z"
    by (rule prelink_section_unique) (use slack g(2) in \<open>simp_all add: prelink_slack_def eq\<close>)
  then have here: "b1 = b" "old1 = old" by simp_all
  note g = g [unfolded eq here]
  show "prelink_slack (e_mh env) (e_slide env) r' sec b
      (old @ prelink_info_filled (sa_for_ptr (e_mh env) (kext info)) (vm_size info)
              (sa_for_ptr (e_mh env) (kmod_info info)) (ucast kid)) z k"
    by (rule prelink_slack_step [OF slack g(3) length_prelink_info_filled g(4,5)]) (use g(6) in blast)
  show "rsize r' = rsize r" by (rule g(5))
  assume "i < 24"
  then show "rbyte r' i = rbyte r i" using g(6) low by simp
qed

lemma session_loads:
  assumes "list_all2 (loadable look) us xs" and "kernelcache_symbol_table_lookup ps = look"
    and "pongo_ok ps" and "prelink_slack (e_mh env) (e_slide env) (mh_execute_header ps) sec b old z (length us)"
    and "\<And>r. e_get_section env r = Some sec" and "32 \<le> sec" and "32 \<le> b"
  shows "\<exists>rs ps'. kextload_session env us (ps, kid) = Some (rs, ps', kid + word_of_nat (length us))
    \<and> list_all2 (\<lambda>res x. \<exists>k. res = Kext_loaded k (loaded_info x) True) rs xs
    \<and> prelink_section (e_mh env) (e_slide env) (mh_execute_header ps') sec b (old @ loaded_dicts (e_mh env) kid xs) z
    \<and> pongo_ok ps'"
  using assms
proof (induction us xs arbitrary: ps kid old rule: list_all2_induct)
  case Nil
  then show ?case by (simp add: prelink_slack_def)
next
  case (Cons u us x xs)
  obtain alloc data n where u: "u = (alloc, data, n)" by (cases u)
  let ?env = "env\<lparr>e_alloc_static := alloc\<rparr>" and ?ps = "ps\<lparr>loader_xfer_recv_data := data, loader_xfer_recv_count := n\<rparr>"
  have slack: "prelink_slack (e_mh ?env) (e_slide ?env) (mh_execute_header ?ps) sec b old z (Suc (length us))"
    and sec: "e_get_section ?env (mh_execute_header ?ps) = Some sec"
    using Cons.prems by simp_all
  have load: "loadable (kernelcache_symbol_table_lookup ?ps)
      (e_alloc_static ?env, loader_xfer_recv_data ?ps, loader_xfer_recv_count ?ps) x"
    using Cons.hyps(1) Cons.prems(1) by (simp add: u)
  have ok: "pongo_ok ?ps"
    using Cons.prems(2) load by (auto simp: pongo_ok_def loadable_def Let_def split: prod.splits)
  obtain k f kernel where run: "command_kextload ?env ?ps kid
      = Some (Kext_loaded k (loaded_info x) True,
          ?ps\<lparr>loader_xfer_recv_count := 0, loader_xfer_recv_data := f, mh_execute_header := kernel\<rparr>, kid + 1)"
    and grown: "prelink_grown ?env (mh_execute_header ?ps) (loaded_info x) kid kernel"
    by (rule loadable_is_loaded [OF ok prelink_slack_room [OF slack sec] load])
  note next_slack = prelink_slack_grown [OF slack sec grown Cons.prems(5,6)]
  let ?ps1 = "?ps\<lparr>loader_xfer_recv_count := 0, loader_xfer_recv_data := f, mh_execute_header := kernel\<rparr>"
  have "rslice kernel 20 4 = rslice (mh_execute_header ps) 20 4"
    by (rule rslice_cong) (use next_slack(3) in simp)
  then have ok1: "pongo_ok ?ps1"
    using ok next_slack(2) by (simp add: pongo_ok_def kernel_ok_def)
  have look: "kernelcache_symbol_table_lookup ?ps1 = look"
    using Cons.prems(1) by (simp add: kernelcache_symbol_table_lookup_def fun_eq_iff)
  have slack1: "prelink_slack (e_mh env) (e_slide env) (mh_execute_header ?ps1) sec b
      (old @ prelink_info_filled (sa_for_ptr (e_mh env) (kext (loaded_info x))) (vm_size (loaded_info x))
              (sa_for_ptr (e_mh env) (kmod_info (loaded_info x))) (ucast kid)) z (length us)"
    using next_slack(1) by simp
  obtain rs ps' where rest: "kextload_session env us (?ps1, kid + 1) = Some (rs, ps', kid + 1 + word_of_nat (length us))"
    "list_all2 (\<lambda>res x. \<exists>k. res = Kext_loaded k (loaded_info x) True) rs xs"
    "prelink_section (e_mh env) (e_slide env) (mh_execute_header ps') sec b
      ((old @ prelink_info_filled (sa_for_ptr (e_mh env) (kext (loaded_info x))) (vm_size (loaded_info x))
              (sa_for_ptr (e_mh env) (kmod_info (loaded_info x))) (ucast kid)) @ loaded_dicts (e_mh env) (kid + 1) xs) z"
    "pongo_ok ps'"
    using Cons.IH [OF look ok1 slack1 Cons.prems(4-6), of "kid + 1"] by blast
  then show ?case
    using run by (intro exI [of _ "Kext_loaded k (loaded_info x) True # rs"] exI [of _ ps']) (simp add: u add.assoc)
qed

end
