(* ===== verification/Io_Calls.thy ===== *)
theory Io_Calls
  imports Host_File "HOL-Library.Multiset"
begin

text \<open>
  The calls \<^verbatim>\<open>kext_loader.c\<close> makes into IOKit, Mach, kqueue and the allocator, and the log of
  them. What a call answers is a parameter of the model, an arbitrary function of the log, so that
  the same call may answer differently every time. An answer is the return code and the value the
  call hands out, a handle for most of them; handle 0 is \<open>NULL\<close> or \<open>IO_OBJECT_NULL\<close>. The log has
  its newest entry first.
\<close>

text \<open>\<open>IOUSBDevRequest\<close>, with the bytes \<open>pData\<close> points to.\<close>

record usb_request =
  bmRequestType :: u8
  bRequest :: u8
  wValue :: u16
  wIndex :: u16
  wLength :: u16
  pData :: bytes

datatype io_call =
    IOCreatePlugInInterfaceForService nat
  | QueryDeviceInterface nat
  | QueryInterfaceInterface nat
  | PlugIn_Release nat
  | USBDeviceOpen nat
  | USBDeviceClose nat
  | Device_Release nat
  | CreateInterfaceIterator nat
  | IOIteratorNext nat
  | IOObjectRelease nat
  | USBInterfaceOpen nat
  | USBInterfaceClose nat
  | Interface_Release nat
  | GetNumEndpoints nat
  | CreateInterfaceAsyncPort nat
  | mach_port_insert_member nat nat
  | mach_port_deallocate nat
  | mach_port_allocate
  | mach_port_destroy nat
  | DeviceRequest nat usb_request
  | WritePipe nat nat bytes
  | usleep nat
  | calloc
  | malloc nat
  | free nat
  | kqueue
  | kqueue_close nat
  | kevent_add nat nat
  | kevent_wait nat
  | mach_msg nat
  | IODispatchCalloutFromMessage
  | IONotificationPortCreate
  | IONotificationPortGetMachPort nat
  | IONotificationPortDestroy nat
  | IOServiceAddMatchingNotification nat nat bool
  | IOServiceMatching
  | CFNumberCreate nat
  | CFDictionarySetValue nat string nat
  | CFRetain nat
  | CFRelease nat
  | Host host_event

type_synonym io_answer = "u32 \<times> nat"
type_synonym io_log = "(io_call \<times> io_answer) list"
type_synonym io_env = "io_log \<Rightarrow> io_call \<Rightarrow> io_answer"

definition do_call :: "io_env \<Rightarrow> io_call \<Rightarrow> io_log \<Rightarrow> io_answer \<times> io_log" where
  "do_call env c l = (let a = env l c in (a, (c, a) # l))"

text \<open>A call whose answer the code ignores.\<close>

definition perform :: "io_env \<Rightarrow> io_call \<Rightarrow> io_log \<Rightarrow> io_log" where
  "perform env c l = snd (do_call env c l)"

text \<open>The return code every interface here shares: \<open>kIOReturnSuccess\<close> and \<open>KERN_SUCCESS\<close>.\<close>

definition kIOReturnSuccess :: u32 where
  "kIOReturnSuccess = 0"

lemma do_call_cons: "do_call env c l = (a, l') \<longleftrightarrow> a = env l c \<and> l' = (c, a) # l"
  by (auto simp: do_call_def Let_def)

lemma perform_cons: "perform env c l = (c, env l c) # l"
  by (simp add: perform_def do_call_def Let_def)

section \<open>What the program holds\<close>

datatype resource =
    Plug_in nat
  | Device_ref nat
  | Device_open nat
  | Interface_ref nat
  | Interface_open nat
  | Object_ref nat
  | Port_right nat
  | Port_set nat
  | Notify_port nat
  | Cf_ref nat
  | Memory nat
  | Queue nat
  | Host_held host_event

fun acquires :: "io_call \<Rightarrow> io_answer \<Rightarrow> resource multiset" where
  "acquires (IOCreatePlugInInterfaceForService s) (kr, h) = (if kr = kIOReturnSuccess then {#Plug_in h#} else {#})"
| "acquires (QueryDeviceInterface p) (kr, h) = (if h \<noteq> 0 then {#Device_ref h#} else {#})"
| "acquires (QueryInterfaceInterface p) (kr, h) = (if h \<noteq> 0 then {#Interface_ref h#} else {#})"
| "acquires (USBDeviceOpen d) (kr, h) = (if kr = kIOReturnSuccess then {#Device_open d#} else {#})"
| "acquires (CreateInterfaceIterator d) (kr, h) = (if kr = kIOReturnSuccess then {#Object_ref h#} else {#})"
| "acquires (IOIteratorNext i) (kr, h) = (if h \<noteq> 0 then {#Object_ref h#} else {#})"
| "acquires (USBInterfaceOpen i) (kr, h) = (if kr = kIOReturnSuccess then {#Interface_open i#} else {#})"
| "acquires (CreateInterfaceAsyncPort i) (kr, h) = (if kr = kIOReturnSuccess then {#Port_right h#} else {#})"
| "acquires mach_port_allocate (kr, h) = (if kr = kIOReturnSuccess then {#Port_set h#} else {#})"
| "acquires calloc (kr, h) = (if h \<noteq> 0 then {#Memory h#} else {#})"
| "acquires (malloc n) (kr, h) = (if h \<noteq> 0 then {#Memory h#} else {#})"
| "acquires kqueue (kr, h) = (if kr = kIOReturnSuccess then {#Queue h#} else {#})"
| "acquires IONotificationPortCreate (kr, h) = {#Notify_port h#}"
| "acquires (IOServiceAddMatchingNotification p d b) (kr, h) = (if kr = kIOReturnSuccess then {#Object_ref h#} else {#})"
| "acquires IOServiceMatching (kr, h) = {#Cf_ref h#}"
| "acquires (CFNumberCreate n) (kr, h) = {#Cf_ref h#}"
| "acquires (CFRetain d) (kr, h) = {#Cf_ref d#}"
| "acquires (Host (Open_fd fd)) a = {#Host_held (Open_fd fd)#}"
| "acquires (Host (Map_data d n)) a = {#Host_held (Map_data d n)#}"
| "acquires (Host (Open_dir p)) a = {#Host_held (Open_dir p)#}"
| "acquires c a = {#}"

text \<open>
  \<open>IOServiceAddMatchingNotification\<close> consumes one reference to its dictionary, whatever it returns.
\<close>

fun releases :: "io_call \<Rightarrow> resource multiset" where
  "releases (PlugIn_Release p) = {#Plug_in p#}"
| "releases (USBDeviceClose d) = {#Device_open d#}"
| "releases (Device_Release d) = {#Device_ref d#}"
| "releases (IOObjectRelease i) = {#Object_ref i#}"
| "releases (USBInterfaceClose i) = {#Interface_open i#}"
| "releases (Interface_Release i) = {#Interface_ref i#}"
| "releases (mach_port_deallocate p) = {#Port_right p#}"
| "releases (mach_port_destroy p) = {#Port_set p#}"
| "releases (free p) = {#Memory p#}"
| "releases (kqueue_close q) = {#Queue q#}"
| "releases (IONotificationPortDestroy p) = {#Notify_port p#}"
| "releases (IOServiceAddMatchingNotification p d b) = {#Cf_ref d#}"
| "releases (CFRelease d) = {#Cf_ref d#}"
| "releases (Host (Close_fd fd)) = {#Host_held (Open_fd fd)#}"
| "releases (Host (Unmap_data d n)) = {#Host_held (Map_data d n)#}"
| "releases (Host (Close_dir p)) = {#Host_held (Open_dir p)#}"
| "releases c = {#}"

text \<open>
  What is held after a log; \<open>None\<close> when something was released that was not held, or was released
  twice.
\<close>

primrec refs :: "io_log \<Rightarrow> resource multiset option" where
  "refs [] = Some {#}"
| "refs (e # l) =
     (case refs l of
        None \<Rightarrow> None
      | Some H \<Rightarrow>
          (if releases (fst e) \<subseteq># H then Some (H - releases (fst e) + acquires (fst e) (snd e)) else None))"

text \<open>
  The outcome of a piece of code: nothing was released twice, and \<open>Q\<close> relates its result to what is
  held then. The rules follow the shape of the code, one call at a time; the answer of a call is
  arbitrary.
\<close>

definition owns :: "('r \<Rightarrow> resource multiset \<Rightarrow> bool) \<Rightarrow> 'r \<times> io_log \<Rightarrow> bool" where
  "owns Q x \<longleftrightarrow> (\<exists>H. refs (snd x) = Some H \<and> Q (fst x) H)"

lemma owns_result: "refs l = Some H \<Longrightarrow> Q r H \<Longrightarrow> owns Q (r, l)"
  by (simp add: owns_def)

lemma refs_perform:
  "refs l = Some H \<Longrightarrow> releases c \<subseteq># H \<Longrightarrow> (\<And>a. acquires c a = {#})
    \<Longrightarrow> refs (perform env c l) = Some (H - releases c)"
  by (simp add: perform_cons)

lemma owns_call:
  assumes "refs l = Some H" and "releases c \<subseteq># H"
    and "\<And>kr h l'. refs l' = Some (H - releases c + acquires c (kr, h)) \<Longrightarrow> owns Q (F (kr, h) l')"
  shows "owns Q (let (a, l') = do_call env c l in F a l')"
  using assms(3) [of "(c, env l c) # l" "fst (env l c)" "snd (env l c)"] assms(1,2)
  by (simp add: do_call_def Let_def)

lemma owns_bind:
  assumes "owns P x" and "\<And>r l' H. refs l' = Some H \<Longrightarrow> P r H \<Longrightarrow> owns Q (F r l')"
  shows "owns Q (let (r, l') = x in F r l')"
  using assms by (auto simp: owns_def split_beta)

lemma owns_weaken: "owns P x \<Longrightarrow> (\<And>r H. P r H \<Longrightarrow> Q r H) \<Longrightarrow> owns Q x"
  by (auto simp: owns_def)

lemma owns_if: "(b \<Longrightarrow> owns Q x) \<Longrightarrow> (\<not> b \<Longrightarrow> owns Q y) \<Longrightarrow> owns Q (if b then x else y)"
  by simp

lemma owns_let: "owns Q (F v) \<Longrightarrow> owns Q (let x = v in F x)"
  by (simp add: Let_def)

text \<open>The requests and pipe writes of a log, oldest first: what the device sees.\<close>

fun wire_call :: "io_call \<Rightarrow> bool" where
  "wire_call (DeviceRequest d r) = True"
| "wire_call (WritePipe i p data) = True"
| "wire_call c = False"

definition wire :: "io_log \<Rightarrow> io_call list" where
  "wire l = rev (List.filter wire_call (map fst l))"

lemma wire_simps [simp]:
  "wire [] = []" "wire (e # l) = (if wire_call (fst e) then wire l @ [fst e] else wire l)"
  by (simp_all add: wire_def)

text \<open>How often a call is in a log.\<close>

definition calls :: "io_call \<Rightarrow> io_log \<Rightarrow> nat" where
  "calls c l = count_list (map fst l) c"

lemma calls_simps [simp]:
  "calls c [] = 0" "calls c (e # l) = (if fst e = c then Suc (calls c l) else calls c l)"
  by (simp_all add: calls_def)

end
