(* ===== verification/Pongo_Usb.thy ===== *)
theory Pongo_Usb
  imports Io_Calls
begin

text \<open>
  The pongoOS USB device of \<^verbatim>\<open>kext_loader.c\<close>: opening it with its retries and its cleanup ladder,
  closing it, and the control and bulk transfers.
\<close>

text \<open>The ways the program stops other than by returning: assertions and undefined behaviour.\<close>

datatype usb_stop =
    Device_alloc_failed
  | Command_too_long
  | Command_overread

text \<open>The structure and its address, which \<open>calloc\<close> gave and \<open>free\<close> gets.\<close>

record pongo_usb_device =
  pongo_ptr :: nat
  service :: nat
  device :: nat
  interface :: nat

definition PONGO_USB_OPEN_MAX_TRIES :: nat where
  "PONGO_USB_OPEN_MAX_TRIES = 5"

section \<open>Opening\<close>

function usb_open_tries :: "io_env \<Rightarrow> nat \<Rightarrow> nat \<Rightarrow> io_log \<Rightarrow> bool \<times> io_log" where
  "usb_open_tries env d attempt l =
     (let (a, l) = do_call env (USBDeviceOpen d) l in
      if fst a = kIOReturnSuccess then (True, l)
      else if attempt \<ge> PONGO_USB_OPEN_MAX_TRIES then (False, l)
      else usb_open_tries env d (attempt + 1) (perform env (usleep 100000) l))"
  by pat_completeness auto
termination
  by (relation "measure (\<lambda>(env, d, attempt, l). PONGO_USB_OPEN_MAX_TRIES - attempt)") auto

text \<open>The search for the interface; \<open>None\<close> is \<open>goto fail_2\<close>.\<close>

function usb_find_interface :: "io_env \<Rightarrow> nat \<Rightarrow> nat \<Rightarrow> io_log \<Rightarrow> nat option \<times> io_log" where
  "usb_find_interface env d attempt l =
     (let (a, l) = do_call env (CreateInterfaceIterator d) l in
      if fst a \<noteq> kIOReturnSuccess then (None, l)
      else
        (let interfaces = snd a;
             (s, l) = do_call env (IOIteratorNext interfaces) l;
             l = perform env (IOObjectRelease interfaces) l in
         if snd s \<noteq> 0 then (Some (snd s), l)
         else if attempt \<ge> PONGO_USB_OPEN_MAX_TRIES then (None, l)
         else usb_find_interface env d (attempt + 1) (perform env (usleep 100000) l)))"
  by pat_completeness auto
termination
  by (relation "measure (\<lambda>(env, d, attempt, l). PONGO_USB_OPEN_MAX_TRIES - attempt)") auto

declare usb_open_tries.simps [simp del] usb_find_interface.simps [simp del]

text \<open>The cleanup ladder: each label falls through to the next.\<close>

definition usb_fail_1 :: "io_env \<Rightarrow> nat \<Rightarrow> io_log \<Rightarrow> (usb_stop + pongo_usb_device option) \<times> io_log" where
  "usb_fail_1 env d l = (Inr None, perform env (Device_Release d) l)"

definition usb_fail_2 :: "io_env \<Rightarrow> nat \<Rightarrow> io_log \<Rightarrow> (usb_stop + pongo_usb_device option) \<times> io_log" where
  "usb_fail_2 env d l = usb_fail_1 env d (perform env (USBDeviceClose d) l)"

definition usb_fail_3 :: "io_env \<Rightarrow> nat \<Rightarrow> nat \<Rightarrow> io_log \<Rightarrow> (usb_stop + pongo_usb_device option) \<times> io_log" where
  "usb_fail_3 env d i l = usb_fail_2 env d (perform env (Interface_Release i) l)"

definition usb_fail_4 :: "io_env \<Rightarrow> nat \<Rightarrow> nat \<Rightarrow> io_log \<Rightarrow> (usb_stop + pongo_usb_device option) \<times> io_log" where
  "usb_fail_4 env d i l = usb_fail_3 env d i (perform env (USBInterfaceClose i) l)"

text \<open>From the opened interface on; the number of endpoints only decides a warning.\<close>

definition usb_finish_open ::
  "io_env \<Rightarrow> nat \<Rightarrow> nat \<Rightarrow> nat \<Rightarrow> nat \<Rightarrow> io_log \<Rightarrow> (usb_stop + pongo_usb_device option) \<times> io_log" where
  "usb_finish_open env s port_set d i l =
     (let (a, l) = do_call env (GetNumEndpoints i) l in
      if fst a \<noteq> kIOReturnSuccess then usb_fail_4 env d i l
      else
        (let (a, l) = do_call env (CreateInterfaceAsyncPort i) l in
         if fst a \<noteq> kIOReturnSuccess then usb_fail_4 env d i l
         else
           (let io_port = snd a;
                (a, l) = do_call env (mach_port_insert_member io_port port_set) l;
                l = perform env (mach_port_deallocate io_port) l in
            if fst a \<noteq> kIOReturnSuccess then usb_fail_4 env d i l
            else
              (let (m, l) = do_call env calloc l in
               if snd m = 0 then (Inl Device_alloc_failed, l)
               else (Inr (Some \<lparr>pongo_ptr = snd m, service = s, device = d, interface = i\<rparr>), l)))))"

text \<open>From the service of the interface to the opened interface.\<close>

definition usb_open_interface ::
  "io_env \<Rightarrow> nat \<Rightarrow> nat \<Rightarrow> nat \<Rightarrow> nat \<Rightarrow> io_log \<Rightarrow> (usb_stop + pongo_usb_device option) \<times> io_log" where
  "usb_open_interface env s port_set d interface_service l =
     (let (a, l) = do_call env (IOCreatePlugInInterfaceForService interface_service) l;
          l = perform env (IOObjectRelease interface_service) l in
      if fst a \<noteq> kIOReturnSuccess then usb_fail_2 env d l
      else
        (let plugIn = snd a;
             (a, l) = do_call env (QueryInterfaceInterface plugIn) l;
             l = perform env (PlugIn_Release plugIn) l;
             i = snd a in
         if i = 0 then usb_fail_2 env d l
         else
           (let (a, l) = do_call env (USBInterfaceOpen i) l in
            if fst a \<noteq> kIOReturnSuccess then usb_fail_3 env d i l
            else usb_finish_open env s port_set d i l)))"

definition pongo_usb_open ::
  "io_env \<Rightarrow> nat \<Rightarrow> nat \<Rightarrow> io_log \<Rightarrow> (usb_stop + pongo_usb_device option) \<times> io_log" where
  "pongo_usb_open env s notification_port_set l =
     (let (a, l) = do_call env (IOCreatePlugInInterfaceForService s) l in
      if fst a \<noteq> kIOReturnSuccess then (Inr None, l)
      else
        (let plugIn = snd a;
             (a, l) = do_call env (QueryDeviceInterface plugIn) l;
             l = perform env (PlugIn_Release plugIn) l;
             d = snd a in
         if d = 0 then (Inr None, l)
         else
           (let (opened, l) = usb_open_tries env d 0 l in
            if \<not> opened then usb_fail_1 env d l
            else
              (let (s', l) = usb_find_interface env d 0 l in
               case s' of
                 None \<Rightarrow> usb_fail_2 env d l
               | Some interface_service \<Rightarrow>
                   usb_open_interface env s notification_port_set d interface_service l))))"

section \<open>Closing\<close>

text \<open>\<open>None\<close> is \<open>PONGO_USB_NULL\<close>.\<close>

definition pongo_usb_close :: "io_env \<Rightarrow> pongo_usb_device option \<Rightarrow> io_log \<Rightarrow> io_log" where
  "pongo_usb_close env pongo l =
     (case pongo of
        None \<Rightarrow> l
      | Some d \<Rightarrow>
          (let l = (if interface d \<noteq> 0
                    then perform env (Interface_Release (interface d))
                           (perform env (USBInterfaceClose (interface d)) l)
                    else l);
               l = (if device d \<noteq> 0
                    then perform env (Device_Release (device d)) (perform env (USBDeviceClose (device d)) l)
                    else l);
               l = (if service d \<noteq> 0 then perform env (IOObjectRelease (service d)) l else l) in
           perform env (free (pongo_ptr d)) l))"

definition pongo_usb_matches_service :: "pongo_usb_device option \<Rightarrow> nat \<Rightarrow> bool" where
  "pongo_usb_matches_service pongo s =
     (case pongo of None \<Rightarrow> False | Some d \<Rightarrow> service d = s)"

section \<open>Transfers\<close>

text \<open>
  The bytes a request sends for \<open>size\<close> bytes of a C string: its characters and the terminator.
  Reading more than that leaves the object.
\<close>

definition command_bytes :: "string \<Rightarrow> nat \<Rightarrow> bytes option" where
  "command_bytes command n =
     (if n \<le> length command + 1 then Some (take n (bytes_of command @ [0])) else None)"

definition control_request :: "u8 \<Rightarrow> bytes \<Rightarrow> usb_request" where
  "control_request r data =
     \<lparr>bmRequestType = 0x21, bRequest = r, wValue = 0, wIndex = 0, wLength = of_nat (length data), pData = data\<rparr>"

text \<open>The return value: -1, or how much of the request was done.\<close>

definition device_request :: "io_env \<Rightarrow> pongo_usb_device \<Rightarrow> usb_request \<Rightarrow> io_log \<Rightarrow> int \<times> io_log" where
  "device_request env pongo r l =
     (let (a, l) = do_call env (DeviceRequest (device pongo) r) l in
      if fst a \<noteq> kIOReturnSuccess then (-1, l) else (int (snd a), l))"

definition pongo_usb_send_command ::
  "io_env \<Rightarrow> pongo_usb_device \<Rightarrow> string \<Rightarrow> nat \<Rightarrow> io_log \<Rightarrow> (usb_stop + int) \<times> io_log" where
  "pongo_usb_send_command env pongo command n l =
     (let n = (if n = 0 then length command + 1 else n) in
      if \<not> n < 256 then (Inl Command_too_long, l)
      else
        (case command_bytes command n of
           None \<Rightarrow> (Inl Command_overread, l)
         | Some data \<Rightarrow>
             (let (r, l) = device_request env pongo (control_request 0x3 data) l in (Inr r, l))))"

definition pongo_usb_init_bulk_upload :: "io_env \<Rightarrow> pongo_usb_device \<Rightarrow> io_log \<Rightarrow> int \<times> io_log" where
  "pongo_usb_init_bulk_upload env pongo l = device_request env pongo (control_request 0x1 []) l"

definition pongo_usb_discard_bulk_upload :: "io_env \<Rightarrow> pongo_usb_device \<Rightarrow> io_log \<Rightarrow> int \<times> io_log" where
  "pongo_usb_discard_bulk_upload env pongo l = device_request env pongo (control_request 0x2 []) l"

text \<open>The size parameter of \<open>WritePipe\<close> is a \<open>UInt32\<close>, so a longer size is cut.\<close>

definition pipe_bytes :: "bytes \<Rightarrow> bytes" where
  "pipe_bytes data = take (length data mod 2 ^ 32) data"

definition pongo_usb_send_bulk_data ::
  "io_env \<Rightarrow> pongo_usb_device \<Rightarrow> bytes \<Rightarrow> io_log \<Rightarrow> bool \<times> io_log" where
  "pongo_usb_send_bulk_data env pongo data l =
     (let (a, l) = do_call env (WritePipe (interface pongo) 2 (pipe_bytes data)) l in
      if fst a \<noteq> kIOReturnSuccess
      then (False, snd (pongo_usb_discard_bulk_upload env pongo l))
      else (True, l))"

section \<open>What opening and closing hold\<close>

definition usb_resources :: "pongo_usb_device \<Rightarrow> resource multiset" where
  "usb_resources d =
     {#Device_ref (device d), Device_open (device d), Interface_ref (interface d),
       Interface_open (interface d), Memory (pongo_ptr d)#}"

text \<open>The proofs follow the code, a rule per call; what is held before and after each call is computed.\<close>

lemma owns_usb_open_tries:
  assumes "refs l = Some H"
  shows "owns (\<lambda>opened K. K = (if opened then H + {#Device_open d#} else H)) (usb_open_tries env d attempt l)"
  using assms
proof (induction "PONGO_USB_OPEN_MAX_TRIES - attempt" arbitrary: attempt l rule: less_induct)
  case less
  show ?case
    by (subst usb_open_tries.simps, rule owns_call [OF less(2)])
       (auto intro!: owns_if less(1) simp: owns_result refs_perform)
qed

lemma owns_usb_find_interface:
  assumes "refs l = Some H"
  shows "owns (\<lambda>s K. K = (case s of None \<Rightarrow> H | Some s \<Rightarrow> H + {#Object_ref s#})) (usb_find_interface env d attempt l)"
  using assms
proof (induction "PONGO_USB_OPEN_MAX_TRIES - attempt" arbitrary: attempt l rule: less_induct)
  case less
  show ?case
    apply (subst usb_find_interface.simps, rule owns_call [OF less(2)], simp)
    apply (rule owns_if, simp add: owns_result)
    apply (rule owns_let, rule owns_call, assumption, simp)
    apply (auto intro!: owns_let owns_if less(1) simp: owns_result refs_perform)
    done
qed

text \<open>The failure labels give back what they are entered with.\<close>

abbreviation gives :: "resource multiset \<Rightarrow> usb_stop + pongo_usb_device option \<Rightarrow> resource multiset \<Rightarrow> bool" where
  "gives H r K \<equiv>
     (case r of Inl e \<Rightarrow> True | Inr None \<Rightarrow> K = H | Inr (Some d) \<Rightarrow> K = H + usb_resources d)"

lemma owns_usb_fail:
  "refs l = Some (H + {#Device_ref d#}) \<Longrightarrow> owns (gives H) (usb_fail_1 env d l)"
  "refs l = Some (H + {#Device_ref d, Device_open d#}) \<Longrightarrow> owns (gives H) (usb_fail_2 env d l)"
  "refs l = Some (H + {#Device_ref d, Device_open d, Interface_ref i#}) \<Longrightarrow> owns (gives H) (usb_fail_3 env d i l)"
  "refs l = Some (H + {#Device_ref d, Device_open d, Interface_ref i, Interface_open i#})
     \<Longrightarrow> owns (gives H) (usb_fail_4 env d i l)"
  by (simp_all add: usb_fail_1_def usb_fail_2_def usb_fail_3_def usb_fail_4_def owns_result refs_perform)

lemma owns_usb_finish_open:
  assumes "refs l = Some (H + {#Device_ref d, Device_open d, Interface_ref i, Interface_open i#})"
  shows "owns (gives H) (usb_finish_open env s port_set d i l)"
  unfolding usb_finish_open_def
  apply (rule owns_call [OF assms], simp)
  apply (rule owns_if, simp add: owns_usb_fail)
  apply (rule owns_call, assumption, simp)
  apply (rule owns_if, simp add: owns_usb_fail)
  apply (rule owns_let, rule owns_call, assumption, simp)
  apply (rule owns_let, rule owns_if, simp add: owns_usb_fail refs_perform)
  apply (rule owns_call, simp add: refs_perform, simp)
  apply (auto intro!: owns_if simp: owns_result usb_resources_def)
  done

lemma owns_usb_open_interface:
  assumes "refs l = Some (H + {#Device_ref d, Device_open d, Object_ref x#})"
  shows "owns (gives H) (usb_open_interface env s port_set d x l)"
  unfolding usb_open_interface_def
  apply (rule owns_call [OF assms], simp)
  apply (rule owns_let, rule owns_if, simp add: owns_usb_fail refs_perform)
  apply (rule owns_let, rule owns_call, simp add: refs_perform, simp)
  apply (rule owns_let, rule owns_let, rule owns_if, simp add: owns_usb_fail refs_perform)
  apply (rule owns_call, simp add: refs_perform, simp)
  apply (auto intro!: owns_if simp: owns_usb_fail owns_usb_finish_open)
  done

lemma owns_pongo_usb_open:
  assumes "refs l = Some H"
  shows "owns (gives H) (pongo_usb_open env s port_set l)"
  unfolding pongo_usb_open_def
  apply (rule owns_call [OF assms], simp)
  apply (rule owns_if, simp add: owns_result)
  apply (rule owns_let, rule owns_call, assumption, simp)
  apply (rule owns_let, rule owns_let, rule owns_if, simp add: owns_result refs_perform)
  apply (rule owns_bind [OF owns_usb_open_tries], simp add: refs_perform)
  apply (rule owns_if, simp add: owns_usb_fail)
  apply (rule owns_bind [OF owns_usb_find_interface], assumption)
  apply (auto simp: owns_usb_fail owns_usb_open_interface split: option.split)
  done

text \<open>Closing gives back all of it and one reference to the service.\<close>

lemma refs_pongo_usb_close:
  assumes "refs l = Some (H + usb_resources d + {#Object_ref (service d)#})"
    and "service d \<noteq> 0" "device d \<noteq> 0" "interface d \<noteq> 0"
  shows "refs (pongo_usb_close env (Some d) l) = Some H"
  using assms by (simp add: pongo_usb_close_def usb_resources_def refs_perform Let_def)

text \<open>What an opened device consists of.\<close>

definition usable :: "nat \<Rightarrow> pongo_usb_device \<Rightarrow> bool" where
  "usable s d \<longleftrightarrow> service d = s \<and> device d \<noteq> 0 \<and> interface d \<noteq> 0 \<and> pongo_ptr d \<noteq> 0"

lemma usb_fail_None [simp]:
  "fst (usb_fail_1 env d l) = Inr None" "fst (usb_fail_2 env d l) = Inr None"
  "fst (usb_fail_3 env d i l) = Inr None" "fst (usb_fail_4 env d i l) = Inr None"
  by (simp_all add: usb_fail_1_def usb_fail_2_def usb_fail_3_def usb_fail_4_def)

lemma usb_finish_open_usable:
  "fst (usb_finish_open env s port_set d i l) = Inr (Some x) \<Longrightarrow> d \<noteq> 0 \<Longrightarrow> i \<noteq> 0 \<Longrightarrow> usable s x"
  by (auto simp: usb_finish_open_def Let_def split_beta usable_def split: if_splits)

lemma usb_open_interface_usable:
  "fst (usb_open_interface env s port_set d y l) = Inr (Some x) \<Longrightarrow> d \<noteq> 0 \<Longrightarrow> usable s x"
  by (auto simp: usb_open_interface_def Let_def split_beta intro: usb_finish_open_usable split: if_splits)

lemma pongo_usb_open_usable:
  "fst (pongo_usb_open env s port_set l) = Inr (Some x) \<Longrightarrow> usable s x"
  by (auto simp: pongo_usb_open_def Let_def split_beta intro: usb_open_interface_usable
      split: if_splits option.splits)

section \<open>The number of attempts\<close>

lemma calls_perform [simp]: "calls c (perform env c' l) = (if c' = c then Suc (calls c l) else calls c l)"
  by (simp add: perform_cons)

lemma calls_usb_open_tries:
  "attempt \<le> 5 \<Longrightarrow> calls (USBDeviceOpen d) (snd (usb_open_tries env d attempt l))
     \<le> calls (USBDeviceOpen d) l + (6 - attempt)
   \<and> calls (usleep 100000) (snd (usb_open_tries env d attempt l)) \<le> calls (usleep 100000) l + (5 - attempt)"
proof (induction "PONGO_USB_OPEN_MAX_TRIES - attempt" arbitrary: attempt l rule: less_induct)
  case less
  show ?case
  proof (cases "fst (env l (USBDeviceOpen d)) = kIOReturnSuccess \<or> PONGO_USB_OPEN_MAX_TRIES \<le> attempt")
    case True
    then show ?thesis
      using less(2) by (subst (1 2) usb_open_tries.simps) (auto simp: do_call_def Let_def)
  next
    case False
    let ?l = "perform env (usleep 100000) ((USBDeviceOpen d, env l (USBDeviceOpen d)) # l)"
    have "attempt < 5" using False by (simp add: PONGO_USB_OPEN_MAX_TRIES_def)
    then have "calls (USBDeviceOpen d) (snd (usb_open_tries env d (attempt + 1) ?l))
        \<le> calls (USBDeviceOpen d) ?l + (6 - (attempt + 1))
      \<and> calls (usleep 100000) (snd (usb_open_tries env d (attempt + 1) ?l)) \<le> calls (usleep 100000) ?l + (5 - (attempt + 1))"
      by (intro less(1)) (simp_all add: PONGO_USB_OPEN_MAX_TRIES_def)
    then show ?thesis
      using False \<open>attempt < 5\<close> by (subst (1 2) usb_open_tries.simps) (auto simp: do_call_def Let_def)
  qed
qed


text \<open>Giving up takes all the attempts that are left.\<close>

lemma usb_open_gives_up:
  "attempt \<le> 5 \<Longrightarrow> \<not> fst (usb_open_tries env d attempt l) \<Longrightarrow>
     calls (USBDeviceOpen d) (snd (usb_open_tries env d attempt l)) = calls (USBDeviceOpen d) l + (6 - attempt)
     \<and> calls (usleep 100000) (snd (usb_open_tries env d attempt l)) = calls (usleep 100000) l + (5 - attempt)"
proof (induction "PONGO_USB_OPEN_MAX_TRIES - attempt" arbitrary: attempt l rule: less_induct)
  case less
  let ?l = "perform env (usleep 100000) ((USBDeviceOpen d, env l (USBDeviceOpen d)) # l)"
  have step: "usb_open_tries env d attempt l =
      (if fst (env l (USBDeviceOpen d)) = kIOReturnSuccess then (True, (USBDeviceOpen d, env l (USBDeviceOpen d)) # l)
       else if PONGO_USB_OPEN_MAX_TRIES \<le> attempt then (False, (USBDeviceOpen d, env l (USBDeviceOpen d)) # l)
       else usb_open_tries env d (attempt + 1) ?l)"
    by (subst usb_open_tries.simps) (simp add: do_call_def Let_def)
  show ?case
  proof (cases "attempt = 5")
    case True
    then show ?thesis using less(3) unfolding step by (auto simp: PONGO_USB_OPEN_MAX_TRIES_def)
  next
    case False
    then have "attempt < 5" using less(2) by simp
    then have "usb_open_tries env d attempt l = usb_open_tries env d (attempt + 1) ?l"
      using less(3) unfolding step by (auto simp: PONGO_USB_OPEN_MAX_TRIES_def split: if_splits)
    moreover from this have "calls (USBDeviceOpen d) (snd (usb_open_tries env d (attempt + 1) ?l))
        = calls (USBDeviceOpen d) ?l + (6 - (attempt + 1))
      \<and> calls (usleep 100000) (snd (usb_open_tries env d (attempt + 1) ?l)) = calls (usleep 100000) ?l + (5 - (attempt + 1))"
      using less(3) \<open>attempt < 5\<close> by (intro less(1)) (simp_all add: PONGO_USB_OPEN_MAX_TRIES_def)
    ultimately show ?thesis using \<open>attempt < 5\<close> by (simp, arith)
  qed
qed

end
