(* ===== verification/Loader.thy ===== *)
theory Loader
  imports Pongo_Usb Symbol_Blob
begin

text \<open>
  The loading sequence and the main loop of \<^verbatim>\<open>kext_loader.c\<close>: the three uploads, the list of
  tracked devices, the notification callbacks and \<open>pongo_usb_kext_loader\<close>. The environment is
  the calls of \<open>Io_Calls\<close>, the files of \<open>Host_File\<close>, what fresh memory holds, and which callback
  IOKit runs for a received message. Loops whose end depends on the environment are
  \<open>partial_function\<close>s: \<open>None\<close> is a run that never ends.
\<close>

datatype notification = No_callout | Device_added | Device_removed

record loader_env =
  io :: io_env
  host :: host_os
  fresh :: "io_log \<Rightarrow> nat \<Rightarrow> u8"
  callout :: "io_log \<Rightarrow> notification"

text \<open>The paths given on the command line.\<close>

record loader_config =
  pongo_kextload_path :: string
  kernelcache_symbols_path :: "string list"
  kext_path :: "string list"

text \<open>Assertions and undefined behaviour of this part and of the parts it calls.\<close>

datatype loader_stop =
    Usb_stop usb_stop
  | Instance_null
  | Symbols_stop kcs_abort
  | Table_stop blob_abort
  | Table_fault

type_synonym 'a outcome = "(loader_stop + 'a) \<times> io_log"

definition obind :: "'a outcome \<Rightarrow> ('a \<Rightarrow> io_log \<Rightarrow> 'b outcome) \<Rightarrow> 'b outcome" where
  "obind x k = (case x of (Inl e, l) \<Rightarrow> (Inl e, l) | (Inr a, l) \<Rightarrow> k a l)"

definition usb :: "(usb_stop + 'a) \<times> io_log \<Rightarrow> 'a outcome" where
  "usb x = (map_sum Usb_stop id (fst x), snd x)"

definition log_host :: "host_event list \<Rightarrow> io_log \<Rightarrow> io_log" where
  "log_host ev l = rev (map (\<lambda>e. (Host e, (0, 0))) ev) @ l"

section \<open>Loading\<close>

text \<open>A command line of pongoOS: its text and the newline.\<close>

definition pongo_line :: "string \<Rightarrow> string" where
  "pongo_line s = s @ [CHR 0x0A]"

text \<open>The bytes of a mapped file.\<close>

definition mapped_bytes :: "string \<times> nat \<Rightarrow> bytes" where
  "mapped_bytes m = bytes_of (take (snd m) (fst m))"

definition pongo_kext_load_init :: "loader_env \<Rightarrow> loader_config \<Rightarrow> pongo_usb_device \<Rightarrow> io_log \<Rightarrow> bool outcome" where
  "pongo_kext_load_init le cfg pongo l =
     (case map_file (host le) (pongo_kextload_path cfg) of
        (None, ev) \<Rightarrow> (Inr False, log_host ev l)
      | (Some m, ev) \<Rightarrow>
          obind (usb (pongo_usb_send_command (io le) pongo (pongo_line ''xfb'') 0 (log_host ev l)))
            (\<lambda>_ l.
              let (_, l) = pongo_usb_init_bulk_upload (io le) pongo l;
                  (_, l) = pongo_usb_send_bulk_data (io le) pongo (mapped_bytes m) l in
              obind (usb (pongo_usb_send_command (io le) pongo (pongo_line ''modload'') 0 l))
                (\<lambda>_ l. (Inr True, perform (io le) (usleep (200 * 1000)) (log_host (unmap_file m) l)))))"

text \<open>Freeing the table.\<close>

definition kernelcache_symbol_table_destroy :: "io_env \<Rightarrow> nat \<Rightarrow> io_log \<Rightarrow> io_log" where
  "kernelcache_symbol_table_destroy env data l = perform env (free data) l"

declare kernelcache_symbol_table_destroy_def [simp]

text \<open>The table is uploaded as \<open>malloc\<close> and the serialisation leave it; the buffer is then freed.\<close>

definition pongo_kext_load_symbols :: "loader_env \<Rightarrow> loader_config \<Rightarrow> pongo_usb_device \<Rightarrow> io_log \<Rightarrow> bool outcome" where
  "pongo_kext_load_symbols le cfg pongo l =
     (case kcs_update_directories (host le) (kernelcache_symbols_path cfg) kcs_empty of
        (Inl e, ev) \<Rightarrow> (Inl (Symbols_stop e), log_host ev l)
      | (Inr st, ev) \<Rightarrow>
          (let (a, l) = do_call (io le) (malloc (unat (blob_size st))) (log_host ev l);
               data = snd a in
           case kernelcache_symbol_table_generate (if data = 0 then None else Some (fresh le l)) st of
             None \<Rightarrow> (Inl Table_fault, l)
           | Some (Inl e) \<Rightarrow> (Inl (Table_stop e), l)
           | Some (Inr (b, n)) \<Rightarrow>
               if data = 0 then (Inr False, l)
               else
                 (let (_, l) = pongo_usb_init_bulk_upload (io le) pongo l;
                      (_, l) = pongo_usb_send_bulk_data (io le) pongo (rslice b 0 (unat n)) l in
                  obind (usb (pongo_usb_send_command (io le) pongo (pongo_line ''kernelcache-symbols'') 0 l))
                    (\<lambda>_ l. (Inr True, perform (io le) (usleep (200 * 1000)) (kernelcache_symbol_table_destroy (io le) data l))))))"

definition pongo_kext_load :: "loader_env \<Rightarrow> pongo_usb_device \<Rightarrow> string \<Rightarrow> io_log \<Rightarrow> bool outcome" where
  "pongo_kext_load le pongo path l =
     (case map_file (host le) path of
        (None, ev) \<Rightarrow> (Inr False, log_host ev l)
      | (Some m, ev) \<Rightarrow>
          (let (_, l) = pongo_usb_init_bulk_upload (io le) pongo (log_host ev l);
               (_, l) = pongo_usb_send_bulk_data (io le) pongo (mapped_bytes m) l in
           obind (usb (pongo_usb_send_command (io le) pongo (pongo_line ''kextload'') 0 l))
             (\<lambda>_ l. (Inr True, perform (io le) (usleep (200 * 1000)) (log_host (unmap_file m) l)))))"

definition pongo_kext_boot_xnu :: "loader_env \<Rightarrow> pongo_usb_device \<Rightarrow> io_log \<Rightarrow> unit outcome" where
  "pongo_kext_boot_xnu le pongo l =
     obind (usb (pongo_usb_send_command (io le) pongo (pongo_line ''bootx'') 0 l)) (\<lambda>_ l. (Inr (), l))"

text \<open>The loop over the extensions, which stops at the first one that does not map.\<close>

fun load_kexts :: "loader_env \<Rightarrow> pongo_usb_device \<Rightarrow> string list \<Rightarrow> io_log \<Rightarrow> bool outcome" where
  "load_kexts le pongo [] l = (Inr True, l)"
| "load_kexts le pongo (p # ps) l =
     obind (pongo_kext_load le pongo p l)
       (\<lambda>ok l. if \<not> ok then (Inr False, l) else load_kexts le pongo ps l)"

section \<open>Tracked devices\<close>

record pongo_instance =
  inst_ptr :: nat
  inst_device :: pongo_usb_device
  inst_state :: int

text \<open>\<open>instances\<close> is the linked list, its head first.\<close>

record pongo_kext_loader_state =
  kq :: nat
  port_set :: nat
  instances :: "pongo_instance list"

definition pongo_instance_create ::
  "loader_env \<Rightarrow> nat \<Rightarrow> pongo_kext_loader_state \<Rightarrow> io_log
     \<Rightarrow> (pongo_instance option \<times> pongo_kext_loader_state) outcome" where
  "pongo_instance_create le s st l =
     obind (usb (pongo_usb_open (io le) s (port_set st) l))
       (\<lambda>dev l.
         case dev of
           None \<Rightarrow> (Inr (None, st), l)
         | Some dev \<Rightarrow>
             (let (a, l) = do_call (io le) calloc l in
              if snd a = 0 then (Inl Instance_null, l)
              else
                (let inst = \<lparr>inst_ptr = snd a, inst_device = dev, inst_state = 0\<rparr> in
                 (Inr (Some inst, st\<lparr>instances := inst # instances st\<rparr>), l))))"

definition pongo_instance_load_kext ::
  "loader_env \<Rightarrow> loader_config \<Rightarrow> pongo_instance \<Rightarrow> io_log \<Rightarrow> bool outcome" where
  "pongo_instance_load_kext le cfg inst l =
     obind (pongo_kext_load_init le cfg (inst_device inst) l)
       (\<lambda>ok l. if \<not> ok then (Inr False, l) else
         obind (pongo_kext_load_symbols le cfg (inst_device inst) l)
           (\<lambda>ok l. if \<not> ok then (Inr False, l) else
             obind (load_kexts le (inst_device inst) (kext_path cfg) l)
               (\<lambda>ok l. if \<not> ok then (Inr False, l) else
                 obind (pongo_kext_boot_xnu le (inst_device inst) l) (\<lambda>_ l. (Inr True, l)))))"

text \<open>The walk along the list to the first instance of the service, and the list without it.\<close>

fun unlink_instance :: "nat \<Rightarrow> pongo_instance list \<Rightarrow> (pongo_instance \<times> pongo_instance list) option" where
  "unlink_instance s [] = None"
| "unlink_instance s (i # is) =
     (if pongo_usb_matches_service (Some (inst_device i)) s then Some (i, is)
      else map_option (apsnd (Cons i)) (unlink_instance s is))"

definition pongo_instance_destroy ::
  "loader_env \<Rightarrow> nat \<Rightarrow> pongo_kext_loader_state \<Rightarrow> io_log \<Rightarrow> pongo_kext_loader_state outcome" where
  "pongo_instance_destroy le s st l =
     (case unlink_instance s (instances st) of
        None \<Rightarrow> (Inr st, l)
      | Some (inst, rest) \<Rightarrow>
          (Inr (st\<lparr>instances := rest\<rparr>),
           perform (io le) (free (inst_ptr inst)) (pongo_usb_close (io le) (Some (inst_device inst)) l)))"

section \<open>Notifications\<close>

text \<open>What is done for one service that the iterator of the added notification delivers.\<close>

definition device_added_body ::
  "loader_env \<Rightarrow> loader_config \<Rightarrow> nat \<Rightarrow> pongo_kext_loader_state \<Rightarrow> io_log \<Rightarrow> pongo_kext_loader_state outcome" where
  "device_added_body le cfg s st l =
     obind (pongo_instance_create le s st l)
       (\<lambda>(inst, st) l.
         case inst of
           None \<Rightarrow> (Inr st, l)
         | Some inst \<Rightarrow> obind (pongo_instance_load_kext le cfg inst l) (\<lambda>_ l. (Inr st, l)))"

partial_function (option) pongo_device_added ::
  "loader_env \<Rightarrow> loader_config \<Rightarrow> nat \<Rightarrow> pongo_kext_loader_state \<Rightarrow> io_log
     \<Rightarrow> pongo_kext_loader_state outcome option" where
  "pongo_device_added le cfg it st l =
     (let (a, l) = do_call (io le) (IOIteratorNext it) l;
          s = snd a in
      if s = 0 then Some (Inr st, l)
      else
        (case device_added_body le cfg s st l of
           (Inl e, l) \<Rightarrow> Some (Inl e, l)
         | (Inr st, l) \<Rightarrow> pongo_device_added le cfg it st (perform (io le) (IOObjectRelease s) l)))"

partial_function (option) pongo_device_removed ::
  "loader_env \<Rightarrow> nat \<Rightarrow> pongo_kext_loader_state \<Rightarrow> io_log \<Rightarrow> pongo_kext_loader_state outcome option" where
  "pongo_device_removed le it st l =
     (let (a, l) = do_call (io le) (IOIteratorNext it) l;
          s = snd a in
      if s = 0 then Some (Inr st, l)
      else
        (case pongo_instance_destroy le s st l of
           (Inl e, l) \<Rightarrow> Some (Inl e, l)
         | (Inr st, l) \<Rightarrow> pongo_device_removed le it st (perform (io le) (IOObjectRelease s) l)))"

text \<open>
  \<open>added\<close> and \<open>removed\<close> are the iterators the two callbacks were registered with.
\<close>

partial_function (option) handle_notification_message ::
  "loader_env \<Rightarrow> loader_config \<Rightarrow> nat \<Rightarrow> nat \<Rightarrow> pongo_kext_loader_state \<Rightarrow> io_log
     \<Rightarrow> pongo_kext_loader_state outcome option" where
  "handle_notification_message le cfg added removed st l =
     (let (a, l) = do_call (io le) (mach_msg (port_set st)) l in
      if fst a \<noteq> kIOReturnSuccess then Some (Inr st, l)
      else
        (let l = perform (io le) IODispatchCalloutFromMessage l in
         case (case callout le l of
                 No_callout \<Rightarrow> Some (Inr st, l)
               | Device_added \<Rightarrow> pongo_device_added le cfg added st l
               | Device_removed \<Rightarrow> pongo_device_removed le removed st l) of
           None \<Rightarrow> None
         | Some (Inl e, l) \<Rightarrow> Some (Inl e, l)
         | Some (Inr st, l) \<Rightarrow> handle_notification_message le cfg added removed st l))"

section \<open>The main loop\<close>

text \<open>
  An answer of the waiting \<open>kevent\<close>: it failed, reported nothing, reported an event of the port
  set, or another event.
\<close>

datatype kevent_count = Kevent_failed | Kevent_none | Kevent_port_set | Kevent_other

definition kevent_kind :: "io_answer \<Rightarrow> kevent_count" where
  "kevent_kind a =
     (if fst a \<noteq> kIOReturnSuccess then Kevent_failed
      else if snd a = 0 then Kevent_none
      else if snd a = 1 then Kevent_port_set else Kevent_other)"

text \<open>The loop ends only through a failed \<open>kevent\<close>.\<close>

partial_function (option) loader_loop ::
  "loader_env \<Rightarrow> loader_config \<Rightarrow> nat \<Rightarrow> nat \<Rightarrow> pongo_kext_loader_state \<Rightarrow> io_log
     \<Rightarrow> pongo_kext_loader_state outcome option" where
  "loader_loop le cfg added removed st l =
     (let (a, l) = do_call (io le) (kevent_wait (kq st)) l in
      case kevent_kind a of
        Kevent_failed \<Rightarrow> Some (Inr st, l)
      | Kevent_none \<Rightarrow> loader_loop le cfg added removed st l
      | Kevent_other \<Rightarrow> loader_loop le cfg added removed st l
      | Kevent_port_set \<Rightarrow>
          (case handle_notification_message le cfg added removed st l of
             None \<Rightarrow> None
           | Some (Inl e, l) \<Rightarrow> Some (Inl e, l)
           | Some (Inr st, l) \<Rightarrow> loader_loop le cfg added removed st l))"


text \<open>The dictionary that matches the pongoOS USB descriptor: vendor 0x05AC, product 0x4141.\<close>

definition kAppleVendorID :: nat where
  "kAppleVendorID = 0x05AC"

definition create_pongo_iokit_usb_matching_dictionary :: "io_env \<Rightarrow> io_log \<Rightarrow> nat \<times> io_log" where
  "create_pongo_iokit_usb_matching_dictionary env l =
     (let (a, l) = do_call env IOServiceMatching l;
          dict = snd a;
          (a, l) = do_call env (CFNumberCreate kAppleVendorID) l;
          vendorId = snd a;
          l = perform env (CFDictionarySetValue dict ''idVendor'' vendorId) l;
          l = perform env (CFRelease vendorId) l;
          (a, l) = do_call env (CFNumberCreate 0x4141) l;
          productId = snd a;
          l = perform env (CFDictionarySetValue dict ''idProduct'' productId) l;
          l = perform env (CFRelease productId) l in
      (dict, l))"

text \<open>The cleanup ladder of the main loop; the function returns \<open>success\<close>, which is still \<open>False\<close>.\<close>

definition loader_fail_1 :: "io_env \<Rightarrow> nat \<Rightarrow> io_log \<Rightarrow> bool outcome option" where
  "loader_fail_1 env q l = Some (Inr False, perform env (kqueue_close q) l)"

definition loader_fail_2 :: "io_env \<Rightarrow> nat \<Rightarrow> nat \<Rightarrow> io_log \<Rightarrow> bool outcome option" where
  "loader_fail_2 env q ps l = loader_fail_1 env q (perform env (mach_port_destroy ps) l)"

definition loader_fail_3 :: "io_env \<Rightarrow> nat \<Rightarrow> nat \<Rightarrow> nat \<Rightarrow> io_log \<Rightarrow> bool outcome option" where
  "loader_fail_3 env q ps np l = loader_fail_2 env q ps (perform env (IONotificationPortDestroy np) l)"

definition loader_fail_4 :: "io_env \<Rightarrow> nat \<Rightarrow> nat \<Rightarrow> nat \<Rightarrow> nat \<Rightarrow> io_log \<Rightarrow> bool outcome option" where
  "loader_fail_4 env q ps np added l = loader_fail_3 env q ps np (perform env (IOObjectRelease added) l)"

definition loader_fail_5 :: "io_env \<Rightarrow> nat \<Rightarrow> nat \<Rightarrow> nat \<Rightarrow> nat \<Rightarrow> nat \<Rightarrow> io_log \<Rightarrow> bool outcome option" where
  "loader_fail_5 env q ps np added removed l =
     loader_fail_4 env q ps np added (perform env (IOObjectRelease removed) l)"

text \<open>Arming both notifications, which handles the devices already there, and the loop.\<close>

definition loader_run ::
  "loader_env \<Rightarrow> loader_config \<Rightarrow> nat \<Rightarrow> nat \<Rightarrow> pongo_kext_loader_state \<Rightarrow> io_log
     \<Rightarrow> pongo_kext_loader_state outcome option" where
  "loader_run le cfg added removed st l =
     (case pongo_device_added le cfg added st l of
        None \<Rightarrow> None
      | Some (Inl e, l) \<Rightarrow> Some (Inl e, l)
      | Some (Inr st, l) \<Rightarrow>
          (case pongo_device_removed le removed st l of
             None \<Rightarrow> None
           | Some (Inl e, l) \<Rightarrow> Some (Inl e, l)
           | Some (Inr st, l) \<Rightarrow> loader_loop le cfg added removed st l))"

text \<open>From the notification port on.\<close>

definition loader_listen ::
  "loader_env \<Rightarrow> loader_config \<Rightarrow> nat \<Rightarrow> nat \<Rightarrow> nat \<Rightarrow> io_log \<Rightarrow> bool outcome option" where
  "loader_listen le cfg q ps np l =
     (let (dict, l) = create_pongo_iokit_usb_matching_dictionary (io le) l;
          l = perform (io le) (CFRetain dict) l;
          (a, l) = do_call (io le) (IOServiceAddMatchingNotification np dict True) l in
      if fst a \<noteq> kIOReturnSuccess
      then loader_fail_3 (io le) q ps np (perform (io le) (CFRelease dict) l)
      else
        (let added = snd a;
             (a, l) = do_call (io le) (IOServiceAddMatchingNotification np dict False) l in
         if fst a \<noteq> kIOReturnSuccess then loader_fail_4 (io le) q ps np added l
         else
           (let removed = snd a in
            case loader_run le cfg added removed \<lparr>kq = q, port_set = ps, instances = []\<rparr> l of
              None \<Rightarrow> None
            | Some (Inl e, l) \<Rightarrow> Some (Inl e, l)
            | Some (Inr st, l) \<Rightarrow> loader_fail_5 (io le) q ps np added removed l)))"

definition pongo_usb_kext_loader :: "loader_env \<Rightarrow> loader_config \<Rightarrow> io_log \<Rightarrow> bool outcome option" where
  "pongo_usb_kext_loader le cfg l =
     (let (a, l) = do_call (io le) kqueue l in
      if fst a \<noteq> kIOReturnSuccess then Some (Inr False, l)
      else
        (let q = snd a;
             (a, l) = do_call (io le) mach_port_allocate l in
         if fst a \<noteq> kIOReturnSuccess then loader_fail_1 (io le) q l
         else
           (let ps = snd a;
                (a, l) = do_call (io le) (kevent_add q ps) l in
            if fst a \<noteq> kIOReturnSuccess then loader_fail_2 (io le) q ps l
            else
              (let (a, l) = do_call (io le) IONotificationPortCreate l;
                   np = snd a;
                   (a, l) = do_call (io le) (IONotificationPortGetMachPort np) l;
                   (a, l) = do_call (io le) (mach_port_insert_member (snd a) ps) l in
               if fst a \<noteq> kIOReturnSuccess then loader_fail_3 (io le) q ps np l
               else loader_listen le cfg q ps np l))))"

end
