(* ===== verification/Loader_Spec.thy ===== *)
theory Loader_Spec
  imports Loader "HOL-Library.Sublist"
begin

text \<open>
  What the loading sequence holds, what it sends, and the iteration over services that the two
  notification callbacks share. The iteration is stated once, as a relation and a locale, and
  interpreted on both callbacks.
\<close>

section \<open>Rules for outcomes\<close>

abbreviation unless_stop :: "('a \<Rightarrow> resource multiset \<Rightarrow> bool) \<Rightarrow> 'e + 'a \<Rightarrow> resource multiset \<Rightarrow> bool" where
  "unless_stop P r K \<equiv> (case r of Inl e \<Rightarrow> True | Inr a \<Rightarrow> P a K)"

lemma owns_obind:
  assumes "owns (unless_stop P) x"
    and "\<And>a l H. refs l = Some H \<Longrightarrow> P a H \<Longrightarrow> owns (unless_stop Q) (k a l)"
  shows "owns (unless_stop Q) (obind x k)"
proof (cases x)
  case (Pair r l)
  then show ?thesis using assms by (cases r) (auto simp: owns_def obind_def)
qed

lemma owns_usb: "owns (unless_stop P) (usb x) \<longleftrightarrow> owns (unless_stop P) x"
proof (cases x)
  case (Pair r l)
  then show ?thesis by (cases r) (auto simp: owns_def usb_def)
qed

text \<open>Transfers hold nothing.\<close>

lemma refs_device_request [simp]: "refs (snd (device_request env d r l)) = refs l"
  by (simp add: device_request_def do_call_def Let_def split: option.split)

lemma refs_send_command [simp]: "refs (snd (pongo_usb_send_command env d c n l)) = refs l"
  by (simp add: pongo_usb_send_command_def Let_def split_beta split: option.split)

lemma refs_bulk [simp]:
  "refs (snd (pongo_usb_init_bulk_upload env d l)) = refs l"
  "refs (snd (pongo_usb_discard_bulk_upload env d l)) = refs l"
  by (simp_all add: pongo_usb_init_bulk_upload_def pongo_usb_discard_bulk_upload_def)

lemma refs_send_bulk_data [simp]: "refs (snd (pongo_usb_send_bulk_data env d data l)) = refs l"
  by (simp add: pongo_usb_send_bulk_data_def do_call_def Let_def split: option.split)

lemma owns_command:
  "refs l = Some H \<Longrightarrow> owns (unless_stop (\<lambda>_ K. K = H)) (usb (pongo_usb_send_command env d c n l))"
  unfolding owns_usb by (cases "fst (pongo_usb_send_command env d c n l)") (simp_all add: owns_def)

text \<open>Files are held as long as they are mapped.\<close>

definition mapping :: "(string \<times> nat) option \<Rightarrow> resource multiset" where
  "mapping m = (case m of None \<Rightarrow> {#} | Some (d, n) \<Rightarrow> {#Host_held (Map_data d n)#})"

lemma log_host_simps [simp]:
  "log_host [] l = l" "log_host (e # ev) l = log_host ev ((Host e, 0, 0) # l)"
  "log_host (ev @ ev') l = log_host ev' (log_host ev l)"
  by (simp_all add: log_host_def)

lemma refs_map_file:
  "refs l = Some H \<Longrightarrow> map_file os p = (m, ev) \<Longrightarrow> refs (log_host ev l) = Some (H + mapping m)"
  by (auto simp: map_file_def mapping_def split: option.splits)

lemma refs_unmap_file:
  "refs l = Some (H + mapping (Some m)) \<Longrightarrow> refs (log_host (unmap_file m) l) = Some H"
  by (cases m) (simp add: unmap_file_def mapping_def)

text \<open>An outcome of the code of \<open>Symbol_State\<close>, with its events logged.\<close>

abbreviation logged :: "('e + 'a) \<times> host_event list \<Rightarrow> io_log \<Rightarrow> ('e + 'a) \<times> io_log" where
  "logged x l \<equiv> (fst x, log_host (snd x) l)"

lemma owns_update_entries:
  "refs l = Some H \<Longrightarrow> owns (unless_stop (\<lambda>_ K. K = H)) (logged (kcs_update_entries os dir dps st) l)"
proof (induction os dir dps st arbitrary: l rule: kcs_update_entries.induct)
  case (1 os dirpath st)
  then show ?case by (simp add: owns_result)
next
  case (2 os dirpath dp dps st)
  show ?case
  proof (cases "wants_file dp")
    case False
    then show ?thesis using 2 by simp
  next
    case True
    obtain m ev where m: "map_file os (entry_path dirpath dp) = (m, ev)" by fastforce
    note r = refs_map_file [OF 2(4) m]
    show ?thesis
    proof (cases m)
      case None
      then show ?thesis
        using 2(2) [OF _ m [symmetric] None] True r m by (simp add: mapping_def map_prod_def split_beta)
    next
      case (Some f)
      show ?thesis
      proof (cases "kcs_process_file f st")
        case (Inl e)
        then show ?thesis using Some True m r by (simp add: owns_def)
      next
        case (Inr st2)
        then show ?thesis
          using 2(3) [OF _ m [symmetric] Some Inr] True r m Some
          by (simp add: refs_unmap_file map_prod_def split_beta)
      qed
    qed
  qed
qed

lemma owns_update_directories:
  "refs l = Some H \<Longrightarrow> owns (unless_stop (\<lambda>_ K. K = H)) (logged (kcs_update_directories os ps st) l)"
proof (induction ps arbitrary: st l)
  case (Cons p ps)
  show ?case
  proof (cases "os_opendir os p")
    case None
    then show ?thesis
      using Cons by (simp add: kernelcache_symbol_table_update_directory_def map_prod_def split_beta)
  next
    case (Some dps)
    have "refs ((Host (Open_dir p), 0, 0) # l) = Some (H + {#Host_held (Open_dir p)#})"
      using Cons.prems by simp
    note o = owns_update_entries [OF this, of os p dps st]
    show ?thesis
    proof (cases "kcs_update_entries os p dps st")
      case (Pair r ev)
      then show ?thesis
        using o Some Cons.IH
        by (cases r) (auto simp: kernelcache_symbol_table_update_directory_def map_prod_def split_beta owns_def)
    qed
  qed
qed (simp add: owns_result)

section \<open>The loading sequence holds nothing\<close>

lemmas owns_steps = owns_obind [OF owns_command] owns_result

lemma owns_load_init:
  "refs l = Some H \<Longrightarrow> owns (unless_stop (\<lambda>_ K. K = H)) (pongo_kext_load_init le cfg d l)"
proof (cases "map_file (host le) (pongo_kextload_path cfg)")
  case (Pair m ev)
  assume "refs l = Some H"
  note r = refs_map_file [OF this Pair]
  show ?thesis
  proof (cases m)
    case None
    then show ?thesis using r Pair by (simp add: pongo_kext_load_init_def mapping_def owns_result)
  next
    case (Some f)
    then show ?thesis
      using r Pair
      by (auto simp: pongo_kext_load_init_def split_beta refs_perform refs_unmap_file intro!: owns_steps)
  qed
qed

lemma owns_kext_load:
  "refs l = Some H \<Longrightarrow> owns (unless_stop (\<lambda>_ K. K = H)) (pongo_kext_load le d p l)"
proof (cases "map_file (host le) p")
  case (Pair m ev)
  assume "refs l = Some H"
  note r = refs_map_file [OF this Pair]
  show ?thesis
  proof (cases m)
    case None
    then show ?thesis using r Pair by (simp add: pongo_kext_load_def mapping_def owns_result)
  next
    case (Some f)
    then show ?thesis
      using r Pair
      by (auto simp: pongo_kext_load_def split_beta refs_perform refs_unmap_file intro!: owns_steps)
  qed
qed

lemma owns_load_kexts:
  "refs l = Some H \<Longrightarrow> owns (unless_stop (\<lambda>_ K. K = H)) (load_kexts le d ps l)"
proof (induction ps arbitrary: l)
  case (Cons p ps)
  show ?case
    using Cons.IH by (auto intro!: owns_obind [OF owns_kext_load [OF Cons.prems]] owns_result)
qed (simp add: owns_result)


lemma table_of_null: "kernelcache_symbol_table_generate None st = None"
  by (simp add: kernelcache_symbol_table_generate_def)

lemma owns_load_symbols:
  assumes "refs l = Some H"
  shows "owns (unless_stop (\<lambda>_ K. K = H)) (pongo_kext_load_symbols le cfg d l)"
proof (cases "kcs_update_directories (host le) (kernelcache_symbols_path cfg) kcs_empty")
  case (Pair r ev)
  note o = owns_update_directories [OF assms, of "host le" "kernelcache_symbols_path cfg" kcs_empty,
      unfolded Pair]
  show ?thesis
  proof (cases r)
    case (Inl e)
    then show ?thesis using o Pair by (simp add: pongo_kext_load_symbols_def owns_def)
  next
    case (Inr st)
    have "refs (log_host ev l) = Some H"
      using o Inr by (auto simp: owns_def)
    then show ?thesis
      unfolding pongo_kext_load_symbols_def Pair Inr prod.case sum.case
      apply -
      apply (rule owns_call, assumption, simp)
      subgoal for kr h l'
        by (rule owns_let, cases "kernelcache_symbol_table_generate (if h = 0 then None else Some (fresh le l')) st";
            cases "the (kernelcache_symbol_table_generate (if h = 0 then None else Some (fresh le l')) st)")
           (auto simp: table_of_null split_beta refs_perform owns_result owns_def [of _ "(Inl _, _)"] intro!: owns_steps)
      done
  qed
qed


lemma owns_instance_load_kext:
  assumes "refs l = Some H"
  shows "owns (unless_stop (\<lambda>_ K. K = H)) (pongo_instance_load_kext le cfg i l)"
  unfolding pongo_instance_load_kext_def
  by (rule owns_obind [OF owns_load_init [OF assms]], rule owns_if, simp add: owns_result,
      rule owns_obind [OF owns_load_symbols], simp, rule owns_if, simp add: owns_result,
      rule owns_obind [OF owns_load_kexts], simp, rule owns_if, simp add: owns_result)
     (auto simp: pongo_kext_boot_xnu_def intro!: owns_obind [where P = "\<lambda>_ K. K = H"] owns_command owns_result)

section \<open>Tracked devices\<close>

definition inst_resources :: "pongo_instance \<Rightarrow> resource multiset" where
  "inst_resources i = usb_resources (inst_device i) + {#Memory (inst_ptr i)#}"

definition tracked :: "pongo_kext_loader_state \<Rightarrow> resource multiset" where
  "tracked st = sum_list (map inst_resources (instances st))"

lemma owns_instance_create:
  assumes "refs l = Some (H + tracked st)"
  shows "owns (unless_stop (\<lambda>(i, st') K. K = H + tracked st')) (pongo_instance_create le s st l)"
  unfolding pongo_instance_create_def
proof (rule owns_obind [where P = "\<lambda>d K. K = H + tracked st + (case d of None \<Rightarrow> {#} | Some d \<Rightarrow> usb_resources d)"])
  show "owns (unless_stop (\<lambda>d K. K = H + tracked st + (case d of None \<Rightarrow> {#} | Some d \<Rightarrow> usb_resources d)))
      (usb (pongo_usb_open (io le) s (port_set st) l))"
    unfolding owns_usb
    by (rule owns_weaken [OF owns_pongo_usb_open [OF assms]]) (auto split: sum.splits option.splits)
next
  fix d l' K
  assume "refs l' = Some K" "K = H + tracked st + (case d of None \<Rightarrow> {#} | Some d \<Rightarrow> usb_resources d)"
  then show "owns (unless_stop (\<lambda>(i, st') K. K = H + tracked st'))
      (case d of None \<Rightarrow> (Inr (None, st), l')
       | Some dev \<Rightarrow>
           (let (a, l) = do_call (io le) calloc l' in
            if snd a = 0 then (Inl Instance_null, l)
            else
              (let inst = \<lparr>inst_ptr = snd a, inst_device = dev, inst_state = 0\<rparr> in
               (Inr (Some inst, st\<lparr>instances := inst # instances st\<rparr>), l))))"
    by (cases d; cases "io le l' calloc")
       (auto simp: owns_result tracked_def inst_resources_def Let_def do_call_def owns_def ac_simps)
qed

lemma owns_device_added_body:
  assumes "refs l = Some (H + tracked st + {#Object_ref s#})"
  shows "owns (unless_stop (\<lambda>st' K. K = H + tracked st' + {#Object_ref s#})) (device_added_body le cfg s st l)"
proof -
  have "refs l = Some (H + {#Object_ref s#} + tracked st)" using assms by (simp add: ac_simps)
  note create = owns_instance_create [OF this]
  show ?thesis
    unfolding device_added_body_def
    by (rule owns_obind [OF create])
       (auto simp: owns_result ac_simps split: option.split
        intro!: owns_obind [OF owns_instance_load_kext])
qed

end
