(* ===== verification/Loader_Protocol.thy ===== *)
theory Loader_Protocol
  imports Loader_Spec
begin

text \<open>
  What the pongoOS device sees while an extension is loaded: the control requests and pipe writes,
  in order. A failed write is answered with a discard request, and the command is sent all the same.
\<close>

definition command_request :: "pongo_usb_device \<Rightarrow> string \<Rightarrow> io_call" where
  "command_request d s = DeviceRequest (device d) (control_request 0x3 (bytes_of (pongo_line s) @ [0]))"

text \<open>One upload; \<open>failed\<close> says whether the write failed.\<close>

definition upload_wire :: "pongo_usb_device \<Rightarrow> bytes \<Rightarrow> string \<Rightarrow> bool \<Rightarrow> io_call list" where
  "upload_wire d data s failed =
     [DeviceRequest (device d) (control_request 0x1 []), WritePipe (interface d) 2 (pipe_bytes data)]
     @ (if failed then [DeviceRequest (device d) (control_request 0x2 [])] else [])
     @ [command_request d s]"

text \<open>The bytes of a file that maps.\<close>

definition file_bytes :: "host_os \<Rightarrow> string \<Rightarrow> bytes" where
  "file_bytes os p = mapped_bytes (the (fst (map_file os p)))"

fun kexts_wire :: "pongo_usb_device \<Rightarrow> host_os \<Rightarrow> string list \<Rightarrow> bool list \<Rightarrow> io_call list" where
  "kexts_wire d os (p # ps) (b # bs) = upload_wire d (file_bytes os p) ''kextload'' b @ kexts_wire d os ps bs"
| "kexts_wire d os _ _ = []"

lemma wire_log_host [simp]: "wire (log_host ev l) = wire l"
proof -
  have "List.filter wire_call (map fst (log_host ev l)) = List.filter wire_call (map fst l)"
    by (induction ev arbitrary: l) simp_all
  then show ?thesis by (simp add: wire_def)
qed

lemma wire_perform: "\<not> wire_call c \<Longrightarrow> wire (perform env c l) = wire l"
  by (simp add: perform_cons)

text \<open>Every command line of the program fits the request.\<close>

lemma send_line:
  assumes "length s < 253"
  shows "\<exists>r a. pongo_usb_send_command env d (pongo_line s) 0 l = (Inr r, (command_request d s, a) # l)"
  using assms
  by (auto simp: pongo_usb_send_command_def command_bytes_def device_request_def do_call_def Let_def
      command_request_def pongo_line_def)

text \<open>
  Init, write and command, with whatever is between the command and the result. \<open>writes_succeed\<close> is
  an environment in which no write to a pipe fails.
\<close>

definition writes_succeed :: "io_env \<Rightarrow> bool" where
  "writes_succeed env \<longleftrightarrow> (\<forall>l i p data. fst (env l (WritePipe i p data)) = kIOReturnSuccess)"

lemma upload_spec:
  assumes "length s < 253"
  shows "\<exists>b r l'. (let (_, l) = pongo_usb_init_bulk_upload env d l;
             (_, l) = pongo_usb_send_bulk_data env d data l in
         obind (usb (pongo_usb_send_command env d (pongo_line s) 0 l)) k) = k r l'
       \<and> wire l' = wire l @ upload_wire d data s b \<and> (writes_succeed env \<longrightarrow> \<not> b)"
proof -
  obtain r1 a1 where i: "pongo_usb_init_bulk_upload env d l
      = (r1, (DeviceRequest (device d) (control_request 0x1 []), a1) # l)"
    by (rule that [of "fst (pongo_usb_init_bulk_upload env d l)" "env l (DeviceRequest (device d) (control_request 0x1 []))"])
       (simp add: pongo_usb_init_bulk_upload_def device_request_def do_call_def Let_def)
  obtain b r2 l2 where s: "pongo_usb_send_bulk_data env d data (snd (pongo_usb_init_bulk_upload env d l)) = (r2, l2)"
    and l2: "wire l2 = wire l @ [DeviceRequest (device d) (control_request 0x1 []),
      WritePipe (interface d) 2 (pipe_bytes data)]
      @ (if b then [DeviceRequest (device d) (control_request 0x2 [])] else [])"
    and ok: "writes_succeed env \<longrightarrow> \<not> b"
  proof (cases "fst (env (snd (pongo_usb_init_bulk_upload env d l)) (WritePipe (interface d) 2 (pipe_bytes data)))
      = kIOReturnSuccess")
    case True
    then show ?thesis
      by (intro that [of True _ False], simp add: i pongo_usb_send_bulk_data_def do_call_def Let_def) simp_all
  next
    case False
    then show ?thesis
      by (intro that [of False _ True], simp add: i pongo_usb_send_bulk_data_def
          pongo_usb_discard_bulk_upload_def device_request_def do_call_def Let_def) (auto simp: writes_succeed_def)
  qed
  obtain r a where c: "pongo_usb_send_command env d (pongo_line s) 0 l2 = (Inr r, (command_request d s, a) # l2)"
    using send_line [OF assms, of env d l2] by auto
  have "(let (_, l) = pongo_usb_init_bulk_upload env d l; (_, l) = pongo_usb_send_bulk_data env d data l in
      obind (usb (pongo_usb_send_command env d (pongo_line s) 0 l)) k) = k r ((command_request d s, a) # l2)"
    using s c by (simp add: split_beta usb_def obind_def)
  moreover have "wire ((command_request d s, a) # l2) = wire l @ upload_wire d data s b"
    using l2 by (simp add: upload_wire_def command_request_def)
  ultimately show ?thesis using ok by blast
qed

lemma load_init_wire:
  assumes "fst (map_file (host le) (pongo_kextload_path cfg)) \<noteq> None"
  shows "\<exists>b l'. pongo_kext_load_init le cfg d l = (Inr True, l')
    \<and> wire l' = wire l @ command_request d ''xfb''
        # upload_wire d (file_bytes (host le) (pongo_kextload_path cfg)) ''modload'' b"
proof -
  obtain m ev where m: "map_file (host le) (pongo_kextload_path cfg) = (Some m, ev)"
    using assms by (cases "map_file (host le) (pongo_kextload_path cfg)") auto
  obtain r a where c: "pongo_usb_send_command (io le) d (pongo_line ''xfb'') 0 (log_host ev l)
      = (Inr r, (command_request d ''xfb'', a) # log_host ev l)"
    using send_line [of "''xfb''" "io le" d "log_host ev l"] by auto
  obtain b r' l' where u: "pongo_kext_load_init le cfg d l
      = (Inr True, perform (io le) (usleep (200 * 1000)) (log_host (unmap_file m) l'))"
    "wire l' = wire ((command_request d ''xfb'', a) # log_host ev l) @ upload_wire d (mapped_bytes m) ''modload'' b"
    using upload_spec [of "''modload''" "io le" d "(command_request d ''xfb'', a) # log_host ev l" "mapped_bytes m"
        "\<lambda>_ l. (Inr True, perform (io le) (usleep (200 * 1000)) (log_host (unmap_file m) l))"]
    by (auto simp: pongo_kext_load_init_def m c usb_def obind_def [of "(Inr _, _)"])
  then show ?thesis
    by (auto simp: wire_perform file_bytes_def m command_request_def)
qed

lemma kext_load_wire:
  assumes "fst (map_file (host le) p) \<noteq> None"
  shows "\<exists>b l'. pongo_kext_load le d p l = (Inr True, l')
    \<and> wire l' = wire l @ upload_wire d (file_bytes (host le) p) ''kextload'' b
    \<and> (writes_succeed (io le) \<longrightarrow> \<not> b)"
proof -
  obtain m ev where m: "map_file (host le) p = (Some m, ev)"
    using assms by (cases "map_file (host le) p") auto
  obtain b r l' where u: "pongo_kext_load le d p l
      = (Inr True, perform (io le) (usleep (200 * 1000)) (log_host (unmap_file m) l'))"
    "wire l' = wire (log_host ev l) @ upload_wire d (mapped_bytes m) ''kextload'' b"
    "writes_succeed (io le) \<longrightarrow> \<not> b"
    using upload_spec [of "''kextload''" "io le" d "log_host ev l" "mapped_bytes m"
        "\<lambda>_ l. (Inr True, perform (io le) (usleep (200 * 1000)) (log_host (unmap_file m) l))"]
    by (auto simp: pongo_kext_load_def m)
  then show ?thesis
    by (auto simp: wire_perform file_bytes_def m)
qed

lemma load_kexts_wire:
  assumes "\<And>p. p \<in> set ps \<Longrightarrow> fst (map_file (host le) p) \<noteq> None"
  shows "\<exists>bs l'. load_kexts le d ps l = (Inr True, l') \<and> length bs = length ps
    \<and> wire l' = wire l @ kexts_wire d (host le) ps bs
    \<and> (writes_succeed (io le) \<longrightarrow> bs = replicate (length ps) False)"
  using assms
proof (induction ps arbitrary: l)
  case Nil
  show ?case by (rule exI [of _ "[]"]) simp
next
  case (Cons p ps)
  obtain b l1 where p: "pongo_kext_load le d p l = (Inr True, l1)"
    "wire l1 = wire l @ upload_wire d (file_bytes (host le) p) ''kextload'' b" "writes_succeed (io le) \<longrightarrow> \<not> b"
    using kext_load_wire [of le p d l] Cons.prems by auto
  obtain bs l' where "load_kexts le d ps l1 = (Inr True, l')" "length bs = length ps"
    "wire l' = wire l1 @ kexts_wire d (host le) ps bs" "writes_succeed (io le) \<longrightarrow> bs = replicate (length ps) False"
    using Cons.IH [of l1] Cons.prems by auto
  with p show ?case
    by (intro exI [of _ "b # bs"]) (simp add: obind_def)
qed

lemma load_symbols_wire:
  assumes sym: "fst (kcs_update_directories (host le) (kernelcache_symbols_path cfg) kcs_empty) = Inr st"
    and st: "kcs_inv st" "kcs_max_ok st" "blob_bound st < 4294967296"
    and malloc: "\<And>l n. snd (io le l (malloc n)) \<noteq> 0"
  shows "\<exists>b l'. pongo_kext_load_symbols le cfg d l = (Inr True, l')
    \<and> wire l' = wire l @ upload_wire d (blob_spec st) ''kernelcache-symbols'' b"
proof -
  obtain ev where ev: "kcs_update_directories (host le) (kernelcache_symbols_path cfg) kcs_empty = (Inr st, ev)"
    using sym by (cases "kcs_update_directories (host le) (kernelcache_symbols_path cfg) kcs_empty") auto
  let ?c = "malloc (unat (blob_size st))"
  let ?l = "(?c, io le (log_host ev l) ?c) # log_host ev l"
  let ?p = "snd (io le (log_host ev l) ?c)"
  obtain data sz where g: "kernelcache_symbol_table_generate (Some (fresh le ?l)) st = Some (Inr (data, sz))"
    and "unat sz = length (blob_spec st)" "holds data 0 (blob_spec st)"
    using blob_generate_spec [OF st, of "fresh le ?l"] by (auto simp: wt_def)
  then have data: "rslice data 0 (unat sz) = blob_spec st"
    by (simp add: holds_def)
  let ?k = "\<lambda>_ l. (Inr True, perform (io le) (usleep (200 * 1000)) (perform (io le) (free ?p) l))"
  obtain b r l' where "pongo_kext_load_symbols le cfg d l = ?k r l'"
    "wire l' = wire ?l @ upload_wire d (blob_spec st) ''kernelcache-symbols'' b"
    using upload_spec [of "''kernelcache-symbols''" "io le" d ?l "blob_spec st" ?k] malloc
    by (auto simp: pongo_kext_load_symbols_def ev do_call_def Let_def g data)
  then show ?thesis by (auto simp: wire_perform)
qed

text \<open>The whole sequence: module, table, extensions, boot.\<close>

definition load_wire :: "loader_env \<Rightarrow> loader_config \<Rightarrow> pongo_usb_device \<Rightarrow> kcs_state \<Rightarrow> bool \<Rightarrow> bool \<Rightarrow> bool list \<Rightarrow> io_call list" where
  "load_wire le cfg d st b1 b2 bs =
     [command_request d ''xfb'']
     @ upload_wire d (file_bytes (host le) (pongo_kextload_path cfg)) ''modload'' b1
     @ upload_wire d (blob_spec st) ''kernelcache-symbols'' b2
     @ kexts_wire d (host le) (kext_path cfg) bs
     @ [command_request d ''bootx'']"

lemma instance_load_wire:
  assumes "fst (map_file (host le) (pongo_kextload_path cfg)) \<noteq> None"
    and "\<And>p. p \<in> set (kext_path cfg) \<Longrightarrow> fst (map_file (host le) p) \<noteq> None"
    and "fst (kcs_update_directories (host le) (kernelcache_symbols_path cfg) kcs_empty) = Inr st"
    and "kcs_inv st" "kcs_max_ok st" "blob_bound st < 4294967296"
    and "\<And>l n. snd (io le l (malloc n)) \<noteq> 0"
  shows "\<exists>b1 b2 bs l'. pongo_instance_load_kext le cfg i l = (Inr True, l') \<and> length bs = length (kext_path cfg)
    \<and> wire l' = wire l @ load_wire le cfg (inst_device i) st b1 b2 bs"
proof -
  let ?d = "inst_device i"
  obtain b1 l1 where l1: "pongo_kext_load_init le cfg ?d l = (Inr True, l1)"
    "wire l1 = wire l @ command_request ?d ''xfb''
        # upload_wire ?d (file_bytes (host le) (pongo_kextload_path cfg)) ''modload'' b1"
    using load_init_wire [OF assms(1)] by blast
  obtain b2 l2 where l2: "pongo_kext_load_symbols le cfg ?d l1 = (Inr True, l2)"
    "wire l2 = wire l1 @ upload_wire ?d (blob_spec st) ''kernelcache-symbols'' b2"
    using load_symbols_wire [OF assms(3-7)] by blast
  obtain bs l3 where l3: "load_kexts le ?d (kext_path cfg) l2 = (Inr True, l3)" "length bs = length (kext_path cfg)"
    "wire l3 = wire l2 @ kexts_wire ?d (host le) (kext_path cfg) bs"
    using load_kexts_wire [OF assms(2)] by blast
  obtain r a where boot: "pongo_usb_send_command (io le) ?d (pongo_line ''bootx'') 0 l3
      = (Inr r, (command_request ?d ''bootx'', a) # l3)"
    using send_line [of "''bootx''" "io le" ?d l3] by auto
  show ?thesis
    using l1 l2 l3 boot
    by (intro exI [of _ b1] exI [of _ b2] exI [of _ bs] exI [of _ "(command_request ?d ''bootx'', a) # l3"])
       (simp add: pongo_instance_load_kext_def pongo_kext_boot_xnu_def obind_def usb_def load_wire_def command_request_def)
qed

text \<open>A file that does not map ends the loading before the boot command.\<close>

lemma load_symbols_sends:
  assumes "pongo_kext_load_symbols le cfg d l = (Inr ok, l')"
  shows "\<exists>w. wire l' = wire l @ w \<and> (w = [] \<or> (\<exists>data b. w = upload_wire d data ''kernelcache-symbols'' b))"
proof -
  obtain st ev where ev: "kcs_update_directories (host le) (kernelcache_symbols_path cfg) kcs_empty = (Inr st, ev)"
    using assms by (auto simp: pongo_kext_load_symbols_def split: prod.splits sum.splits)
  let ?c = "malloc (unat (blob_size st))"
  let ?l = "(?c, io le (log_host ev l) ?c) # log_host ev l"
  let ?p = "snd (io le (log_host ev l) ?c)"
  let ?k = "\<lambda>_ l. (Inr True, perform (io le) (usleep (200 * 1000)) (perform (io le) (free ?p) l))"
  show ?thesis
  proof (cases "?p = 0")
    case True
    then show ?thesis
      using assms table_of_null [of st] by (simp add: pongo_kext_load_symbols_def ev do_call_def Let_def)
  next
    case False
    then obtain data sz where "kernelcache_symbol_table_generate (Some (fresh le ?l)) st = Some (Inr (data, sz))"
      using assms by (auto simp: pongo_kext_load_symbols_def ev do_call_def Let_def split: option.splits sum.splits)
    then obtain b r l1 where "pongo_kext_load_symbols le cfg d l = ?k r l1"
      "wire l1 = wire ?l @ upload_wire d (rslice data 0 (unat sz)) ''kernelcache-symbols'' b"
      using upload_spec [of "''kernelcache-symbols''" "io le" d ?l "rslice data 0 (unat sz)" ?k] False
      by (auto simp: pongo_kext_load_symbols_def ev do_call_def Let_def)
    with assms have "wire l' = wire l @ upload_wire d (rslice data 0 (unat sz)) ''kernelcache-symbols'' b"
      by (auto simp: wire_perform)
    then show ?thesis by blast
  qed
qed

lemma load_kexts_stops:
  assumes "p \<in> set ps" and "fst (map_file (host le) p) = None"
  shows "\<exists>l' qs bs. load_kexts le d ps l = (Inr False, l') \<and> wire l' = wire l @ kexts_wire d (host le) qs bs"
  using assms(1)
proof (induction ps arbitrary: l)
  case (Cons q qs)
  show ?case
  proof (cases "fst (map_file (host le) q)")
    case None
    obtain l' where "load_kexts le d (q # qs) l = (Inr False, l')" "wire l' = wire l"
      using None by (cases "map_file (host le) q") (simp add: pongo_kext_load_def obind_def)
    then show ?thesis
      by (intro exI [of _ l'] exI [of _ "[]"]) simp
  next
    case (Some m)
    then obtain b l1 where l1: "pongo_kext_load le d q l = (Inr True, l1)"
      "wire l1 = wire l @ upload_wire d (file_bytes (host le) q) ''kextload'' b"
      using kext_load_wire [of le q d l] by auto
    have "p \<in> set qs"
      using Cons.prems Some assms(2) by auto
    then obtain l' qs' bs where "load_kexts le d qs l1 = (Inr False, l')"
      "wire l' = wire l1 @ kexts_wire d (host le) qs' bs"
      using Cons.IH by blast
    with l1 show ?thesis
      by (intro exI [of _ l'] exI [of _ "q # qs'"] exI [of _ "b # bs"]) (simp add: obind_def)
  qed
qed simp

lemma command_request_eq_iff: "command_request d s = command_request d t \<longleftrightarrow> s = t"
  by (auto simp: command_request_def control_request_def pongo_line_def bytes_of_eq_iff)

lemma boot_not_in_uploads:
  "s \<noteq> ''bootx'' \<Longrightarrow> command_request d ''bootx'' \<notin> set (upload_wire d data s b)"
  "command_request d ''bootx'' \<notin> set (kexts_wire d os ps bs)"
proof -
  show u: "s \<noteq> ''bootx'' \<Longrightarrow> command_request d ''bootx'' \<notin> set (upload_wire d data s b)" for d data s b
    by (simp add: upload_wire_def command_request_eq_iff)
       (simp add: command_request_def control_request_def)
  show "command_request d ''bootx'' \<notin> set (kexts_wire d os ps bs)"
    by (induction d os ps bs rule: kexts_wire.induct) (simp_all add: u)
qed

lemma calls_wire: "wire_call c \<Longrightarrow> calls c l = count_list (wire l) c"
  by (induction l) auto

lemma missing_kext_stops:
  assumes "fst (map_file (host le) (pongo_kextload_path cfg)) \<noteq> None"
    and "p \<in> set (kext_path cfg)" "fst (map_file (host le) p) = None"
    and run: "pongo_instance_load_kext le cfg i l = (Inr ok, l')"
  shows "\<not> ok \<and> calls (command_request (inst_device i) ''bootx'') l' = calls (command_request (inst_device i) ''bootx'') l"
proof -
  let ?d = "inst_device i"
  let ?boot = "command_request ?d ''bootx''"
  obtain b1 l1 where l1: "pongo_kext_load_init le cfg ?d l = (Inr True, l1)"
    "wire l1 = wire l @ command_request ?d ''xfb''
        # upload_wire ?d (file_bytes (host le) (pongo_kextload_path cfg)) ''modload'' b1"
    using load_init_wire [OF assms(1)] by blast
  have xfb: "command_request ?d ''xfb'' \<noteq> ?boot"
    by (simp add: command_request_eq_iff)
  have n1: "count_list (wire l1) ?boot = count_list (wire l) ?boot"
    using l1(2) boot_not_in_uploads(1) xfb by (simp add: count_list_append count_list_0_iff)
  obtain ok2 l2 where l2: "pongo_kext_load_symbols le cfg ?d l1 = (Inr ok2, l2)"
    using run l1(1) by (auto simp: pongo_instance_load_kext_def obind_def split: prod.splits sum.splits)
  have n2: "count_list (wire l2) ?boot = count_list (wire l1) ?boot"
    using load_symbols_sends [OF l2] boot_not_in_uploads(1) by (auto simp: count_list_append count_list_0_iff)
  obtain l3 qs bs where l3: "load_kexts le ?d (kext_path cfg) l2 = (Inr False, l3)"
    "wire l3 = wire l2 @ kexts_wire ?d (host le) qs bs"
    using load_kexts_stops [OF assms(2,3)] by blast
  have n3: "count_list (wire l3) ?boot = count_list (wire l2) ?boot"
    using l3(2) boot_not_in_uploads(2) by (simp add: count_list_append count_list_0_iff)
  have "\<not> ok \<and> (l' = l2 \<or> l' = l3)"
    using run l1(1) l2 l3(1) by (auto simp: pongo_instance_load_kext_def obind_def split: if_splits)
  moreover have "wire_call ?boot" by (simp add: command_request_def)
  ultimately show ?thesis
    using n1 n2 n3 by (auto simp: calls_wire)
qed


lemma missing_kext_run:
  assumes "fst (map_file (host le) (pongo_kextload_path cfg)) \<noteq> None"
    and "p \<in> set (kext_path cfg)" "fst (map_file (host le) p) = None"
    and "fst (kcs_update_directories (host le) (kernelcache_symbols_path cfg) kcs_empty) = Inr st"
    and "kcs_inv st" "kcs_max_ok st" "blob_bound st < 4294967296"
    and "\<And>l n. snd (io le l (malloc n)) \<noteq> 0"
  shows "\<exists>l'. pongo_instance_load_kext le cfg i l = (Inr False, l')"
proof -
  obtain l1 where l1: "pongo_kext_load_init le cfg (inst_device i) l = (Inr True, l1)"
    using load_init_wire [OF assms(1)] by blast
  obtain l2 where l2: "pongo_kext_load_symbols le cfg (inst_device i) l1 = (Inr True, l2)"
    using load_symbols_wire [OF assms(4-8)] by blast
  obtain l3 where "load_kexts le (inst_device i) (kext_path cfg) l2 = (Inr False, l3)"
    using load_kexts_stops [OF assms(2,3)] by blast
  with l1 l2 show ?thesis by (simp add: pongo_instance_load_kext_def obind_def)
qed

end
