(* ===== verification/Upload_Path.thy ===== *)
theory Upload_Path
  imports Kext_Prefix Kext_Session Loader_Protocol
begin

text \<open>
  From the extension files on the Mac to the kernelcache: which uploads the requests of the loader
  are for the module's \<open>kextload\<close> command, and that what the module then loads is determined by the
  files named on the command line.
\<close>

section \<open>The loading requests\<close>

text \<open>
  The \<open>kextload\<close> commands in what the device sees, each with the bytes written to the pipe since the
  last command, unless they were discarded.
\<close>

fun kextload_requests :: "pongo_usb_device \<Rightarrow> bytes option \<Rightarrow> io_call list \<Rightarrow> bytes option list" where
  "kextload_requests d cur [] = []"
| "kextload_requests d cur (c # w) =
     (case c of
        WritePipe i e bs \<Rightarrow> kextload_requests d (if i = interface d \<and> e = 2 then Some bs else cur) w
      | DeviceRequest dev r \<Rightarrow>
          if c = command_request d ''kextload'' then cur # kextload_requests d None w
          else kextload_requests d (if dev = device d \<and> bRequest r \<in> {1, 2, 3} then None else cur) w
      | _ \<Rightarrow> kextload_requests d cur w)"

lemma requests_command:
  "kextload_requests d cur (command_request d s # w) =
     (if s = ''kextload'' then cur # kextload_requests d None w else kextload_requests d None w)"
proof -
  have "s \<noteq> ''kextload'' \<Longrightarrow> kextload_requests d cur (command_request d s # w) = kextload_requests d None w"
    using command_request_eq_iff [of d s "''kextload''"]
    by (simp add: command_request_def [of d s] control_request_def)
  then show ?thesis by (simp add: command_request_def)
qed

lemma requests_control:
  "r \<in> {1, 2} \<Longrightarrow> kextload_requests d cur (DeviceRequest (device d) (control_request r bs) # w) = kextload_requests d None w"
  by (auto simp: command_request_def control_request_def)

lemma requests_write: "kextload_requests d cur (WritePipe (interface d) 2 bs # w) = kextload_requests d (Some bs) w"
  by simp

declare kextload_requests.simps(2) [simp del]
lemmas requests_simps [simp] = requests_command requests_control requests_write

lemma requests_upload [simp]:
  "kextload_requests d cur (upload_wire d data s b @ w) =
     (if s = ''kextload'' then [if b then None else Some (pipe_bytes data)] else []) @ kextload_requests d None w"
  by (simp add: upload_wire_def)

lemma requests_kexts:
  "length bs = length ps \<Longrightarrow> kextload_requests d None (kexts_wire d os ps bs @ w) =
     map2 (\<lambda>p b. if b then None else Some (pipe_bytes (file_bytes os p))) ps bs @ kextload_requests d None w"
  by (induction d os ps bs rule: kexts_wire.induct) simp_all

section \<open>A successful run of the loader\<close>

lemma load_init_maps:
  "pongo_kext_load_init le cfg d l = (Inr True, l') \<Longrightarrow> fst (map_file (host le) (pongo_kextload_path cfg)) \<noteq> None"
  by (auto simp: pongo_kext_load_init_def split: prod.splits option.splits)

lemma load_kexts_maps:
  "load_kexts le d ps l = (Inr True, l') \<Longrightarrow> p \<in> set ps \<Longrightarrow> fst (map_file (host le) p) \<noteq> None"
  using load_kexts_stops [of p ps le d l] by fastforce

lemma instance_load_success:
  assumes run: "pongo_instance_load_kext le cfg i l = (Inr True, l')"
  obtains b ws bs where
    "wire l' = wire l @ command_request (inst_device i) ''xfb''
       # upload_wire (inst_device i) (file_bytes (host le) (pongo_kextload_path cfg)) ''modload'' b
       @ ws @ kexts_wire (inst_device i) (host le) (kext_path cfg) bs @ [command_request (inst_device i) ''bootx'']"
    "ws = [] \<or> (\<exists>data b. ws = upload_wire (inst_device i) data ''kernelcache-symbols'' b)"
    "length bs = length (kext_path cfg)" "writes_succeed (io le) \<longrightarrow> bs = replicate (length bs) False"
proof -
  let ?d = "inst_device i"
  obtain l1 l2 l3 where steps: "pongo_kext_load_init le cfg ?d l = (Inr True, l1)"
    "pongo_kext_load_symbols le cfg ?d l1 = (Inr True, l2)" "load_kexts le ?d (kext_path cfg) l2 = (Inr True, l3)"
    and last: "obind (pongo_kext_boot_xnu le ?d l3) (\<lambda>_ l. (Inr True, l)) = (Inr True, l')"
    using run by (auto simp: pongo_instance_load_kext_def obind_def split: prod.splits sum.splits if_splits)
  obtain b where l1: "wire l1 = wire l @ command_request ?d ''xfb''
        # upload_wire ?d (file_bytes (host le) (pongo_kextload_path cfg)) ''modload'' b"
    using load_init_wire [OF load_init_maps [OF steps(1)], where d = ?d and l = l] steps(1) by auto
  obtain ws where l2: "wire l2 = wire l1 @ ws" "ws = [] \<or> (\<exists>data b. ws = upload_wire ?d data ''kernelcache-symbols'' b)"
    using load_symbols_sends [OF steps(2)] by blast
  obtain bs where l3: "length bs = length (kext_path cfg)" "wire l3 = wire l2 @ kexts_wire ?d (host le) (kext_path cfg) bs"
    "writes_succeed (io le) \<longrightarrow> bs = replicate (length bs) False"
    using load_kexts_wire [OF load_kexts_maps [OF steps(3)], where d = ?d and l = l2 and ps = "kext_path cfg"] steps(3) by auto
  obtain r a where "pongo_usb_send_command (io le) ?d (pongo_line ''bootx'') 0 l3 = (Inr r, (command_request ?d ''bootx'', a) # l3)"
    using send_line [of "''bootx''" "io le" ?d l3] by auto
  with last have "l' = (command_request ?d ''bootx'', a) # l3"
    by (simp add: pongo_kext_boot_xnu_def obind_def usb_def)
  then have "wire l' = wire l3 @ [command_request ?d ''bootx'']" by (simp add: command_request_def)
  with l1 l2 l3 show thesis by (intro that [of b ws bs]) simp_all
qed

lemma instance_load_requests:
  assumes "pongo_instance_load_kext le cfg i l = (Inr True, l')" and "wire l' = wire l @ w"
  obtains bs where "length bs = length (kext_path cfg)" "writes_succeed (io le) \<longrightarrow> bs = replicate (length bs) False"
    "kextload_requests (inst_device i) None w
       = map2 (\<lambda>p b. if b then None else Some (pipe_bytes (file_bytes (host le) p))) (kext_path cfg) bs"
proof (rule instance_load_success [OF assms(1)])
  fix b ws bs
  assume *: "wire l' = wire l @ command_request (inst_device i) ''xfb''
       # upload_wire (inst_device i) (file_bytes (host le) (pongo_kextload_path cfg)) ''modload'' b
       @ ws @ kexts_wire (inst_device i) (host le) (kext_path cfg) bs @ [command_request (inst_device i) ''bootx'']"
    "ws = [] \<or> (\<exists>data b. ws = upload_wire (inst_device i) data ''kernelcache-symbols'' b)"
    and len: "length bs = length (kext_path cfg)" "writes_succeed (io le) \<longrightarrow> bs = replicate (length bs) False"
  have "kextload_requests d None (ws @ x) = kextload_requests d None x" if "d = inst_device i" for x d
    using *(2) that by auto
  with * assms(2) len
  have "kextload_requests (inst_device i) None w
       = map2 (\<lambda>p b. if b then None else Some (pipe_bytes (file_bytes (host le) p))) (kext_path cfg) bs"
    by (simp add: requests_kexts)
  with len show thesis by (rule that)
qed

section \<open>What the module receives\<close>

text \<open>An upload of the module holds the bytes written for it.\<close>

definition received :: "region \<times> u32 \<Rightarrow> bytes option \<Rightarrow> bool" where
  "received u b \<longleftrightarrow> (\<exists>bs. b = Some bs \<and> holds (fst u) 0 bs \<and> unat (snd u) = length bs)"

text \<open>The upload of a file, with nothing behind it.\<close>

definition uploaded_file :: "host_os \<Rightarrow> string \<Rightarrow> region \<times> u32" where
  "uploaded_file os p = (let bs = pipe_bytes (file_bytes os p) in (region_of bs, word_of_nat (length bs)))"

lemma pipe_bytes_fits: "unat (word_of_nat (length (pipe_bytes bs)) :: u32) = length (pipe_bytes bs)"
  by (simp add: unsigned_of_nat take_bit_nat_eq_self pipe_bytes_def min.strict_coboundedI2)

lemma holds_prefix: "holds f 0 bs \<Longrightarrow> same_prefix (length bs) (region_of bs) f"
  using nth_rslice [of _ "length bs" f 0] by (auto simp: holds_def same_prefix_def)

text \<open>Whether an upload is loaded is decided by the bytes received.\<close>

lemma loadable_prefix:
  assumes look: "total_lookup look" and load: "loadable look (alloc, data, n) x"
    and size: "unat n \<le> rsize data'" and same: "same_prefix (unat n) data data'"
  shows "loadable look (alloc, data', n) x"
proof -
  let ?g = "split_destroyed data (unat (word_at data 16))" and ?f = "split_destroyed data' (unat (word_at data' 16))"
  let ?info = "fst x"
  have len: "unat (ucast n :: u64) = unat n" by simp
  have l: "0x4000 \<le> n" "unat n \<le> rsize data" "kext_accepts look ?g (ucast n) ?info"
    "\<And>dst. dysymtab ?info = Some dst \<Longrightarrow> kext_layout_sane ?g ?info dst" "unat (vm_size ?info) \<le> 0xFFFFC000"
    "map_option fst (alloc (ucast (kext_alloc_size (vm_size ?info)))) = Some (snd x)"
    using load by (simp_all add: loadable_def Let_def split: prod.splits)
  have room: "32 \<le> unat (ucast n :: u64)"
    using l(1) by (simp add: word_le_nat_alt)
  note acc = kext_accepts_prefix [OF look room _ _ _ l(3), where f' = data', unfolded len]
  have f: "kext_accepts look ?f (ucast n) ?info" "same_prefix (unat n) ?g ?f"
    using acc l(2) size same by simp_all
  have "kext_layout_sane ?f ?info dst" if "dysymtab ?info = Some dst" for dst
    by (rule kext_layout_sane_prefix [OF _ l(3) room that l(4) [OF that]]) (use f(2) len in simp)
  with l f(1) size show ?thesis
    by (simp add: loadable_def Let_def split_beta)
qed

lemma loadable_received:
  assumes look: "total_lookup look" and load: "loadable look (alloc, uploaded_file os p) x"
    and got: "received u (Some (pipe_bytes (file_bytes os p)))"
  shows "loadable look (alloc, u) x"
proof -
  let ?bs = "pipe_bytes (file_bytes os p)"
  have data: "holds (fst u) 0 ?bs" and n: "unat (snd u) = length ?bs"
    using got by (simp_all add: received_def)
  then have "uploaded_file os p = (region_of ?bs, snd u)"
    by (simp add: uploaded_file_def Let_def pipe_bytes_fits word_unat_eq_iff)
  then have "loadable look (alloc, fst u, snd u) x"
    using loadable_prefix [OF look, of alloc "region_of ?bs" "snd u" x "fst u"] load data n holds_prefix [OF data]
    by (simp add: holds_def)
  then show ?thesis by simp
qed

definition loadable_files ::
  "(bytes \<Rightarrow> u64 option) \<Rightarrow> host_os \<Rightarrow> static_allocator list \<Rightarrow> string list \<Rightarrow> (kext_load_info \<times> u64) list \<Rightarrow> bool" where
  "loadable_files look os allocs ps xs \<longleftrightarrow>
     length allocs = length ps \<and> list_all2 (loadable look) (zip allocs (map (uploaded_file os) ps)) xs"

lemma loadable_files_received:
  assumes look: "total_lookup look" and files: "loadable_files look os allocs ps xs"
    and bs: "length bs = length ps"
    and got: "list_all2 received us (map2 (\<lambda>p b. if b then None else Some (pipe_bytes (file_bytes os p))) ps bs)"
  shows "list_all2 (loadable look) (zip allocs us) xs" and "length (zip allocs us) = length ps"
proof -
  have len: "length us = length ps" "length allocs = length ps" "length xs = length ps"
    using files got bs by (auto simp: loadable_files_def dest!: list_all2_lengthD)
  then show "length (zip allocs us) = length ps" by simp
  show "list_all2 (loadable look) (zip allocs us) xs"
  proof (rule list_all2_all_nthI)
    fix i assume "i < length (zip allocs us)"
    then have i: "i < length ps" using len by simp
    have "loadable look (allocs ! i, uploaded_file os (ps ! i)) (xs ! i)"
      using files i len by (auto simp: loadable_files_def dest: list_all2_nthD)
    moreover have "received (us ! i) (if bs ! i then None else Some (pipe_bytes (file_bytes os (ps ! i))))"
      using list_all2_nthD [OF got, of i] i len bs by simp
    then have "received (us ! i) (Some (pipe_bytes (file_bytes os (ps ! i))))"
      by (auto simp: received_def split: if_splits)
    ultimately have "loadable look (allocs ! i, us ! i) (xs ! i)" by (rule loadable_received [OF look])
    with i len show "loadable look (zip allocs us ! i) (xs ! i)" by simp
  qed (use len in simp)
qed

end
