(* ===== verification/Kext_Upload.thy ===== *)
theory Kext_Upload
  imports Kext_Samples
begin

text \<open>
  The sample extension as an upload of 16 KB, the least that \<open>command_kextload\<close> takes, on a module
  whose symbol table has the name its external relocation asks for. The parser is run on it step by
  step, for the witness of the command's property.
\<close>

section \<open>A module with an upload\<close>

definition foo_table :: symtab_object where
  "foo_table = (0x1000, region_of (le_bytes 8 (0 :: u64) @ le_bytes 8 (1 :: u64) @ le_bytes 8 (0x1020 :: u64)
     @ le_bytes 8 (0x1028 :: u64) @ le_bytes 8 (0x1030 :: u64) @ le_bytes 8 (0xFFFFFFF007008000 :: u64)
     @ bytes_of ''_foo'' @ [0]))"

definition kext_upload :: region where
  "kext_upload = sample_kext\<lparr>rsize := 16384\<rparr>"

definition uploaded_pongo :: pongo_state where
  "uploaded_pongo = \<lparr>mh_execute_header = sample_kernelcache, loader_xfer_recv_data = kext_upload,
     loader_xfer_recv_count = 16384, kernelcache_symbol_table = [foo_table],
     kernelcache_uuid = replicate 16 0, kernelcache_uuid_found = True, heap_live = [0x1000]\<rparr>"

definition uploaded_info :: kext_load_info where
  "uploaded_info = sample_info\<lparr>file_size := 16384\<rparr>"

section \<open>The parser on the upload\<close>

text \<open>The fields of the sample that the parser reads.\<close>

lemma upload_words:
  "map (word_at sample_kext) [0, 12, 16, 20] = [0xfeedfacf, 0xb, 3, 176]"
  "map (word_at sample_kext) [32, 36] = [0x19, 72]"
  "map (dword_at sample_kext) [56, 64, 72, 80] = [0, 448, 0, 224]"
  "map (word_at sample_kext) [104, 108, 112, 116, 120] = [2, 24, 224, 2, 272]"
  "map (word_at sample_kext) [128, 132, 192, 196, 200, 204] = [0xb, 80, 256, 1, 264, 1]"
  "map (word_at sample_kext) [224, 240, 256, 260, 264, 268] = [1, 12, 208, 0x0E000001, 216, 0x06000001]"
  "map (dword_at sample_kext) [232, 248] = [224, 0]"
  "map (rbyte sample_kext) [228, 244] = [0x0e, 1]"
  "holds sample_kext 273 (bytes_of ''_kmod_info'' @ [0])" "holds sample_kext 284 (bytes_of ''_foo'' @ [0])"
  by code_simp+

lemma upload_reads:
  "rsize kext_upload = 16384" "rslice kext_upload = rslice sample_kext" "rbyte kext_upload = rbyte sample_kext"
  "word_at kext_upload = word_at sample_kext" "dword_at kext_upload = dword_at sample_kext"
  by (simp_all add: kext_upload_def rslice_def fun_eq_iff word_at_def dword_at_def)

lemmas upload_eval = upload_reads rd_field rd8_def upload_words(1-8) [simplified]

text \<open>The states of the walk over the three load commands.\<close>

definition walk_at :: "u64 \<Rightarrow> u64 \<Rightarrow> bool \<Rightarrow> nat option \<Rightarrow> nat option \<Rightarrow> nat \<Rightarrow> kext_walk" where
  "walk_at base vmaddr found st dst lc = \<lparr>w_file = kext_upload,
     w_info = kext_load_info_zero\<lparr>file_size := 16384, vm_base := base, symtab := st, dysymtab := dst\<rparr>,
     w_vmaddr = vmaddr, w_found = found, w_lc = lc\<rparr>"

lemma upload_commands:
  "kext_parse_command 208 0 (walk_at 0 0 False None None 32) = Some (Inr (walk_at 0 448 True None None 104))"
  "kext_parse_command 208 1 (walk_at 0 448 True None None 104) = Some (Inr (walk_at 0 448 True (Some 104) None 128))"
  "kext_parse_command 208 2 (walk_at 0 448 True (Some 104) None 128) = Some (Inr (walk_at 0 448 True (Some 104) (Some 128) 208))"
  by (simp_all add: kext_parse_command_def kext_when_def kext_destroy_split_info_def kext_next_command_def
      kext_parse_segment_def kext_parse_symtab_def kext_parse_dysymtab_def walk_at_def upload_eval kext_load_info_zero_def Let_def)

lemma upload_walk:
  "kext_parse_commands kext_upload 16384 = Some (Inr (walk_at 0 448 True (Some 104) (Some 128) 208))"
proof -
  let ?ss = "[walk_at 0 0 False None None 32, walk_at 0 448 True None None 104,
    walk_at 0 448 True (Some 104) None 128, walk_at 0 448 True (Some 104) (Some 128) 208]"
  have "loop_u32 kext_ncmds (kext_parse_command 208) 0 (?ss ! 0) = Some (Inr (last ?ss))"
  proof (rule loop_u32_run [where n = 3])
    show "kext_ncmds w = Some 3" if "w \<in> set ?ss" for w
      using that by (auto simp: kext_ncmds_def walk_at_def upload_eval)
    show "kext_parse_command 208 j (?ss ! j) = Some (Inr (?ss ! Suc j))" if "j < unat (3 :: u32)" for j
    proof -
      have "j = 0 \<or> j = 1 \<or> j = 2" using that by auto
      then show ?thesis using upload_commands by (elim disjE) simp_all
    qed
  qed simp
  then show ?thesis
    by (simp add: kext_parse_commands_def upload_eval walk_at_def kext_load_info_zero_def)
qed

lemma upload_names:
  "cstr_at kext_upload 273 = Some (bytes_of ''_kmod_info'')" "cstr_at kext_upload 284 = Some (bytes_of ''_foo'')"
proof -
  have "holds kext_upload 273 (bytes_of ''_kmod_info'' @ [0])" "holds kext_upload 284 (bytes_of ''_foo'' @ [0])"
    using upload_words(9,10) by (auto simp: holds_def upload_reads)
  from this [THEN cstr_at_string, of 0] show
    "cstr_at kext_upload 273 = Some (bytes_of ''_kmod_info'')" "cstr_at kext_upload 284 = Some (bytes_of ''_foo'')"
    by simp_all
qed

lemma upload_kmod_info:
  "c_streq kext_upload 273 kmod_info_name = Some True" "c_streq kext_upload 284 kmod_info_name = Some False"
proof -
  have z: "0 \<notin> set kmod_info_name" and "(bytes_of ''_foo'' = kmod_info_name) = False"
    "(bytes_of ''_kmod_info'' = kmod_info_name) = True"
    by (simp_all add: kmod_info_name_def)
  then show "c_streq kext_upload 273 kmod_info_name = Some True" "c_streq kext_upload 284 kmod_info_name = Some False"
    by (simp_all only: c_streq_cstr [OF upload_names(1) z] c_streq_cstr [OF upload_names(2) z])
qed

definition info_at :: "u64 \<Rightarrow> kext_load_info" where
  "info_at kmod = kext_load_info_zero\<lparr>file_size := 16384, vm_size := 448, symtab := Some 104, dysymtab := Some 128,
     nlist := 224, kmod_info := kmod\<rparr>"

lemma upload_symbols:
  "kext_parse_symbol kext_upload 104 448 0 (info_at 0) = Some (Inr (info_at 224))"
  "kext_parse_symbol kext_upload 104 448 1 (info_at 224) = Some (Inr (info_at 224))"
  by (simp_all add: kext_parse_symbol_def nlist_stroff_def info_at_def upload_eval strnlen_cstr [OF upload_names(1)] strnlen_cstr [OF upload_names(2)]
      upload_kmod_info kext_load_info_zero_def)


lemma foo_table_rep: "table_rep foo_table [(bytes_of ''_foo'', 0xFFFFFFF007008000)]"
proof -
  have "rd64 (snd foo_table) 8 = Some 1" "rd64 (snd foo_table) 16 = Some 0x1020" "rd64 (snd foo_table) 24 = Some 0x1028"
    "rd64 (snd foo_table) 32 = Some 0x1030" "rd64 (snd foo_table) 40 = Some 0xFFFFFFF007008000"
    "cstr_at (snd foo_table) 48 = Some (bytes_of ''_foo'')" "fst foo_table = 0x1000"
    by code_simp+
  then show ?thesis by (auto simp: table_rep_def intro!: exI [of _ 48])
qed

lemma uploaded_lookup: "kernelcache_symbol_table_lookup uploaded_pongo (bytes_of ''_foo'') = Some 0xFFFFFFF007008000"
proof -
  have "chain_rep (kernelcache_symbol_table uploaded_pongo) [[(bytes_of ''_foo'', 0xFFFFFFF007008000)]]"
    using foo_table_rep by (simp add: chain_rep_def uploaded_pongo_def)
  from symbol_table_lookup_spec [OF this, of "bytes_of ''_foo''"] show ?thesis
    by (simp add: kernelcache_symbol_table_lookup_def)
qed

definition linked_info :: "nat \<Rightarrow> nat \<Rightarrow> kext_load_info" where
  "linked_info er lr = (info_at 224)\<lparr>extrel := er, locrel := lr\<rparr>"

lemma upload_relocations:
  "kext_parse_extrel (kernelcache_symbol_table_lookup uploaded_pongo) kext_upload 104 (linked_info 256 0) 0 False
     = Some (Inr False)"
  "kext_parse_locrel kext_upload (linked_info 256 264) 0 () = Some (Inr ())"
proof -
  have "\<not> (2 :: u32) \<le> 1" by (simp add: word_le_nat_alt)
  then show "kext_parse_extrel (kernelcache_symbol_table_lookup uploaded_pongo) kext_upload 104 (linked_info 256 0) 0 False
     = Some (Inr False)" "kext_parse_locrel kext_upload (linked_info 256 264) 0 () = Some (Inr ())"
    using uploaded_lookup
    by (simp_all add: kext_parse_extrel_def kext_parse_locrel_def nlist_stroff_def linked_info_def info_at_def upload_eval
        upload_names r_extern_def r_length_def r_symbolnum_def reloc_bad_address_def reloc_vm_addr_def
        kext_load_info_zero_def Let_def)
qed

lemma uploaded_info_eq: "linked_info 256 264 = uploaded_info"
  by (simp add: linked_info_def info_at_def uploaded_info_def sample_info_def kext_load_info_zero_def)

lemma upload_parse:
  "kext_parse (kernelcache_symbol_table_lookup uploaded_pongo) kext_upload 16384 = Some (Inr (kext_upload, uploaded_info))"
proof -
  let ?look = "kernelcache_symbol_table_lookup uploaded_pongo"
  let ?symbols = "[info_at 0, info_at 224, info_at 224]"
  have "loop_u32 (\<lambda>_. rd32 kext_upload 116) (kext_parse_symbol kext_upload 104 448) 0 (?symbols ! 0)
      = Some (Inr (last ?symbols))"
  proof (rule loop_u32_run [where n = 2])
    show "kext_parse_symbol kext_upload 104 448 j (?symbols ! j) = Some (Inr (?symbols ! Suc j))" if "j < unat (2 :: u32)" for j
    proof -
      have "j = 0 \<or> j = 1" using that by auto
      then show ?thesis using upload_symbols by (elim disjE) simp_all
    qed
  qed (simp_all add: upload_eval)
  moreover have "(info_at 0)\<lparr>nlist := 224\<rparr> = info_at 0" "kmod_info (info_at 224) = 224"
    by (simp_all add: info_at_def kext_load_info_zero_def)
  ultimately have symbols: "kext_parse_symbols kext_upload 104 448 ((info_at 0)\<lparr>nlist := 0\<rparr>) = Some (Inr (info_at 224))"
    by (simp add: kext_parse_symbols_def upload_eval)
  have start: "(info_at 0)\<lparr>nlist := 0\<rparr> = kext_load_info_zero\<lparr>file_size := 16384, vm_size := 448, vm_base := 0,
      symtab := Some 104, dysymtab := Some 128\<rparr>"
    by (simp add: info_at_def kext_load_info_zero_def)
  have "loop_u32 (\<lambda>_. rd32 kext_upload 196) (kext_parse_extrel ?look kext_upload 104 (linked_info 256 0)) 0 ([False, False] ! 0)
      = Some (Inr (last [False, False]))"
    by (rule loop_u32_run [where n = 1]) (use upload_relocations in \<open>simp_all add: upload_eval\<close>)
  moreover have "loop_u32 (\<lambda>_. rd32 kext_upload 204) (kext_parse_locrel kext_upload (linked_info 256 264)) 0 ([(), ()] ! 0)
      = Some (Inr (last [(), ()]))"
    by (rule loop_u32_run [where n = 1]) (use upload_relocations in \<open>simp_all add: upload_eval\<close>)
  moreover have "(info_at 224)\<lparr>extrel := 256\<rparr> = linked_info 256 0" "(linked_info 256 0)\<lparr>locrel := 264\<rparr> = linked_info 256 264"
    by (simp_all add: linked_info_def info_at_def kext_load_info_zero_def)
  ultimately have "kext_parse_relocations ?look kext_upload 104 128 (info_at 224) = Some (Inr uploaded_info)"
    by (simp add: kext_parse_relocations_def upload_eval uploaded_info_eq)
  with symbols [unfolded start] show ?thesis
    by (simp add: kext_parse_def upload_walk walk_at_def Let_def kext_load_info_zero_def)
qed

section \<open>The conditions of the command\<close>

lemma uploaded_pongo_ok: "pongo_ok uploaded_pongo"
proof -
  have "rsize sample_kernelcache = 3000" by (simp add: sample_kernelcache_def Let_def)
  moreover have "(le_word (rslice sample_kernelcache 20 4) :: u32) = 0" by code_simp
  ultimately have "kernel_ok sample_kernelcache" by (simp add: kernel_ok_def)
  moreover have "chain_rep [foo_table] [[(bytes_of ''_foo'', 0xFFFFFFF007008000)]]" "fst foo_table = 0x1000"
    using foo_table_rep by (simp_all add: chain_rep_def foo_table_def)
  ultimately show ?thesis by (auto simp: pongo_ok_def uploaded_pongo_def upload_reads)
qed

lemma upload_sane: "kext_layout_sane kext_upload uploaded_info 128"
  by (simp add: kext_layout_sane_def kext_end_def entry_offset_def reloc_offset_def uploaded_info_def sample_info_def
      upload_eval kext_load_info_zero_def)

definition sample_env :: kextload_env where
  "sample_env = \<lparr>e_mh = 0, e_slide = 0, e_alloc_static = (\<lambda>_. Some (0x5000, \<lambda>_. 0)), e_get_section = (\<lambda>_. Some 0)\<rparr>"

lemma sample_prelink_room: "prelink_room sample_env sample_kernelcache"
proof -
  have "rsize sample_kernelcache = 3000" by (simp add: sample_kernelcache_def Let_def)
  with sample_kernelcache_section show ?thesis
    unfolding prelink_room_def sample_env_def by (intro exI [of _ 0] exI [of _ 80] exI [of _ "bytes_of ''<array>''"]) auto
qed

end
