(* ===== verification/Accept_Props.thy ===== *)
theory Accept_Props
  imports Kext_Upload Kext_Session Kext_Prefix
begin

text \<open>
  The properties that say what the module takes: exactly which files the parser accepts, that the
  upload alone decides it, and that uploads of such files are loaded, one after the other.
\<close>

text \<open>C3: \<open>kext_parse\<close> depends on nothing but the upload: for two receive buffers that agree in its bytes,
  whatever they hold behind them and however large they are, it reports the same error or accepts
  both with the same load information, and the files it then leaves, refused or accepted, agree in
  these bytes.\<close>

theorem kext_parse_reads_upload_only:
  assumes "total_lookup lookup" and "32 \<le> unat fsize" and "unat fsize \<le> rsize f" and "unat fsize \<le> rsize f'"
    and "\<forall>i < unat fsize. rbyte f' i = rbyte f i"
  shows "((\<exists>g. kext_parse lookup f fsize = Some (Inl (e, g))) \<longleftrightarrow> (\<exists>g. kext_parse lookup f' fsize = Some (Inl (e, g))))
    \<and> ((\<exists>g. kext_parse lookup f fsize = Some (Inr (g, info))) \<longleftrightarrow> (\<exists>g. kext_parse lookup f' fsize = Some (Inr (g, info))))
    \<and> (kext_parse lookup f fsize = Some (Inr (g, info)) \<longrightarrow> kext_parse lookup f' fsize = Some (Inr (g', info'))
         \<longrightarrow> (\<forall>i < unat fsize. rbyte g' i = rbyte g i))
    \<and> (kext_parse lookup f fsize = Some (Inl (e, g)) \<longrightarrow> kext_parse lookup f' fsize = Some (Inl (e', g'))
         \<longrightarrow> (\<forall>i < unat fsize. rbyte g' i = rbyte g i))"
  by (rule same_verdictD [OF kext_parse_prefix [OF assms(1-4)]]) (use assms(5) in \<open>simp add: same_prefix_def\<close>)

text \<open>The sample with rubbish behind it.\<close>

definition sample_buffer :: region where
  "sample_buffer = \<lparr>rsize = 4096, rbyte = (\<lambda>i. if i < 289 then rbyte sample_kext i else 0xFF)\<rparr>"

theorem kext_parse_reads_upload_only_witness:
  "\<exists>g. kext_parse sample_lookup sample_buffer 289 = Some (Inr (g, sample_info))"
proof -
  have size: "rsize sample_kext = 289" by code_simp
  obtain g where run: "kext_parse sample_lookup sample_kext 289 = Some (Inr (g, sample_info))"
    by (rule sample_parsed)
  have "unat (289 :: u64) \<le> rsize sample_buffer" "\<forall>i < unat (289 :: u64). rbyte sample_buffer i = rbyte sample_kext i"
    by (simp_all add: sample_buffer_def)
  from kext_parse_reads_upload_only [OF sample_lookup_total _ _ this, of Missing_symbols sample_info g g sample_info Missing_symbols] size run
  show ?thesis by auto
qed

text \<open>C2: \<open>kext_parse\<close> accepts a file exactly when, with its \<open>LC_SEGMENT_SPLIT_INFO\<close> commands destroyed, it is
  a 64-bit extension whose load commands lie in the header and fit, with contiguous segments, one
  symbol and one dynamic symbol table, names that end in the file, one \<open>_kmod_info\<close> in the image and
  relocations that can be applied; it then returns that file and the load information the file
  determines, and nothing else.\<close>

theorem kext_parse_accepts_exactly:
  assumes "total_lookup lookup" and "32 \<le> unat fsize" and "unat fsize \<le> rsize file"
  shows "kext_parse lookup file fsize = Some (Inr (f, info)) \<longleftrightarrow>
    f = split_destroyed file (unat (word_at file 16))
    \<and> kext_accepts lookup (split_destroyed file (unat (word_at file 16))) fsize info"
  by (rule kext_parse_exact) (use assms in \<open>simp_all add: total_lookup_def\<close>)

theorem kext_parse_accepts_exactly_witness:
  "kext_accepts sample_lookup (split_destroyed sample_kext 3) 289 sample_info
    \<and> \<not> kext_accepts sample_lookup (split_destroyed sample_kext 3) 289 (sample_info\<lparr>kmod_info := 0\<rparr>)"
proof -
  have s: "rsize sample_kext = 289" "unat (word_at sample_kext 16) = 3" by code_simp+
  note exact = kext_parse_accepts_exactly [OF sample_lookup_total, of 289 sample_kext, unfolded s]
  obtain f where run: "kext_parse sample_lookup sample_kext 289 = Some (Inr (f, sample_info))"
    by (rule sample_parsed)
  have "sample_info \<noteq> sample_info\<lparr>kmod_info := 0\<rparr>"
    by (simp add: sample_info_def kext_load_info_zero_def)
  with run exact [of f sample_info] exact [of f "sample_info\<lparr>kmod_info := 0\<rparr>"] show ?thesis by auto
qed

text \<open>C18: an upload of an acceptable extension that starts at address 0 and patches nothing in its load
  commands is loaded: with room in the kernelcache and a block from \<open>alloc_static\<close>, the command
  never reports an error, and the extension's dictionary is in the kernelcache afterwards.\<close>

theorem acceptable_upload_is_loaded:
  assumes "pongo_ok ps" and "prelink_room env (mh_execute_header ps)"
    and "0x4000 \<le> loader_xfer_recv_count ps"
    and "kext_accepts (kernelcache_symbol_table_lookup ps)
      (split_destroyed (loader_xfer_recv_data ps) (unat (word_at (loader_xfer_recv_data ps) 16)))
      (ucast (loader_xfer_recv_count ps)) info"
    and "\<And>dst. dysymtab info = Some dst \<Longrightarrow>
      kext_layout_sane (split_destroyed (loader_xfer_recv_data ps) (unat (word_at (loader_xfer_recv_data ps) 16))) info dst"
    and "unat (vm_size info) \<le> 0xFFFFC000"
    and "e_alloc_static env (ucast (kext_alloc_size (vm_size info))) = Some (a, junk)"
  shows "\<exists>k ps'. command_kextload env ps kid
      = Some (Kext_loaded k (info\<lparr>kext := a, kmod_info := a + kmod_info info\<rparr>) True, ps', kid + 1)
    \<and> prelink_grown env (mh_execute_header ps) (info\<lparr>kext := a, kmod_info := a + kmod_info info\<rparr>) kid (mh_execute_header ps')
    \<and> loader_xfer_recv_count ps' = 0"
proof -
  have "loadable (kernelcache_symbol_table_lookup ps)
      (e_alloc_static env, loader_xfer_recv_data ps, loader_xfer_recv_count ps) (info, a)"
    using assms(1,3-7) by (simp add: loadable_def Let_def pongo_ok_def)
  then show ?thesis
  proof (rule loadable_is_loaded [OF assms(1,2), of _ kid])
    fix k f kernel
    assume run: "command_kextload env ps kid = Some (Kext_loaded k (loaded_info (info, a)) True,
        ps\<lparr>loader_xfer_recv_count := 0, loader_xfer_recv_data := f, mh_execute_header := kernel\<rparr>, kid + 1)"
      and grown: "prelink_grown env (mh_execute_header ps) (loaded_info (info, a)) kid kernel"
    show ?thesis
      by (intro exI conjI, rule run [unfolded loaded_info_def fst_conv snd_conv])
        (use grown in \<open>simp_all add: loaded_info_def\<close>)
  qed
qed

text \<open>The sample upload is acceptable to its module.\<close>

lemma upload_accepted:
  "split_destroyed kext_upload (unat (word_at kext_upload 16)) = kext_upload"
  "kext_accepts (kernelcache_symbol_table_lookup uploaded_pongo) kext_upload 0x4000 uploaded_info"
proof -
  have total: "kernelcache_symbol_table_lookup uploaded_pongo s \<noteq> None" if "0 \<notin> set s" for s
    using kernelcache.resolve_Some [OF uploaded_pongo_ok that] by auto
  have "kext_upload = split_destroyed kext_upload (unat (word_at kext_upload 16))
      \<and> kext_accepts (kernelcache_symbol_table_lookup uploaded_pongo)
          (split_destroyed kext_upload (unat (word_at kext_upload 16))) 0x4000 uploaded_info"
    by (rule iffD1 [OF kext_parse_exact upload_parse]) (use total in \<open>auto simp: upload_reads\<close>)
  then show "split_destroyed kext_upload (unat (word_at kext_upload 16)) = kext_upload"
    "kext_accepts (kernelcache_symbol_table_lookup uploaded_pongo) kext_upload 0x4000 uploaded_info"
    by auto
qed

lemma uploaded_fields: "dysymtab uploaded_info = Some 128" "kmod_info uploaded_info = 0xE0" "vm_size uploaded_info = 448"
  by (simp_all add: uploaded_info_def sample_info_def kext_load_info_zero_def)

theorem acceptable_upload_is_loaded_witness:
  "\<exists>k ps'. command_kextload sample_env uploaded_pongo 7
     = Some (Kext_loaded k (uploaded_info\<lparr>kext := 0x5000, kmod_info := 0x50E0\<rparr>) True, ps', 8)"
proof -
  have st: "mh_execute_header uploaded_pongo = sample_kernelcache" "loader_xfer_recv_data uploaded_pongo = kext_upload"
    "loader_xfer_recv_count uploaded_pongo = 0x4000" "ucast (0x4000 :: u32) = (0x4000 :: u64)"
    by (simp_all add: uploaded_pongo_def)
  have alloc: "e_alloc_static sample_env n = Some (0x5000, \<lambda>_. 0)" for n
    by (simp add: sample_env_def)
  show ?thesis
    using acceptable_upload_is_loaded [of uploaded_pongo sample_env uploaded_info "0x5000" "\<lambda>_. 0" 7,
        unfolded st upload_accepted(1), OF uploaded_pongo_ok sample_prelink_room _ upload_accepted(2)] upload_sane
    by (auto simp: uploaded_fields alloc)
qed

section \<open>Several extensions\<close>

text \<open>C19: a sequence of acceptable uploads, each followed by the \<open>kextload\<close> command, is loaded completely
  when the zeros behind the section have room for the dictionaries: every command reports a loaded
  extension, the identifiers are consecutive, and the section holds the old text and then the
  dictionaries in the order of the uploads, in the form the next command needs.\<close>

theorem session_loads_all:
  assumes "pongo_ok ps" and "list_all2 (loadable (kernelcache_symbol_table_lookup ps)) us xs"
    and "prelink_slack (e_mh env) (e_slide env) (mh_execute_header ps) sec b old z (length us)"
    and "\<And>r. e_get_section env r = Some sec" and "32 \<le> sec" and "32 \<le> b"
  shows "\<exists>rs ps'. kextload_session env us (ps, kid) = Some (rs, ps', kid + word_of_nat (length us))
    \<and> list_all2 (\<lambda>res x. \<exists>k. res = Kext_loaded k (loaded_info x) True) rs xs
    \<and> prelink_section (e_mh env) (e_slide env) (mh_execute_header ps') sec b (old @ loaded_dicts (e_mh env) kid xs) z
    \<and> pongo_ok ps'"
  by (rule session_loads [OF assms(2) refl assms(1,3-6)])

text \<open>The section header is at 32, the section at 128, and there is room for two dictionaries.\<close>

definition session_kernel :: region where
  "session_kernel =
     (let bs = replicate 64 0 @ le_bytes 8 (static_base + 128) @ le_bytes 8 (23 :: u64) @ replicate 48 0
            @ bytes_of ''<array>'' @ bytes_of ''</array></dict>'' in
      \<lparr>rsize = 4000, rbyte = (\<lambda>i. if i < length bs then bs ! i else 0)\<rparr>)"

definition session_pongo :: pongo_state where
  "session_pongo = uploaded_pongo\<lparr>mh_execute_header := session_kernel\<rparr>"

definition session_env :: kextload_env where
  "session_env = \<lparr>e_mh = 0, e_slide = 0, e_alloc_static = (\<lambda>_. None), e_get_section = (\<lambda>_. Some 32)\<rparr>"

definition session_uploads :: "(static_allocator \<times> region \<times> u32) list" where
  "session_uploads = [(\<lambda>_. Some (0x5000, \<lambda>_. 0), kext_upload, 0x4000), (\<lambda>_. Some (0x9000, \<lambda>_. 0), kext_upload, 0x4000)]"

lemma session_slack: "prelink_slack 0 0 session_kernel 32 128 (bytes_of ''<array>'') 0 2"
proof -
  have f: "dword_at session_kernel 64 = static_base + 128" "dword_at session_kernel 72 = 23"
    "rslice session_kernel 128 23 = bytes_of ''<array>'' @ bytes_of ''</array></dict>'' @ [0]"
    by code_simp+
  have size: "rsize session_kernel = 4000" and zeros: "150 \<le> i \<Longrightarrow> rbyte session_kernel i = 0" for i
    by (simp_all add: session_kernel_def Let_def)
  have "holds session_kernel 128 (bytes_of ''<array>'' @ bytes_of prelink_tail @ replicate (Suc 0) 0)"
    (is "holds _ _ ?bs")
  proof -
    have "?bs = bytes_of ''<array>'' @ bytes_of ''</array></dict>'' @ [0]" "length ?bs = 23"
      by (simp_all add: prelink_tail_def)
    with f(3) size show ?thesis by (simp only: holds_def) simp
  qed
  then have "prelink_section 0 0 session_kernel 32 128 (bytes_of ''<array>'') 0"
    using f size by (simp add: prelink_section_def ptr_for_va_def ptr_for_sa_def sa_for_va_def)
  then show ?thesis
    using size zeros by (simp add: prelink_slack_def holds_replicate del: replicate.simps)
qed

lemma session_lookup:
  "kernelcache_symbol_table_lookup session_pongo = kernelcache_symbol_table_lookup uploaded_pongo"
  by (simp add: session_pongo_def kernelcache_symbol_table_lookup_def fun_eq_iff)

lemma session_pongo_ok: "pongo_ok session_pongo"
proof -
  have "word_at session_kernel 20 = 0" by code_simp
  then have "kernel_ok session_kernel"
    by (simp add: kernel_ok_def word_at_def [symmetric]) (simp add: session_kernel_def Let_def)
  then show ?thesis
    using uploaded_pongo_ok by (simp add: session_pongo_def pongo_ok_def)
qed

lemma session_loadable:
  "list_all2 (loadable (kernelcache_symbol_table_lookup session_pongo)) session_uploads
     [(uploaded_info, 0x5000), (uploaded_info, 0x9000)]"
  using upload_sane upload_accepted
  by (simp add: session_uploads_def session_lookup loadable_def Let_def uploaded_fields) (simp add: upload_reads)

lemma session_room:
  "prelink_slack (e_mh session_env) (e_slide session_env) (mh_execute_header session_pongo) 32 128 (bytes_of ''<array>'') 0 2"
  "e_get_section session_env r = Some 32"
  using session_slack by (simp_all add: session_env_def session_pongo_def)

theorem session_loads_all_witness:
  "\<exists>k k' ps'. kextload_session session_env session_uploads (session_pongo, 0)
     = Some ([Kext_loaded k (loaded_info (uploaded_info, 0x5000)) True,
              Kext_loaded k' (loaded_info (uploaded_info, 0x9000)) True], ps', 2)"
proof -
  have two: "length session_uploads = 2" by (simp add: session_uploads_def)
  show ?thesis
    using session_loads_all [OF session_pongo_ok session_loadable session_room(1) [folded two] session_room(2), of 0]
    by (auto simp: list_all2_Cons2 two)
qed

end
