(* ===== verification/Kernel_Patch.thy ===== *)
theory Kernel_Patch
  imports Kext_Load
begin

text \<open>
  The kernel patches of \<^verbatim>\<open>kextload.c\<close> and the module's entry points. The kernel's text is a
  region; an instruction pointer is an offset into it. pongoOS's pattern matcher is not modelled:
  the three patterns and their callbacks are, and the callback's contract is stated for a place
  where its pattern matches.
\<close>

section \<open>Bit fields and patterns\<close>

text \<open>\<open>bits\<close> of the source, on \<open>uintmax_t\<close> and \<open>intmax_t\<close> of 64 bits.\<close>

definition extract_bits :: "u64 \<Rightarrow> bool \<Rightarrow> nat \<Rightarrow> nat \<Rightarrow> nat \<Rightarrow> u64" where
  "extract_bits x sign hi lo shift =
     (let d = 64 - (hi - lo + 1) in
      if sign then signed_drop_bit (d - shift) (push_bit d (signed_drop_bit lo x))
      else drop_bit (d - shift) (push_bit d (drop_bit lo x)))"

definition MATCH :: "u32 \<Rightarrow> u32 \<Rightarrow> u32 \<Rightarrow> bool" where
  "MATCH insn expected msk = (insn AND msk = expected)"

definition NOP :: u32 where
  "NOP = 0xD503201F"

text \<open>\<open>insn[i]\<close> for an instruction pointer at \<open>off1\<close>; a negative offset faults.\<close>

definition insn_at :: "region \<Rightarrow> nat \<Rightarrow> int \<Rightarrow> u32 option" where
  "insn_at r off1 i =
     (if int off1 + 4 * i < 0 then None else rd32 r (nat (int off1 + 4 * i)))"

definition put_insn :: "nat \<Rightarrow> nat \<Rightarrow> u32 \<Rightarrow> region \<Rightarrow> region option" where
  "put_insn off1 i w r = wr32 r (off1 + 4 * i) w"

section \<open>ADRP/ADD\<close>

definition adrp_add_target :: "u64 \<Rightarrow> u32 \<Rightarrow> u32 \<Rightarrow> u64" where
  "adrp_add_target pc adrp add =
     (let imm0 = extract_bits (ucast adrp) True 23 5 (12 + 2) OR extract_bits (ucast adrp) False 30 29 12;
          imm1 = extract_bits (ucast add) False 21 10 0 in
      (pc AND NOT 0xFFF) + imm0 + imm1)"

definition adrp_add_registers :: "u32 \<Rightarrow> u32 \<Rightarrow> bool" where
  "adrp_add_registers adrp add \<longleftrightarrow>
     (let reg0 = extract_bits (ucast adrp) False 4 0 0;
          reg1 = extract_bits (ucast add) False 4 0 0;
          reg2 = extract_bits (ucast add) False 9 5 0 in
      \<not> (reg0 \<noteq> reg1 \<or> reg1 \<noteq> reg2 \<or> reg0 = 0x1f))"

text \<open>The pointer, \<open>Some None\<close> for null.\<close>

definition RESOLVE_ADRP_ADD :: "u64 \<Rightarrow> u64 \<Rightarrow> region \<Rightarrow> nat \<Rightarrow> u64 option option" where
  "RESOLVE_ADRP_ADD mh slide r off1 = do {
     adrp \<leftarrow> insn_at r off1 0;
     add \<leftarrow> insn_at r off1 1;
     if \<not> adrp_add_registers adrp add then Some None
     else Some (Some (ptr_for_va mh slide
            (adrp_add_target (va_for_ptr mh slide (mh + word_of_nat off1)) adrp add)))
   }"

section \<open>The patch callbacks\<close>

text \<open>A callback returns the patched text and whether it fired.\<close>

definition ktrr_mmu_patch :: "region \<Rightarrow> nat \<Rightarrow> (bool \<times> region) option" where
  "ktrr_mmu_patch r off1 = do {
     r1 \<leftarrow> put_insn off1 0 NOP r;
     r2 \<leftarrow> put_insn off1 2 NOP r1;
     r3 \<leftarrow> put_insn off1 4 NOP r2;
     Some (True, r3)
   }"

definition ktrr_amcc_patch :: "region \<Rightarrow> nat \<Rightarrow> (bool \<times> region) option" where
  "ktrr_amcc_patch r off1 = do {
     r1 \<leftarrow> put_insn off1 0 NOP r;
     r2 \<leftarrow> put_insn off1 2 NOP r1;
     r3 \<leftarrow> put_insn off1 3 NOP r2;
     r4 \<leftarrow> put_insn off1 4 NOP r3;
     Some (True, r4)
   }"

definition MAX_SEARCH :: nat where
  "MAX_SEARCH = 30"

definition is_prologue :: "u32 \<Rightarrow> bool" where
  "is_prologue insn \<longleftrightarrow> MATCH insn 0xD10003FF 0xFFF01FFF \<or> MATCH insn 0xA9006FFC 0xFFC0FFFF"

definition is_mov_xn_x2 :: "u32 \<Rightarrow> bool" where
  "is_mov_xn_x2 insn \<longleftrightarrow> MATCH insn 0xAA0203E0 0xFFFFFFE0"

text \<open>
  The search backwards; \<open>k\<close> is \<open>-i\<close>. The result is the place of the last instruction recorded,
  \<open>Some None\<close> when the function returns \<open>false\<close>.
\<close>

function search_x2 :: "region \<Rightarrow> nat \<Rightarrow> nat \<Rightarrow> nat option \<Rightarrow> nat option option" where
  "search_x2 r off1 k x2_insn =
     (if MAX_SEARCH < k then Some None
      else do {
        insn \<leftarrow> insn_at r off1 (- int k);
        if is_prologue insn then Some x2_insn
        else search_x2 r off1 (Suc k) (if is_mov_xn_x2 insn then Some (off1 - 4 * k) else x2_insn)
      })"
  by pat_completeness auto
termination
  by (relation "measure (\<lambda>(r, off1, k, x2_insn). Suc MAX_SEARCH - k)") auto

declare search_x2.simps [simp del]

text \<open>The third component is whether the patch was disabled.\<close>

definition OSKext_init_patch :: "u64 \<Rightarrow> u64 \<Rightarrow> region \<Rightarrow> nat \<Rightarrow> (bool \<times> region \<times> bool) option" where
  "OSKext_init_patch mh slide r off1 = do {
     target \<leftarrow> RESOLVE_ADRP_ADD mh slide r (off1 + 4 * 2);
     (case target of
        None \<Rightarrow> Some (False, r, False)
      | Some ptr \<Rightarrow> do {
          eq \<leftarrow> c_streq r (unat (ptr - mh)) (bytes_of ''_PrelinkBundlePath'');
          if \<not> eq then Some (False, r, False)
          else do {
            x2_insn \<leftarrow> search_x2 r off1 0 None;
            (case x2_insn of
               None \<Rightarrow> Some (False, r, False)
             | Some at \<Rightarrow> do {
                 insn \<leftarrow> rd32 r at;
                 r' \<leftarrow> wr32 r at (insn OR 0x001F0000);
                 Some (True, r', True)
               })
          }
        })
   }"

section \<open>The patterns\<close>

text \<open>Each entry is a match and a mask; the matcher runs on 32-bit accesses.\<close>

definition ktrr_mmu_pattern :: "(u32 \<times> u32) list" where
  "ktrr_mmu_pattern =
     [(0xD51CF260, 0xFFFFFFE0), (0, 0), (0xD51CF280, 0xFFFFFFE0), (0, 0), (0xD51CF240, 0xFFFFFFE0)]"

definition ktrr_amcc_pattern :: "(u32 \<times> u32) list" where
  "ktrr_amcc_pattern =
     [(0xB907EC00, 0xFFFFFC00), (0xD5033FDF, 0xFFFFFFFF), (0xD51CF260, 0xFFFFFFE0),
      (0xD51CF280, 0xFFFFFFE0), (0xD51CF240, 0xFFFFFFE0)]"

definition OSKext_init_pattern :: "(u32 \<times> u32) list" where
  "OSKext_init_pattern =
     [(0xF9400000, 0xFFFFFC00), (0xF9400000, 0xFFFF0000), (0x90000001, 0x9F00001F),
      (0x91000021, 0xFFC003FF), (0xAA0003E0, 0xFFE0FFFF), (0xD63F0000, 0xFFFFFC1F)]"

datatype patch_callback = Ktrr_mmu | Ktrr_amcc | Oskext_init

text \<open>The patch set that \<open>kextload_patch\<close> registers, in order: name, pattern, required, callback.\<close>

definition kextload_patchset :: "(string \<times> (u32 \<times> u32) list \<times> bool \<times> patch_callback) list" where
  "kextload_patchset =
     [(''KTRR MMU lockdown'', ktrr_mmu_pattern, True, Ktrr_mmu),
      (''KTRR AMCC lockdown'', ktrr_amcc_pattern, True, Ktrr_amcc),
      (''OSKext::initWithPrelinkedInfoDict'', OSKext_init_pattern, True, Oskext_init)]"

definition run_callback :: "u64 \<Rightarrow> u64 \<Rightarrow> patch_callback \<Rightarrow> region \<Rightarrow> nat \<Rightarrow> (bool \<times> region) option" where
  "run_callback mh slide cb r off1 =
     (case cb of
        Ktrr_mmu \<Rightarrow> ktrr_mmu_patch r off1
      | Ktrr_amcc \<Rightarrow> ktrr_amcc_patch r off1
      | Oskext_init \<Rightarrow> map_option (\<lambda>(b, r', _). (b, r')) (OSKext_init_patch mh slide r off1))"

text \<open>A pattern matches at a place.\<close>

definition pattern_matches :: "(u32 \<times> u32) list \<Rightarrow> region \<Rightarrow> nat \<Rightarrow> bool" where
  "pattern_matches ps r off1 \<longleftrightarrow>
     off1 + 4 * length ps \<le> rsize r
     \<and> (\<forall>i < length ps. MATCH (word_at r (off1 + 4 * i)) (fst (ps ! i)) (snd (ps ! i)))"

section \<open>The module\<close>

text \<open>
  A pre-boot hook: the module's own or that of somebody else. The module's state is what its
  entry point sets; commands are kept by name.
\<close>

datatype hook = Kextload_hook | Other_hook nat

datatype command = Command_kextload | Command_kernelcache_symbols

record pongo_module =
  preboot_hook :: "hook option"
  next_preboot_hook :: "hook option"
  commands :: "(string \<times> command) list"
  m_mh_execute_header :: u64
  m_kernel_slide :: u64

definition module_entry :: "u64 \<Rightarrow> (u64 \<Rightarrow> u64) \<Rightarrow> pongo_module \<Rightarrow> pongo_module" where
  "module_entry xnu_header xnu_slide_value m =
     m\<lparr>next_preboot_hook := preboot_hook m,
       preboot_hook := Some Kextload_hook,
       m_mh_execute_header := xnu_header,
       m_kernel_slide := xnu_slide_value xnu_header,
       commands := commands m @ [(''kextload'', Command_kextload),
                                 (''kernelcache-symbols'', Command_kernelcache_symbols)]\<rparr>"

text \<open>
  \<open>kextload_patch\<close> hands its three patches to the pattern matcher, a parameter here. The module's
  hook calls the hook it replaced, when there is one, and then patches the kernel's text. A hook
  calls another through \<open>run_hook\<close>, whose fuel bounds the depth of calls: \<open>None\<close> when it is
  used up. \<open>other\<close> is what the hooks of somebody else do.
\<close>

type_synonym patchset = "(string \<times> (u32 \<times> u32) list \<times> bool \<times> patch_callback) list"

definition kextload_patch :: "(patchset \<Rightarrow> region \<Rightarrow> region) \<Rightarrow> region \<Rightarrow> region" where
  "kextload_patch apply_patchset kernel_text = apply_patchset kextload_patchset kernel_text"

definition kextload_preboot_hook ::
  "(hook \<Rightarrow> region \<Rightarrow> region option) \<Rightarrow> (patchset \<Rightarrow> region \<Rightarrow> region) \<Rightarrow> pongo_module \<Rightarrow> region
     \<Rightarrow> region option" where
  "kextload_preboot_hook call apply_patchset m kernel_text = do {
     kernel_text' \<leftarrow> (case next_preboot_hook m of
                        None \<Rightarrow> Some kernel_text
                      | Some h \<Rightarrow> call h kernel_text);
     Some (kextload_patch apply_patchset kernel_text')
   }"

fun run_hook ::
  "nat \<Rightarrow> (nat \<Rightarrow> region \<Rightarrow> region) \<Rightarrow> (patchset \<Rightarrow> region \<Rightarrow> region) \<Rightarrow> pongo_module \<Rightarrow> hook \<Rightarrow> region
     \<Rightarrow> region option" where
  "run_hook 0 other apply_patchset m h kernel_text = None"
| "run_hook (Suc n) other apply_patchset m Kextload_hook kernel_text =
     kextload_preboot_hook (run_hook n other apply_patchset m) apply_patchset m kernel_text"
| "run_hook (Suc n) other apply_patchset m (Other_hook k) kernel_text = Some (other k kernel_text)"

end
