(* ===== verification/Kernel_Patch_Spec.thy ===== *)
theory Kernel_Patch_Spec
  imports Kernel_Patch
begin

text \<open>
  What the kernel patches do: the bit-field reader as shifts and masks, the place an ADRP/ADD pair
  points at, the words each callback changes, and, for any sequence of callbacks fired where their
  patterns match, the only changes the kernel's text can undergo.
\<close>

section \<open>Bit fields\<close>

lemma extract_bits_unsigned:
  assumes "lo \<le> hi" and "hi < 64" and "hi - lo + 1 + shift \<le> 64"
  shows "extract_bits x False hi lo shift = push_bit shift (take_bit (hi - lo + 1) (drop_bit lo x))"
proof (rule bit_word_eqI)
  fix n
  assume n: "n < LENGTH(64)"
  define d where "d = 64 - (hi - lo + 1)"
  define k where "k = d - shift"
  have kd: "k + shift = d" "lo + 63 - d = hi" "d \<le> 63" "d + (hi - lo + 1) = 64"
    using assms by (auto simp: k_def d_def)
  have "bit (extract_bits x False hi lo shift) n \<longleftrightarrow> bit (push_bit d (drop_bit lo x)) (k + n)"
    by (simp add: extract_bits_def k_def d_def bit_drop_bit_eq)
  also have "\<dots> \<longleftrightarrow> d \<le> k + n \<and> k + n < 64 \<and> bit x (lo + (k + n - d))"
    by (auto simp: bit_simps)
  also have "\<dots> \<longleftrightarrow> shift \<le> n \<and> n - shift < hi - lo + 1 \<and> bit x (lo + (n - shift))"
  proof (cases "shift \<le> n")
    case True
    then have "k + n - d = n - shift" "d \<le> k + n" "k + n < 64 \<longleftrightarrow> n - shift < hi - lo + 1"
      using kd by linarith+
    then show ?thesis using True by simp
  qed (use kd in auto)
  also have "\<dots> \<longleftrightarrow> bit (push_bit shift (take_bit (hi - lo + 1) (drop_bit lo x))) n"
    using n by (auto simp: bit_simps)
  finally show "bit (extract_bits x False hi lo shift) n
    \<longleftrightarrow> bit (push_bit shift (take_bit (hi - lo + 1) (drop_bit lo x))) n" .
qed

lemma extract_bits_signed:
  assumes "lo \<le> hi" and "hi < 64" and "hi - lo + 1 + shift \<le> 64" and "n < 64"
  shows "bit (extract_bits x True hi lo shift) n
    \<longleftrightarrow> shift \<le> n \<and> bit x (min hi (lo + (n - shift)))"
proof -
  define d where "d = 64 - (hi - lo + 1)"
  define k where "k = d - shift"
  have kd: "k + shift = d" "lo + 63 - d = hi" "d \<le> 63"
    using assms by (auto simp: k_def d_def)
  have "bit (extract_bits x True hi lo shift) n
    \<longleftrightarrow> bit (push_bit d (signed_drop_bit lo x)) (if 64 - k \<le> n then 63 else k + n)"
    using assms(4) by (simp add: extract_bits_def k_def d_def bit_signed_drop_bit_iff)
  also have "\<dots> \<longleftrightarrow> d \<le> (if 64 - k \<le> n then 63 else k + n)
       \<and> bit (signed_drop_bit lo x) ((if 64 - k \<le> n then 63 else k + n) - d)"
    using assms(4) by (auto simp: bit_simps)
  also have "\<dots> \<longleftrightarrow> shift \<le> n \<and> bit x (min hi (lo + (n - shift)))"
  proof (cases "64 - k \<le> n")
    case True
    then have "63 - d < 64 - lo" "lo + (63 - d) = hi" "hi \<le> lo + (n - shift)" "shift \<le> n" using kd assms by linarith+
    then show ?thesis using True kd by (simp add: bit_signed_drop_bit_iff)
  next
    case False
    then have *: "d \<le> k + n \<longleftrightarrow> shift \<le> n" "k + n - d = n - shift" using kd assms by linarith+
    have "shift \<le> n \<Longrightarrow> lo + (n - shift) \<le> hi" using kd False assms by linarith
    then show ?thesis using False * assms by (auto simp add: bit_signed_drop_bit_iff)
  qed
  finally show ?thesis .
qed

text \<open>The immediates of an ADRP and of an ADD, as the instruction set defines them.\<close>

definition adrp_imm :: "u32 \<Rightarrow> u64" where
  "adrp_imm w =
     signed_take_bit 20 (push_bit 2 (take_bit 19 (drop_bit 5 (ucast w))) OR take_bit 2 (drop_bit 29 (ucast w)))"

definition add_imm :: "u32 \<Rightarrow> u64" where
  "add_imm w = take_bit 12 (drop_bit 10 (ucast w))"

lemma bit_adrp_imm:
  assumes "m < 64"
  shows "bit (adrp_imm w) m
    \<longleftrightarrow> (if m < 2 then bit (ucast w :: u64) (29 + m) else bit (ucast w :: u64) (min 23 (5 + (m - 2))))"
proof -
  let ?x = "ucast w :: u64"
  have "bit (adrp_imm w) m
    \<longleftrightarrow> bit (push_bit 2 (take_bit 19 (drop_bit 5 ?x)) OR take_bit 2 (drop_bit 29 ?x)) (min 20 m)"
    using assms by (simp add: adrp_imm_def bit_signed_take_bit_iff)
  also have "\<dots> \<longleftrightarrow> 2 \<le> min 20 m \<and> min 20 m - 2 < 19 \<and> bit ?x (5 + (min 20 m - 2))
      \<or> min 20 m < 2 \<and> bit ?x (29 + min 20 m)"
    using min.cobounded1 [of 20 m] by (auto simp add: bit_or_iff bit_push_bit_iff bit_take_bit_iff bit_drop_bit_eq)
  also have "\<dots> \<longleftrightarrow> (if m < 2 then bit ?x (29 + m) else bit ?x (min 23 (5 + (m - 2))))"
  proof (cases "m < 2")
    case True
    then have "min 20 m = m" by simp
    with True show ?thesis by simp
  next
    case False
    then have "2 \<le> min 20 m" "min 20 m - 2 < 19" "\<not> min 20 m < 2" "5 + (min 20 m - 2) = min 23 (5 + (m - 2))"
      by (auto simp: min_def)
    with False show ?thesis by simp
  qed
  finally show ?thesis .
qed

lemma adrp_bits:
  "extract_bits (ucast w) True 23 5 (12 + 2) OR extract_bits (ucast w) False 30 29 12
   = push_bit 12 (adrp_imm w)"
proof (rule bit_word_eqI)
  fix n
  assume "n < LENGTH(64)"
  then have n: "n < 64" by simp
  let ?x = "ucast w :: u64"
  have s: "bit (extract_bits ?x True 23 5 (12 + 2)) n \<longleftrightarrow> 12 + 2 \<le> n \<and> bit ?x (min 23 (5 + (n - (12 + 2))))"
    using n by (intro extract_bits_signed) simp_all
  have "extract_bits ?x False 30 29 12 = push_bit 12 (take_bit (30 - 29 + 1) (drop_bit 29 ?x))"
    by (rule extract_bits_unsigned) simp_all
  then have u: "bit (extract_bits ?x False 30 29 12) n \<longleftrightarrow> 12 \<le> n \<and> n - 12 < 2 \<and> bit ?x (29 + (n - 12))"
    using n by (simp add: bit_push_bit_iff bit_take_bit_iff bit_drop_bit_eq flip: numeral_2_eq_2)
  have r: "bit (push_bit 12 (adrp_imm w)) n \<longleftrightarrow> 12 \<le> n \<and>
     (if n - 12 < 2 then bit ?x (29 + (n - 12)) else bit ?x (min 23 (5 + (n - 12 - 2))))"
    using n bit_adrp_imm [of "n - 12" w] by (simp add: bit_push_bit_iff)
  have a: "n - (12 + 2) = n - 12 - 2" "12 + 2 \<le> n \<longleftrightarrow> 12 \<le> n \<and> \<not> n - 12 < 2" by linarith+
  show "bit (extract_bits ?x True 23 5 (12 + 2) OR extract_bits ?x False 30 29 12) n
      \<longleftrightarrow> bit (push_bit 12 (adrp_imm w)) n"
    unfolding bit_or_iff s u r a by (cases "n - 12 < 2") (simp_all only: if_True if_False, blast+)
qed

lemma adrp_add_target_eq:
  "adrp_add_target pc adrp add = (pc AND NOT 0xFFF) + push_bit 12 (adrp_imm adrp) + add_imm add"
proof -
  have "extract_bits (ucast add) False 21 10 0 = push_bit 0 (take_bit (21 - 10 + 1) (drop_bit 10 (ucast add)))"
    by (rule extract_bits_unsigned) simp_all
  then have "extract_bits (ucast add) False 21 10 0 = add_imm add"
    by (simp add: add_imm_def)
  then show ?thesis
    by (simp only: adrp_add_target_def Let_def adrp_bits)
qed

section \<open>Words of the kernel's text\<close>

lemma word_at_wr32_same: "wr32 r off w = Some r' \<Longrightarrow> word_at r' off = w"
  using rd32_wr32_same [of r off w r'] by (auto simp: rd_field split: if_splits)

lemma word_at_wr32_other:
  "wr32 r off w = Some r' \<Longrightarrow> a + 4 \<le> off \<or> off + 4 \<le> a \<Longrightarrow> word_at r' a = word_at r a"
  unfolding wr32_def word_at_def by (subst rslice_wr_other) auto

lemma wr32_Some:
  assumes "off + 4 \<le> rsize r"
  obtains r' where "wr32 r off w = Some r'" "rsize r' = rsize r" "word_at r' off = w"
    "\<And>a. a + 4 \<le> off \<or> off + 4 \<le> a \<Longrightarrow> word_at r' a = word_at r a"
proof -
  obtain r' where "wr32 r off w = Some r'"
    using assms wr_not_None(2) [of r off w] by auto
  with that show thesis
    by (metis wr32_SomeD word_at_wr32_same word_at_wr32_other)
qed

text \<open>
  The text \<open>r'\<close> differs from \<open>r\<close> only in words of the list \<open>ws\<close>, relative to \<open>off1\<close>, which hold
  \<open>w\<close> now.
\<close>

definition only_words :: "region \<Rightarrow> region \<Rightarrow> nat \<Rightarrow> nat list \<Rightarrow> u32 \<Rightarrow> bool" where
  "only_words r r' off1 ws w \<longleftrightarrow>
     rsize r' = rsize r \<and> (\<forall>i \<in> set ws. word_at r' (off1 + 4 * i) = w)
     \<and> (\<forall>a. (\<forall>i \<in> set ws. a + 4 \<le> off1 + 4 * i \<or> off1 + 4 * i + 4 \<le> a) \<longrightarrow> word_at r' a = word_at r a)"

lemma only_words_Nil: "only_words r r off1 [] w"
  by (simp add: only_words_def)

lemma only_words_put:
  assumes "only_words r r1 off1 ws w" and "off1 + 4 * i + 4 \<le> rsize r"
  shows "\<exists>r2. put_insn off1 i w r1 = Some r2 \<and> only_words r r2 off1 (i # ws) w"
proof -
  from assms have "off1 + 4 * i + 4 \<le> rsize r1"
    by (simp add: only_words_def)
  then obtain r2 where r2: "wr32 r1 (off1 + 4 * i) w = Some r2" "rsize r2 = rsize r1"
    "word_at r2 (off1 + 4 * i) = w"
    "\<And>a. a + 4 \<le> off1 + 4 * i \<or> off1 + 4 * i + 4 \<le> a \<Longrightarrow> word_at r2 a = word_at r1 a"
    by (rule wr32_Some) blast
  have "word_at r2 (off1 + 4 * k) = w" if "k \<in> set ws" for k
  proof (cases "k = i")
    case False
    then have "off1 + 4 * k + 4 \<le> off1 + 4 * i \<or> off1 + 4 * i + 4 \<le> off1 + 4 * k"
      by linarith
    with that assms(1) r2(4) show ?thesis
      by (simp add: only_words_def)
  qed (use r2 in simp)
  with assms(1) r2 show ?thesis
    by (auto simp: only_words_def put_insn_def)
qed

lemma ktrr_mmu_patch_spec:
  assumes "off1 + 20 \<le> rsize r"
  shows "\<exists>r'. ktrr_mmu_patch r off1 = Some (True, r') \<and> only_words r r' off1 [4, 2, 0] NOP"
proof -
  obtain r1 where "put_insn off1 0 NOP r = Some r1" "only_words r r1 off1 [0] NOP"
    using only_words_put [OF only_words_Nil, of off1 0 r NOP] assms by auto
  moreover from this obtain r2 where "put_insn off1 2 NOP r1 = Some r2" "only_words r r2 off1 [2, 0] NOP"
    using only_words_put [of r r1 off1 "[0]" NOP 2] assms by auto
  moreover from this obtain r3 where "put_insn off1 4 NOP r2 = Some r3" "only_words r r3 off1 [4, 2, 0] NOP"
    using only_words_put [of r r2 off1 "[2, 0]" NOP 4] assms by auto
  ultimately show ?thesis by (simp add: ktrr_mmu_patch_def)
qed

lemma ktrr_amcc_patch_spec:
  assumes "off1 + 20 \<le> rsize r"
  shows "\<exists>r'. ktrr_amcc_patch r off1 = Some (True, r') \<and> only_words r r' off1 [4, 3, 2, 0] NOP"
proof -
  obtain r1 where "put_insn off1 0 NOP r = Some r1" "only_words r r1 off1 [0] NOP"
    using only_words_put [OF only_words_Nil, of off1 0 r NOP] assms by auto
  moreover from this obtain r2 where "put_insn off1 2 NOP r1 = Some r2" "only_words r r2 off1 [2, 0] NOP"
    using only_words_put [of r r1 off1 "[0]" NOP 2] assms by auto
  moreover from this obtain r3 where "put_insn off1 3 NOP r2 = Some r3" "only_words r r3 off1 [3, 2, 0] NOP"
    using only_words_put [of r r2 off1 "[2, 0]" NOP 3] assms by auto
  moreover from this obtain r4 where "put_insn off1 4 NOP r3 = Some r4" "only_words r r4 off1 [4, 3, 2, 0] NOP"
    using only_words_put [of r r3 off1 "[3, 2, 0]" NOP 4] assms by auto
  ultimately show ?thesis by (simp add: ktrr_amcc_patch_def)
qed

section \<open>The search of \<open>OSKext_init_patch\<close>\<close>

lemma insn_at_SomeD:
  "insn_at r off1 (- int k) = Some w \<Longrightarrow>
     4 * k \<le> off1 \<and> off1 - 4 * k + 4 \<le> rsize r \<and> w = word_at r (off1 - 4 * k)"
  by (auto simp: insn_at_def rd_field nat_diff_distrib' nat_mult_distrib split: if_splits)

text \<open>
  The instruction found is a MOV from X2 between the prologue and the match, the farthest from the
  match, and there is no other MOV from X2 between it and the prologue.
\<close>

lemma search_x2_spec:
  assumes "search_x2 r off1 k x2_insn = Some (Some at)"
  shows "x2_insn = Some at \<or>
    (\<exists>i \<ge> k. i \<le> MAX_SEARCH \<and> 4 * i \<le> off1 \<and> at = off1 - 4 * i \<and> at + 4 \<le> rsize r
       \<and> is_mov_xn_x2 (word_at r at))"
  using assms
proof (induction r off1 k x2_insn rule: search_x2.induct)
  case (1 r off1 k x2_insn)
  from "1.prems" obtain insn where *: "\<not> MAX_SEARCH < k" "insn_at r off1 (- int k) = Some insn"
    by (subst (asm) search_x2.simps) (auto split: if_splits bind_splits)
  note at = insn_at_SomeD [OF *(2)]
  show ?case
  proof (cases "is_prologue insn")
    case True
    with "1.prems" * show ?thesis by (subst (asm) search_x2.simps) simp
  next
    case False
    let ?x = "if is_mov_xn_x2 insn then Some (off1 - 4 * k) else x2_insn"
    from "1.prems" * False have "search_x2 r off1 (Suc k) ?x = Some (Some at)"
      by (subst (asm) search_x2.simps) simp
    from "1.IH" [OF *(1,2) False this] show ?thesis
    proof (elim disjE exE conjE)
      assume "?x = Some at"
      with at *(1) show ?thesis
        by (auto split: if_splits intro!: exI [of _ k])
    next
      fix i
      assume "Suc k \<le> i" "i \<le> MAX_SEARCH" "4 * i \<le> off1" "at = off1 - 4 * i" "at + 4 \<le> rsize r"
        "is_mov_xn_x2 (word_at r at)"
      then show ?thesis by (intro disjI2 exI [of _ i]) auto
    qed
  qed
qed

text \<open>No fault: enough text before the match and a terminated string are all it needs.\<close>

lemma search_x2_safe:
  assumes "4 * MAX_SEARCH \<le> off1" and "off1 + 4 \<le> rsize r"
  shows "search_x2 r off1 k x2_insn \<noteq> None"
  using assms
proof (induction r off1 k x2_insn rule: search_x2.induct)
  case (1 r off1 k x2_insn)
  show ?case
  proof (cases "MAX_SEARCH < k")
    case True
    then show ?thesis by (subst search_x2.simps) simp
  next
    case False
    then have "4 * k \<le> off1" using "1.prems" by simp
    then have "insn_at r off1 (- int k) = Some (word_at r (off1 - 4 * k))"
      using "1.prems" by (auto simp: insn_at_def rd_field nat_diff_distrib' nat_mult_distrib)
    with False "1.IH" [OF False this] "1.prems" show ?thesis
      by (subst search_x2.simps) auto
  qed
qed

section \<open>\<open>OSKext_init_patch\<close>\<close>

definition is_mov_xn_xzr :: "u32 \<Rightarrow> bool" where
  "is_mov_xn_xzr insn \<longleftrightarrow> MATCH insn 0xAA1F03E0 0xFFFFFFE0"

lemma mov_x2_to_xzr:
  assumes "is_mov_xn_x2 w"
  shows "is_mov_xn_xzr (w OR 0x001F0000)" and "(w OR 0x001F0000) AND 0x1F = w AND 0x1F"
    and "\<not> is_mov_xn_x2 (w OR 0x001F0000)"
  using assms
  by (simp_all add: is_mov_xn_x2_def is_mov_xn_xzr_def MATCH_def bit.conj_disj_distrib2)

lemma NOP_not_mov: "\<not> is_mov_xn_x2 NOP"
  by (simp add: is_mov_xn_x2_def MATCH_def NOP_def)

text \<open>When the callback changes anything it changes one MOV from X2 into a MOV from XZR.\<close>

lemma OSKext_init_patch_cases:
  assumes "OSKext_init_patch mh slide r off1 = Some (fired, r', disabled)"
  obtains (missed) "\<not> fired" "\<not> disabled" "r' = r"
  | (patched) i where "fired" "disabled" "i \<le> MAX_SEARCH" "4 * i \<le> off1" "off1 - 4 * i + 4 \<le> rsize r"
    "is_mov_xn_x2 (word_at r (off1 - 4 * i))"
    "only_words r r' (off1 - 4 * i) [0] (word_at r (off1 - 4 * i) OR 0x001F0000)"
proof -
  consider "\<not> fired" "\<not> disabled" "r' = r"
    | at where "fired" "disabled" "search_x2 r off1 0 None = Some (Some at)"
      "do { insn \<leftarrow> rd32 r at; wr32 r at (insn OR 0x001F0000) } = Some r'"
    using assms
    by (fastforce simp: OSKext_init_patch_def split: bind_splits option.splits if_splits)
  then show thesis
  proof cases
    case 1
    then show thesis by (rule missed)
  next
    case 2
    from search_x2_spec [OF 2(3)] obtain i where i: "i \<le> MAX_SEARCH" "4 * i \<le> off1" "at = off1 - 4 * i"
      "at + 4 \<le> rsize r" "is_mov_xn_x2 (word_at r at)" by auto
    with 2 have "wr32 r at (word_at r at OR 0x001F0000) = Some r'" by simp
    with i have "only_words r r' at [0] (word_at r at OR 0x001F0000)"
      by (auto simp: only_words_def dest: wr32_SomeD word_at_wr32_same intro: word_at_wr32_other)
    with 2 i show thesis by (intro patched [of i]) auto
  qed
qed

section \<open>Any run of the pattern matcher\<close>

text \<open>One callback of the patch set, fired at a place where its pattern matches.\<close>

inductive patch_step :: "u64 \<Rightarrow> u64 \<Rightarrow> region \<Rightarrow> region \<Rightarrow> bool" for mh slide where
  fire: "(name, ps, required, cb) \<in> set kextload_patchset \<Longrightarrow> 4 dvd off1 \<Longrightarrow> pattern_matches ps r off1
    \<Longrightarrow> run_callback mh slide cb r off1 = Some (fired, r') \<Longrightarrow> patch_step mh slide r r'"

definition word_change :: "u32 \<Rightarrow> u32 \<Rightarrow> bool" where
  "word_change w w' \<longleftrightarrow> w' = w \<or> w' = NOP \<or> is_mov_xn_x2 w \<and> w' = w OR 0x001F0000"

definition text_change :: "region \<Rightarrow> region \<Rightarrow> bool" where
  "text_change r r' \<longleftrightarrow> rsize r' = rsize r \<and> (\<forall>i. word_change (word_at r (4 * i)) (word_at r' (4 * i)))"

lemma word_change_refl [simp]: "word_change w w"
  by (simp add: word_change_def)

lemma word_change_trans: "word_change u v \<Longrightarrow> word_change v w \<Longrightarrow> word_change u w"
  using NOP_not_mov mov_x2_to_xzr(3) by (auto simp: word_change_def)

lemma text_change_refl: "text_change r r"
  by (simp add: text_change_def)

lemma text_change_trans: "text_change r r1 \<Longrightarrow> text_change r1 r2 \<Longrightarrow> text_change r r2"
  by (auto simp: text_change_def intro: word_change_trans)

lemma only_words_text_change:
  assumes "only_words r r' off1 ws w" and "4 dvd off1"
    and "\<And>i. i \<in> set ws \<Longrightarrow> word_change (word_at r (off1 + 4 * i)) w"
  shows "text_change r r'"
  unfolding text_change_def
proof (intro conjI allI)
  show "rsize r' = rsize r" using assms(1) by (simp add: only_words_def)
  fix j
  obtain b where b: "off1 = 4 * b" using assms(2) by blast
  show "word_change (word_at r (4 * j)) (word_at r' (4 * j))"
  proof (cases "\<exists>i \<in> set ws. j = b + i")
    case True
    then obtain i where i: "i \<in> set ws" "4 * j = off1 + 4 * i" using b by auto
    with assms(1) have "word_at r' (4 * j) = w" by (simp add: only_words_def)
    with assms(3) [OF i(1)] i(2) show ?thesis by simp
  next
    case False
    have "4 * j + 4 \<le> off1 + 4 * i \<or> off1 + 4 * i + 4 \<le> 4 * j" if "i \<in> set ws" for i
    proof -
      have "j \<noteq> b + i" using False that by blast
      then show ?thesis using b by linarith
    qed
    with assms(1) have "word_at r' (4 * j) = word_at r (4 * j)" by (simp add: only_words_def)
    then show ?thesis by simp
  qed
qed

lemma patch_step_change:
  assumes "patch_step mh slide r r'"
  shows "text_change r r'"
  using assms
proof cases
  case (fire name ps required cb off1 fired)
  have size: "off1 + 20 \<le> rsize r" if "cb \<noteq> Oskext_init"
    using fire(1,3) that
    by (auto simp: kextload_patchset_def pattern_matches_def ktrr_mmu_pattern_def ktrr_amcc_pattern_def)
  show ?thesis
  proof (cases cb)
    case Ktrr_mmu
    then have "only_words r r' off1 [4, 2, 0] NOP"
      using fire(4) ktrr_mmu_patch_spec [of off1 r] size by (auto simp: run_callback_def)
    then show ?thesis
      by (rule only_words_text_change) (use fire(2) in \<open>auto simp: word_change_def\<close>)
  next
    case Ktrr_amcc
    then have "only_words r r' off1 [4, 3, 2, 0] NOP"
      using fire(4) ktrr_amcc_patch_spec [of off1 r] size by (auto simp: run_callback_def)
    then show ?thesis
      by (rule only_words_text_change) (use fire(2) in \<open>auto simp: word_change_def\<close>)
  next
    case Oskext_init
    then obtain disabled where "OSKext_init_patch mh slide r off1 = Some (fired, r', disabled)"
      using fire(4) by (auto simp: run_callback_def)
    then show ?thesis
    proof (cases rule: OSKext_init_patch_cases)
      case missed
      then show ?thesis by (simp add: text_change_refl)
    next
      case (patched i)
      show ?thesis
        by (rule only_words_text_change [OF patched(7)])
           (use fire(2) patched(4,6) in \<open>auto simp: word_change_def dvd_diff_nat\<close>)
    qed
  qed
qed

lemma patch_steps_change:
  assumes "(patch_step mh slide)\<^sup>*\<^sup>* r r'"
  shows "text_change r r'"
  using assms
  by (induction rule: rtranclp_induct) (auto intro: text_change_refl text_change_trans patch_step_change)

text \<open>After a KTRR patch the lockdown sequence is gone from its place.\<close>

lemma ktrr_patched_no_match:
  assumes "only_words r r' off1 ws NOP" and "0 \<in> set ws"
  shows "\<not> pattern_matches ktrr_mmu_pattern r' off1" and "\<not> pattern_matches ktrr_amcc_pattern r' off1"
proof -
  have "word_at r' off1 = NOP" using assms by (auto simp: only_words_def)
  then show "\<not> pattern_matches ktrr_mmu_pattern r' off1" "\<not> pattern_matches ktrr_amcc_pattern r' off1"
    by (auto simp: pattern_matches_def ktrr_mmu_pattern_def ktrr_amcc_pattern_def MATCH_def NOP_def
             dest!: spec [of _ 0])
qed

section \<open>The hook chain\<close>

lemma run_hook_first_load:
  "preboot_hook m \<noteq> Some Kextload_hook \<Longrightarrow> 2 \<le> n \<Longrightarrow>
   run_hook n other apply_patchset (module_entry hdr slide_value m) Kextload_hook kernel_text
   = Some (apply_patchset kextload_patchset
       (case preboot_hook m of Some (Other_hook k) \<Rightarrow> other k kernel_text | _ \<Rightarrow> kernel_text))"
  by (cases n rule: nat.exhaust; cases "n - 1" rule: nat.exhaust)
     (auto simp: kextload_preboot_hook_def module_entry_def kextload_patch_def split: option.splits hook.splits)

lemma run_hook_second_load:
  "next_preboot_hook m = Some Kextload_hook \<Longrightarrow> run_hook n other apply_patchset m Kextload_hook kernel_text = None"
  by (induction n arbitrary: kernel_text) (simp_all add: kextload_preboot_hook_def)

end
