(* ===== verification/Patch_Props.thy ===== *)
theory Patch_Props
  imports Kernel_Patch_Spec
begin

text \<open>
  The properties of the kernel patches and of the module's hook chain, each followed by its
  witness. The witnesses run on \<open>sample_text\<close>, a text of a few instructions with a prologue, a
  MOV from X2, the call sequence of \<open>OSKext::initWithPrelinkedInfoDict()\<close> and its string, and on
  \<open>sample_lockdown\<close>, a KTRR lockdown sequence.
\<close>

section \<open>Samples\<close>

definition sample_text :: region where
  "sample_text = region_of (concat (map (le_bytes 4)
     [0xD10043FF, 0xAA0203E8, 0xF9400108, 0xF9400508, 0x90000001, 0x91008021, 0xAA0803E0,
      0xD63F0100 :: u32]) @ bytes_of ''_PrelinkBundlePath'' @ [0])"

definition sample_lockdown :: region where
  "sample_lockdown = region_of (concat (map (le_bytes 4)
     [0xD51CF260, 0xD5033FDF, 0xD51CF281, 0xD5033FDF, 0xD51CF242 :: u32]))"

lemma sample_lockdown_matches: "pattern_matches ktrr_mmu_pattern sample_lockdown 0"
  by code_simp

lemma sample_text_patched:
  "case OSKext_init_patch 0 0 sample_text 8 of None \<Rightarrow> False | Some (fired, r', disabled) \<Rightarrow> fired"
  by code_simp

text \<open>The register fields as sets of bits.\<close>

lemma extract_bits_register:
  "extract_bits (ucast w) False 4 0 0 = extract_bits (ucast v) False 4 0 0
     \<longleftrightarrow> take_bit 5 (w :: u32) = take_bit 5 v"
  "extract_bits (ucast w) False 4 0 0 = extract_bits (ucast v) False 9 5 0
     \<longleftrightarrow> take_bit 5 w = take_bit 5 (drop_bit 5 v)"
  "extract_bits (ucast w) False 4 0 0 = 0x1f \<longleftrightarrow> take_bit 5 w = 0x1f"
proof -
  have low: "extract_bits (ucast w) False 4 0 0 = ucast (take_bit 5 w)" for w :: u32
    using extract_bits_unsigned [of 0 4 0 "ucast w"]
    by (simp add: unsigned_take_bit_eq)
  have nine: "extract_bits (ucast v) False 9 5 0 = ucast (take_bit 5 (drop_bit 5 v))" for v :: u32
  proof -
    have "(ucast (drop_bit 5 v) :: u64) = drop_bit 5 (ucast v)"
      by (rule bit_word_eqI) (auto simp: bit_simps dest: bit_imp_le_length)
    with extract_bits_unsigned [of 5 9 0 "ucast v"] show ?thesis
      by (simp add: unsigned_take_bit_eq)
  qed
  have inj: "(ucast x :: u64) = ucast y \<longleftrightarrow> x = y" for x y :: u32
  proof -
    have "unat (ucast w :: u64) = unat w" for w :: u32
      using unat_u32_less [of w] by (simp add: unsigned_ucast_eq take_bit_nat_eq_self)
    then show ?thesis by (metis word_unat_eq_iff)
  qed
  have "(0x1f :: u64) = ucast (0x1f :: u32)" by simp
  then show
    "extract_bits (ucast w) False 4 0 0 = extract_bits (ucast v) False 4 0 0
       \<longleftrightarrow> take_bit 5 (w :: u32) = take_bit 5 v"
    "extract_bits (ucast w) False 4 0 0 = extract_bits (ucast v) False 9 5 0
       \<longleftrightarrow> take_bit 5 w = take_bit 5 (drop_bit 5 v)"
    "extract_bits (ucast w) False 4 0 0 = 0x1f \<longleftrightarrow> take_bit 5 w = 0x1f"
    unfolding low nine by (simp_all only: inj)
qed

lemma adrp_add_registers_iff:
  "adrp_add_registers adrp add \<longleftrightarrow>
     take_bit 5 adrp = take_bit 5 add \<and> take_bit 5 add = take_bit 5 (drop_bit 5 add)
     \<and> take_bit 5 adrp \<noteq> 0x1f"
  unfolding adrp_add_registers_def Let_def de_Morgan_disj not_not extract_bits_register by blast

section \<open>Properties\<close>

text \<open>C31: the pointer that \<open>RESOLVE_ADRP_ADD\<close> computes is the one the ADRP/ADD pair of the
  instruction set addresses (page of the instruction, plus the sign-extended 21-bit page count, plus
  the 12-bit offset), and it is null exactly when the three register fields are not one register
  below 31.\<close>

theorem resolve_adrp_add_correct:
  assumes "off1 + 8 \<le> rsize r"
  shows "RESOLVE_ADRP_ADD mh slide r off1 =
    Some (let adrp = word_at r off1; add = word_at r (off1 + 4) in
      if take_bit 5 adrp = take_bit 5 add \<and> take_bit 5 add = take_bit 5 (drop_bit 5 add)
         \<and> take_bit 5 adrp \<noteq> 0x1f
      then Some (ptr_for_va mh slide
        ((va_for_ptr mh slide (mh + word_of_nat off1) AND NOT 0xFFF)
          + push_bit 12 (adrp_imm adrp) + add_imm add))
      else None)"
proof -
  have "insn_at r off1 0 = Some (word_at r off1)" "insn_at r off1 1 = Some (word_at r (off1 + 4))"
    using assms by (simp_all add: insn_at_def rd_field nat_add_distrib)
  then show ?thesis
    unfolding RESOLVE_ADRP_ADD_def adrp_add_target_eq Let_def adrp_add_registers_iff
    by (simp only: bind.simps Option.bind.simps if_not_P if_P split: if_split) auto
qed

theorem resolve_adrp_add_correct_witness:
  "RESOLVE_ADRP_ADD 0 0 sample_text 16 = Some (Some 32)"
proof -
  have "RESOLVE_ADRP_ADD 0 0 sample_text 16 =
    Some (let adrp = word_at sample_text 16; add = word_at sample_text (16 + 4) in
      if take_bit 5 adrp = take_bit 5 add \<and> take_bit 5 add = take_bit 5 (drop_bit 5 add)
         \<and> take_bit 5 adrp \<noteq> 0x1f
      then Some (ptr_for_va 0 0
        ((va_for_ptr 0 0 (0 + word_of_nat 16) AND NOT 0xFFF)
          + push_bit 12 (adrp_imm adrp) + add_imm add))
      else None)"
    by (rule resolve_adrp_add_correct) code_simp
  also have "\<dots> = Some (Some 32)" by code_simp
  finally show ?thesis .
qed

text \<open>C15: whatever callbacks of the patch set are fired, in any order and any number, where their
  patterns match, the kernel's text keeps its size and every word of it is unchanged, a NOP, or a
  MOV from X2 turned into the MOV from XZR of the same register.\<close>

theorem kernel_text_changes:
  assumes "(patch_step mh slide)\<^sup>*\<^sup>* r r'"
  shows "rsize r' = rsize r \<and> (\<forall>i. let w = word_at r (4 * i); w' = word_at r' (4 * i) in
    w' = w \<or> w' = NOP \<or> is_mov_xn_x2 w \<and> is_mov_xn_xzr w' \<and> w' AND 0x1F = w AND 0x1F)"
  using patch_steps_change [OF assms] mov_x2_to_xzr
  by (auto simp: text_change_def word_change_def Let_def)

theorem kernel_text_changes_witness:
  "\<exists>r'. ktrr_mmu_patch sample_lockdown 0 = Some (True, r') \<and> rsize r' = rsize sample_lockdown"
proof -
  have "rsize sample_lockdown = 20" by code_simp
  then obtain r' where r': "ktrr_mmu_patch sample_lockdown 0 = Some (True, r')"
    using ktrr_mmu_patch_spec [of 0 sample_lockdown] by auto
  then have "patch_step 0 0 sample_lockdown r'"
    using sample_lockdown_matches
    by (intro fire [of "''KTRR MMU lockdown''" ktrr_mmu_pattern True Ktrr_mmu 0])
       (simp_all add: kextload_patchset_def run_callback_def)
  then have "(patch_step 0 0)\<^sup>*\<^sup>* sample_lockdown r'" by blast
  from kernel_text_changes [OF this] r' show ?thesis by blast
qed

text \<open>C32: where a KTRR pattern matches, its callback does not fault and reports success, every
  write of a lockdown register of the pattern becomes a NOP, all other words keep their values,
  and neither lockdown pattern matches there any more.\<close>

theorem ktrr_lockdown_removed:
  assumes "pattern_matches ktrr_mmu_pattern r off1 \<and> f = ktrr_mmu_patch \<and> ws = [4, 2, 0]
    \<or> pattern_matches ktrr_amcc_pattern r off1 \<and> f = ktrr_amcc_patch \<and> ws = [4, 3, 2, 0]"
  shows "\<exists>r'. f r off1 = Some (True, r') \<and> only_words r r' off1 ws NOP
    \<and> \<not> pattern_matches ktrr_mmu_pattern r' off1 \<and> \<not> pattern_matches ktrr_amcc_pattern r' off1"
proof -
  have "off1 + 20 \<le> rsize r"
    using assms by (auto simp: pattern_matches_def ktrr_mmu_pattern_def ktrr_amcc_pattern_def)
  from ktrr_mmu_patch_spec [OF this] ktrr_amcc_patch_spec [OF this] assms
  obtain r' where r': "f r off1 = Some (True, r')" "only_words r r' off1 ws NOP" by blast
  have "0 \<in> set ws" using assms by auto
  from ktrr_patched_no_match [OF r'(2) this] r' show ?thesis by blast
qed

theorem ktrr_lockdown_removed_witness:
  "\<exists>r'. ktrr_mmu_patch sample_lockdown 0 = Some (True, r') \<and> \<not> pattern_matches ktrr_mmu_pattern r' 0"
  using ktrr_lockdown_removed [of sample_lockdown 0 ktrr_mmu_patch "[4, 2, 0]"]
    sample_lockdown_matches by blast

text \<open>C30: when the callback for \<open>OSKext::initWithPrelinkedInfoDict()\<close> reports success it has disabled
  the patch and changed one word only, at most thirty instructions before the match: a MOV from
  X2, which becomes the MOV from XZR of the same register. When it reports failure the text is as
  it was.\<close>

theorem OSKext_init_patch_effect:
  assumes "OSKext_init_patch mh slide r off1 = Some (fired, r', disabled)"
  shows "disabled = fired \<and> (if fired then
      (\<exists>i \<le> 30. 4 * i \<le> off1 \<and> is_mov_xn_x2 (word_at r (off1 - 4 * i))
        \<and> is_mov_xn_xzr (word_at r' (off1 - 4 * i))
        \<and> word_at r' (off1 - 4 * i) AND 0x1F = word_at r (off1 - 4 * i) AND 0x1F
        \<and> only_words r r' (off1 - 4 * i) [0] (word_at r' (off1 - 4 * i)))
    else r' = r)"
  using assms
proof (cases rule: OSKext_init_patch_cases)
  case missed
  then show ?thesis by simp
next
  case (patched i)
  have "word_at r' (off1 - 4 * i) = word_at r (off1 - 4 * i) OR 0x001F0000"
    using patched(7) by (simp add: only_words_def)
  with patched mov_x2_to_xzr [OF patched(6)] show ?thesis
    by (auto simp: MAX_SEARCH_def intro!: exI [of _ i])
qed

theorem OSKext_init_patch_effect_witness:
  "\<exists>r' disabled. OSKext_init_patch 0 0 sample_text 8 = Some (True, r', disabled) \<and> disabled"
proof -
  obtain r' disabled where *: "OSKext_init_patch 0 0 sample_text 8 = Some (True, r', disabled)"
    using sample_text_patched by (auto split: option.splits)
  from OSKext_init_patch_effect [OF this] * show ?thesis by blast
qed

text \<open>C33: the module's entry point chains the pre-boot hook that was installed: with depth two or more
  the boot runs the previous hook, when there was one, exactly once and on the unpatched text, then
  applies the patch set once.\<close>

theorem preboot_hook_chain:
  assumes "preboot_hook m \<noteq> Some Kextload_hook" and "2 \<le> n"
  shows "preboot_hook (module_entry hdr slide_value m) = Some Kextload_hook
    \<and> run_hook n other apply_patchset (module_entry hdr slide_value m) Kextload_hook kernel_text
      = Some (apply_patchset kextload_patchset
          (case preboot_hook m of Some (Other_hook k) \<Rightarrow> other k kernel_text | _ \<Rightarrow> kernel_text))"
  using run_hook_first_load [OF assms] by (simp add: module_entry_def)

definition fresh_module :: pongo_module where
  "fresh_module = \<lparr>preboot_hook = Some (Other_hook 7), next_preboot_hook = None, commands = [],
     m_mh_execute_header = 0, m_kernel_slide = 0\<rparr>"

theorem preboot_hook_chain_witness:
  "run_hook 2 (\<lambda>k r. if k = 7 then sample_text else r) (\<lambda>ps r. r) (module_entry 0 id fresh_module)
     Kextload_hook sample_lockdown = Some sample_text"
  using preboot_hook_chain [of fresh_module 2 0 id "\<lambda>k r. if k = 7 then sample_text else r" "\<lambda>ps r. r"
      sample_lockdown]
  by (simp add: fresh_module_def)

text \<open>C37: running the entry point a second time on the same module makes its hook its own successor:
  the boot never returns from it, whatever the depth allowed.\<close>

theorem entry_twice_never_returns:
  "run_hook n other apply_patchset (module_entry hdr' slide' (module_entry hdr slide_value m))
     Kextload_hook kernel_text = None"
  by (rule run_hook_second_load) (simp add: module_entry_def)

end
