(* ===== verification/Kext_Props.thy ===== *)
theory Kext_Props
  imports Kext_Upload
begin

text \<open>
  The properties of the kernel extension loader: its parser, allocation, mapping, relocation,
  linking and the insertion into the kernelcache, and the command as a whole.
\<close>

section \<open>Properties of the phases\<close>

text \<open>C1: for every upload, every file content and every symbol lookup that answers, \<open>kext_parse\<close> reads and
  writes only inside the uploaded file, and what it accepts is a walk of contiguous segments with
  in-bounds symbol and relocation tables, terminated names, resolvable external relocations and a
  \<open>kmod_info\<close> inside the image. Of each segment's file range only the 64-bit sum of offset and size
  is bounded, and that sum can wrap; the range really lies in the file whenever the sizes of
  the image and of the file do not together reach \<open>2^64\<close>.\<close>

theorem kext_parse_safe:
  assumes "total_lookup lookup" and "32 \<le> unat fsize" and "unat fsize \<le> rsize file"
  shows "kext_parse lookup file fsize \<noteq> None
    \<and> (\<forall>f info. kext_parse lookup file fsize = Some (Inr (f, info)) \<longrightarrow>
         rsize f = rsize file \<and> file_size info = fsize \<and> kext_parsed lookup f info
         \<and> (unat (vm_size info) + unat fsize < 2 ^ 64 \<longrightarrow> segments_in_file f fsize))"
  using wp_not_None [OF any_lookup.kext_parse_wp [OF assms]] kext_parse_accepted [OF assms] kext_parsed_in_file
  by blast

theorem kext_parse_safe_witness:
  "\<exists>f. kext_parse sample_lookup sample_kext 289 = Some (Inr (f, sample_info)) \<and> kext_parsed sample_lookup f sample_info
    \<and> segments_in_file f 289"
proof -
  have "rsize sample_kext = 289" by code_simp
  moreover have "unat (vm_size sample_info) + 289 < 2 ^ 64" by (simp add: sample_info_def)
  ultimately show ?thesis
    using kext_parse_safe [OF sample_lookup_total, of 289 sample_kext] by (rule_tac sample_parsed) auto
qed

text \<open>Without that condition the range need not lie in the file: a second segment of \<open>2^64 - 300\<close> bytes
  at offset 310 of a file of 324 bytes is accepted. Its image is refused by \<open>kext_alloc\<close>.\<close>

definition wrapping_kext :: bytes where
  "wrapping_kext =
     w32s [0xfeedfacf, 0x100000c, 0, 0xb, 4, 248, 0, 0]
     @ w32s [0x19, 72, 0, 0, 0, 0, 0, 0, 280, 0, 0, 0, 280, 0, 7, 7, 0, 0]
     @ w32s [0x19, 72, 0, 0, 0, 0, 280, 0] @ le_bytes 8 (- 300 :: u64) @ w32s [310, 0] @ le_bytes 8 (- 300 :: u64)
         @ w32s [7, 7, 0, 0]
     @ w32s [2, 24, 280, 1, 296, 28]
     @ w32s [0xb, 80, 0, 0, 0, 0, 0, 0, 0, 0, 0, 0, 0, 0, 0, 0, 0, 0, 0, 0]
     @ w32s [1, 0x10e] @ le_bytes 8 (224 :: u64)
     @ [0] @ bytes_of ''_kmod_info'' @ replicate 17 0"

lemma wrapping_kext_parse:
  "map_option (map_sum fst (\<lambda>(f, info). (vm_size info, word_at f 16, word_at f (lc_off f 1), seg_fileoff f 1, seg_filesize f 1)))
     (kext_parse sample_lookup (region_of wrapping_kext) 324)
   = Some (Inr (- 20, 4, LC_SEGMENT_64, 310, - 300))"
  by code_simp

lemma wrapping_segment_accepted:
  "\<exists>f info. kext_parse sample_lookup (region_of wrapping_kext) 324 = Some (Inr (f, info)) \<and> \<not> segments_in_file f 324
     \<and> isl (kext_alloc alloc_static info)"
proof -
  obtain z where z: "kext_parse sample_lookup (region_of wrapping_kext) 324 = Some z"
    and e: "map_sum fst (\<lambda>(f, info). (vm_size info, word_at f 16, word_at f (lc_off f 1), seg_fileoff f 1, seg_filesize f 1)) z
      = Inr (- 20, 4, LC_SEGMENT_64, 310, - 300)"
    using wrapping_kext_parse by (auto simp: map_option_eq_Some)
  obtain f info where fi: "z = Inr (f, info)"
    using e by (cases z) auto
  have w: "vm_size info = - 20" "word_at f 16 = 4" "is_seg f 1" "seg_fileoff f 1 = 310" "seg_filesize f 1 = - 300"
    using e by (simp_all add: fi is_seg_def)
  then have "\<not> segments_in_file f 324" by (auto simp: segments_in_file_def intro!: exI [of _ 1])
  moreover have "0 < (- 20 :: u64)" by code_simp
  then have "isl (kext_alloc alloc_static info)"
    by (simp add: kext_alloc_def kext_alloc_size_def w Let_def)
  ultimately show ?thesis using z by (auto simp: fi)
qed

text \<open>C23: \<open>kext_alloc\<close> never hands out a block smaller than the image, whatever wraps in the rounding or
  in the cut to 32 bits; the block is a multiple of 16 KB; and every image of up to
  \<open>0xFFFFC000\<close> bytes gets a block when \<open>alloc_static\<close> has one.\<close>

theorem kext_alloc_block:
  assumes "alloc_static (ucast (kext_alloc_size (vm_size info))) = Some (base, junk)"
  shows "(\<forall>k info'. kext_alloc alloc_static info = Inr (k, info') \<longrightarrow>
      unat (vm_size info) \<le> rsize k \<and> rsize k < 2 ^ 32 \<and> 16384 dvd rsize k \<and> info' = info\<lparr>kext := base\<rparr>)
    \<and> (unat (vm_size info) \<le> 0xFFFFC000 \<longrightarrow> (\<exists>k. kext_alloc alloc_static info = Inr (k, info\<lparr>kext := base\<rparr>)))"
proof (intro conjI allI impI)
  fix k info' assume run: "kext_alloc alloc_static info = Inr (k, info')"
  show "unat (vm_size info) \<le> rsize k" "rsize k < 2 ^ 32"
    using kext_alloc_fits [OF run] by simp_all
  have "rsize k = unat (ucast (kext_alloc_size (vm_size info)) :: u32)" "info' = info\<lparr>kext := base\<rparr>"
    using run assms by (auto simp: kext_alloc_def Let_def split: if_splits)
  then show "16384 dvd rsize k" "info' = info\<lparr>kext := base\<rparr>"
    using block_aligned [of "vm_size info"] by (simp_all only:)
next
  assume "unat (vm_size info) \<le> 0xFFFFC000"
  from kext_alloc_size_exact [OF this] show "\<exists>k. kext_alloc alloc_static info = Inr (k, info\<lparr>kext := base\<rparr>)"
    using assms by (simp add: kext_alloc_def Let_def not_less [symmetric])
qed

theorem kext_alloc_block_witness:
  "\<exists>k. kext_alloc (\<lambda>n. Some (0x5000, \<lambda>_. 0)) sample_info = Inr (k, sample_info\<lparr>kext := 0x5000\<rparr>) \<and> 448 \<le> rsize k"
proof -
  have "vm_size sample_info = 448" by (simp add: sample_info_def)
  with kext_alloc_block [where alloc_static = "\<lambda>n. Some (0x5000, \<lambda>_. 0)" and info = sample_info] show ?thesis by auto
qed

text \<open>C8: on an accepted file and a block of at least the image's size, \<open>kext_map\<close> neither faults nor
  leaves the file or the block; the block then holds every segment's file bytes at its offset from
  the first segment, the segment commands carry static kernelcache addresses, and the address and
  size fields of \<open>kmod_info\<close> are set.\<close>

theorem kext_map_builds_image:
  assumes "total_lookup lookup" and "32 \<le> unat fsize" and "unat fsize \<le> rsize file"
    and "kext_parse lookup file fsize = Some (Inr (f, info))" and "unat fsize < 2 ^ 32"
    and "unat (vm_size info) \<le> rsize k" and "rsize k < 2 ^ 32"
  shows "\<exists>k2. kext_image (sa_for_ptr mh (kext info)) f k2 \<and> rsize k2 = rsize k
    \<and> kext_map mh f k info = Some (Inr (set_kmod_info mh info k2,
        info\<lparr>kmod_info := kext info + (kmod_info info - vm_base info)\<rparr>))"
  using kext_map_spec [of lookup f info k mh] kext_parse_accepted [OF assms(1-4)] assms(5-7)
  by (auto simp: wt_def)

theorem kext_map_builds_image_witness:
  "\<exists>f k2 k'. kext_image (sa_for_ptr 0 (kext sample_info)) f k2
     \<and> kext_map 0 f (block_of f) sample_info = Some (Inr (k', sample_info\<lparr>kmod_info := kext sample_info + 224\<rparr>))"
proof (rule sample_parsed)
  fix f
  assume run: "kext_parse sample_lookup sample_kext 289 = Some (Inr (f, sample_info))"
  have len: "rsize sample_kext = 289" by code_simp
  have info: "vm_size sample_info = 448" "kmod_info sample_info - vm_base sample_info = 224"
    by (simp_all add: sample_info_def)
  show ?thesis
    using kext_map_builds_image [OF sample_lookup_total _ _ run, of "block_of f" 0]
    by (auto simp: len info)
qed





text \<open>For an accepted, sane extension, mapping, relocating and linking run to the end inside the
  block, the result is the mapped image with both relocation tables applied, and the three counters
  that XNU's own loader would act on are zero.\<close>

theorem kext_phases_finish:
  assumes "kext_parsed lookup f info" and "kext_symtabs_ok lookup f info st dst"
    and "kext_layout_sane f info dst" and "unat (file_size info) < 2 ^ 32"
    and "unat (vm_size info) \<le> rsize k0" and "rsize k0 < 2 ^ 32"
  shows "\<exists>k k'. kext_image (sa_for_ptr mh (kext info)) f k
    \<and> k' = kext_finished lookup mh slide f st dst info k
    \<and> kext_phases lookup mh slide f st dst k0 info
      = Some (Inr (k', info\<lparr>kmod_info := kext info + kmod_info info\<rparr>))
    \<and> word_at k' (dst + 68) = 0 \<and> word_at k' (dst + 76) = 0 \<and> word_at k' (st + 12) = 0"
  by (rule kext_phases_spec [OF assms, of mh slide])
     (use kext_finished_counters [OF assms(2,3), of mh slide] in blast)

theorem kext_phases_finish_witness:
  "\<exists>f k'. kext_phases sample_lookup 0 0 f 104 128 (block_of f) sample_info
     = Some (Inr (k', sample_info\<lparr>kmod_info := 224\<rparr>)) \<and> word_at k' 196 = 0"
proof (rule sample_parsed)
  fix f
  assume f: "kext_parsed sample_lookup f sample_info" "kext_symtabs_ok sample_lookup f sample_info 104 128"
    "kext_layout_sane f sample_info 128"
  have "vm_size sample_info = 448" "file_size sample_info = 289" "kext sample_info + kmod_info sample_info = 224"
    by (simp_all add: sample_info_def kext_load_info_zero_def)
  then show ?thesis
    using kext_phases_finish [OF f, of "block_of f" 0 0] by auto
qed

text \<open>\<open>format_hex\<close> writes exactly \<open>n\<close> bytes: the low \<open>n\<close> hexadecimal digits of the value, most
  significant first.\<close>

theorem format_hex_digits:
  assumes "buf + n \<le> rsize r"
  shows "\<exists>r'. format_hex r buf n v = Some r' \<and> rsize r' = rsize r
    \<and> rslice r' buf n = rev (map (\<lambda>i. hex_char ! unat (drop_bit (4 * i) v AND 0xf)) [0..<n])
    \<and> (\<forall>i. i < buf \<or> buf + n \<le> i \<longrightarrow> rbyte r' i = rbyte r i)"
proof -
  have "rslice (poke r buf (hex_digits n v)) buf n = hex_digits n v"
    by (rule nth_equalityI) (simp_all add: rbyte_poke)
  then show ?thesis
    using format_hex_spec [OF assms, of v] by (auto simp: rbyte_poke hex_digits_def hex_nibble_def [abs_def])
qed

theorem format_hex_digits_witness:
  "\<exists>r'. format_hex (region_of (replicate 8 0)) 2 4 0x1F3A = Some r' \<and> rslice r' 2 4 = bytes_of ''1f3a''"
proof -
  have "rev (map (\<lambda>i. hex_char ! unat (drop_bit (4 * i) (0x1F3A :: u64) AND 0xf)) [0..<4]) = bytes_of ''1f3a''"
    by code_simp
  with format_hex_digits [of 2 4 "region_of (replicate 8 0)" "0x1F3A"] show ?thesis by auto
qed

text \<open>When the section ends in the closing tags and has room, \<open>kext_insert\<close> puts the filled
  dictionary between the old content and the tags, adds its length to the section's size, counts the
  extension, and changes no other byte of the kernelcache.\<close>

theorem kext_insert_adds_dictionary:
  assumes "prelink_section mh slide r sec begin txt z" and "macho_get_section r = Some sec"
    and "begin + length txt + 1553 \<le> rsize r"
    and "sec + 48 \<le> begin \<or> begin + length txt + 1553 \<le> sec"
  shows "\<exists>r'. kext_insert mh slide macho_get_section info (r, kid) = Some (True, r', kid + 1)
    \<and> holds r' begin (txt @ prelink_info_filled (sa_for_ptr mh (kext info)) (vm_size info)
          (sa_for_ptr mh (kmod_info info)) (ucast kid) @ bytes_of prelink_tail @ [0])
    \<and> dword_at r' (sec + 40) = dword_at r (sec + 40) + 1537 \<and> rsize r' = rsize r
    \<and> (\<forall>i. i < begin + length txt \<or> begin + length txt + 1553 \<le> i \<longrightarrow> i < sec + 40 \<or> sec + 48 \<le> i
          \<longrightarrow> rbyte r' i = rbyte r i)"
  by (rule kext_insert_spec [where macho_get_section = macho_get_section and info = info and kid = kid, OF assms])
     blast

theorem kext_insert_adds_dictionary_witness:
  "\<exists>r'. kext_insert 0 0 (\<lambda>_. Some 0) sample_info (sample_kernelcache, 3) = Some (True, r', 4)
     \<and> holds r' 80 (bytes_of ''<array>'')"
proof -
  have "rsize sample_kernelcache = 3000" by (simp add: sample_kernelcache_def Let_def)
  then show ?thesis
    using kext_insert_adds_dictionary [OF sample_kernelcache_section, of "\<lambda>_. Some 0" sample_info 3,
        unfolded holds_append] by auto
qed

text \<open>C17: whatever is uploaded, the \<open>kextload\<close> command never touches memory outside its objects, as
  long as the symbol tables are well formed, the kernelcache has room and the extensions that pass
  the parser start at address 0 and patch nothing in their load commands; and what it reports is
  what it did: a refused upload leaves the kernelcache, the tables and the identifier as they were,
  resets the receive count and leaves the upload in the receive buffer with the split info commands
  destroyed that the parser had passed before it found the error; a loaded extension is the mapped,
  relocated and linked image of the checked file with its dictionary in the kernelcache and the next
  identifier taken.\<close>

theorem command_kextload_safe:
  assumes "pongo_ok ps" and "prelink_room env (mh_execute_header ps)"
    and "\<And>f info dst. kext_parse (kernelcache_symbol_table_lookup ps) (loader_xfer_recv_data ps)
        (ucast (loader_xfer_recv_count ps)) = Some (Inr (f, info)) \<Longrightarrow> dysymtab info = Some dst
        \<Longrightarrow> kext_layout_sane f info dst"
  shows "\<exists>res ps' kid'. command_kextload env ps kid = Some (res, ps', kid')
    \<and> kextload_outcome env ps kid res ps' kid'"
  by (rule command_kextload_total [OF assms, of kid]) blast+

text \<open>The sample upload is loaded.\<close>

theorem command_kextload_safe_witness:
  "\<exists>k ps'. command_kextload sample_env uploaded_pongo 0
     = Some (Kext_loaded k (uploaded_info\<lparr>kext := 0x5000, kmod_info := 0x50E0\<rparr>) True, ps', 1)"
proof -
  have st: "mh_execute_header uploaded_pongo = sample_kernelcache" "loader_xfer_recv_data uploaded_pongo = kext_upload"
    "ucast (loader_xfer_recv_count uploaded_pongo) = (0x4000 :: u64)"
    by (simp_all add: uploaded_pongo_def)
  have info: "dysymtab uploaded_info = Some 128" "kmod_info uploaded_info = 0xE0" "vm_size uploaded_info = 448"
    by (simp_all add: uploaded_info_def sample_info_def kext_load_info_zero_def)
  obtain k0 where alloc: "kext_alloc (e_alloc_static sample_env) uploaded_info = Inr (k0, uploaded_info\<lparr>kext := 0x5000\<rparr>)"
    using kext_alloc_size_exact [of "vm_size uploaded_info"]
    by (simp add: kext_alloc_def Let_def sample_env_def info not_less [symmetric])
  have same: "uploaded_info\<lparr>kext := x\<rparr> = uploaded_info\<lparr>kext := y\<rparr> \<longleftrightarrow> x = y" for x y
    by (simp add: uploaded_info_def sample_info_def kext_load_info_zero_def)
  have "\<exists>res ps' kid'. command_kextload sample_env uploaded_pongo 0 = Some (res, ps', kid')
      \<and> kextload_outcome sample_env uploaded_pongo 0 res ps' kid'"
    by (rule command_kextload_safe [OF uploaded_pongo_ok])
      (use sample_prelink_room upload_parse upload_sane info in \<open>auto simp: st\<close>)
  then obtain res ps' kid' where run: "command_kextload sample_env uploaded_pongo 0 = Some (res, ps', kid')"
    and out: "kextload_outcome sample_env uploaded_pongo 0 res ps' kid'" by blast
  show ?thesis
  proof (cases res)
    case (Kext_loaded k info' ok)
    with run out alloc show ?thesis
      by (auto simp: kextload_outcome_def Let_def st upload_parse info same)
  qed (use out alloc in \<open>auto simp: kextload_outcome_def Let_def st upload_parse\<close>)
qed

text \<open>The conversions between static addresses, slid addresses and pongoOS pointers are inverse to
  each other, for every header address and slide.\<close>

theorem pointer_conversions_inverse:
  "ptr_for_va mh slide (va_for_ptr mh slide ptr) = ptr \<and> va_for_ptr mh slide (ptr_for_va mh slide va) = va
   \<and> sa_for_ptr mh (ptr_for_sa mh sa) = sa \<and> ptr_for_sa mh (sa_for_ptr mh ptr) = ptr
   \<and> sa_for_va slide (va_for_sa slide sa) = sa
   \<and> pa_for_ptr mh virt phys ptr - phys = sa_for_ptr mh ptr - virt"
  by (simp add: pointer_roundtrips) (simp add: ptr_for_sa_def sa_for_ptr_def sa_for_va_def va_for_sa_def pa_for_ptr_def)

section \<open>Extensions that do not start at address 0\<close>

lemma based_kext_parse:
  "map_option (map_sum fst (\<lambda>(f, info). (vm_base info, locrel info, vm_size info, [word_at f 204, word_at f 264, word_at f 268])))
     (kext_parse sample_lookup (region_of (kext_bytes 256 128 100)) 289)
   = Some (Inr (256, 264, 448, [1, 100, 0x06000001]))"
  by code_simp

text \<open>C40: the parser checks \<open>vm_base + r_address\<close> against the size of the image, but relocation goes to
  \<open>r_address - vm_base\<close>: an extension based at 256 with a local relocation at 100 is accepted, and
  relocating any block that holds its header writes in front of the block.\<close>

theorem relocation_base_mismatch:
  "\<exists>f info. kext_parse sample_lookup (region_of (kext_bytes 256 128 100)) 289 = Some (Inr (f, info))
    \<and> kext_relocate mh slide f 104 128 (f\<lparr>rsize := 16384\<rparr>) info = None"
proof -
  obtain z where z: "kext_parse sample_lookup (region_of (kext_bytes 256 128 100)) 289 = Some z"
    and e: "map_sum fst (\<lambda>(f, info). (vm_base info, locrel info, vm_size info,
      [word_at f 204, word_at f 264, word_at f 268])) z = Inr (256, 264, 448, [1, 100, 0x06000001])"
    using based_kext_parse by (auto simp: map_option_eq_Some)
  obtain f info where fi: "z = Inr (f, info)"
    using e by (cases z) auto
  have info: "vm_base info = 256" "locrel info = 264" "word_at f 264 = 100" "word_at f 268 = 0x06000001"
    using e by (simp_all add: fi)
  have len: "rsize (region_of (kext_bytes 256 128 100)) = 289" by code_simp
  have "rsize f = 289"
    using kext_parse_accepted(1) [OF sample_lookup_total _ _ z [unfolded fi]] len by simp
  then have rd: "rd32 f 264 = Some 100" "rd32 f 268 = Some 0x06000001"
    using info by simp_all
  have off: "reloc_offset info 100 = 18446744073709551460"
    by (simp add: reloc_offset_def info)
  have bits: "\<not> r_extern 0x06000001" "r_length 0x06000001 = 3"
    by (simp_all add: r_extern_def r_length_def)
  have "kext_relocate_one s f info 0 k = None" if "rsize k < 2 ^ 32" for s k
    using that by (simp add: kext_relocate_one_def info rd bits off rd64_def)
  moreover have "word_at (f\<lparr>rsize := 16384\<rparr>) 204 = 1"
    using e by (simp add: fi word_at_def rslice_def)
  ultimately have "kext_relocate mh slide f 104 128 (f\<lparr>rsize := 16384\<rparr>) info = None"
    by (subst kext_relocate_def) (subst loop_u32.simps, simp add: Let_def)
  with z fi show ?thesis by blast
qed

end
