(* ===== verification/Log_Growth.thy ===== *)
theory Log_Growth
  imports Loader "HOL-Library.Sublist"
begin

text \<open>
  No operation of the loader forgets a call: the log it ends with extends the log it starts with.
\<close>

definition grows :: "io_log \<Rightarrow> 'r \<times> io_log \<Rightarrow> bool" where
  "grows l0 x \<longleftrightarrow> suffix l0 (snd x)"

lemma suffix_perform: "suffix l0 l \<Longrightarrow> suffix l0 (perform env c l)"
  by (simp add: perform_cons suffix_ConsI)

lemma suffix_log_host: "suffix l0 l \<Longrightarrow> suffix l0 (log_host ev l)"
  by (auto simp: log_host_def suffix_def)

lemma grows_result: "suffix l0 l \<Longrightarrow> grows l0 (r, l)"
  by (simp add: grows_def)

lemma grows_snd: "grows l0 x \<Longrightarrow> suffix l0 (snd x)"
  by (simp add: grows_def)

lemma grows_do_call: "suffix l0 l \<Longrightarrow> grows l0 (do_call env c l)"
  by (simp add: grows_def do_call_def Let_def suffix_ConsI)

lemma grows_bind:
  "grows l0 x \<Longrightarrow> (\<And>r l. suffix l0 l \<Longrightarrow> grows l0 (F r l)) \<Longrightarrow> grows l0 (let (r, l) = x in F r l)"
  by (simp add: grows_def split_beta)

lemma grows_let: "grows l0 (F v) \<Longrightarrow> grows l0 (let x = v in F x)"
  by (simp add: Let_def)

lemma grows_if: "grows l0 x \<Longrightarrow> grows l0 y \<Longrightarrow> grows l0 (if b then x else y)"
  by simp

lemma grows_option:
  "grows l0 x \<Longrightarrow> (\<And>a. grows l0 (f a)) \<Longrightarrow> grows l0 (case z of None \<Rightarrow> x | Some a \<Rightarrow> f a)"
  by (cases z) simp_all

lemma grows_sum:
  "(\<And>a. grows l0 (g a)) \<Longrightarrow> (\<And>a. grows l0 (f a)) \<Longrightarrow> grows l0 (case z of Inl a \<Rightarrow> g a | Inr a \<Rightarrow> f a)"
  by (cases z) simp_all

lemma grows_prod: "(\<And>a b. grows l0 (f a b)) \<Longrightarrow> grows l0 (case z of (a, b) \<Rightarrow> f a b)"
  by (cases z) simp

lemma grows_obind:
  "grows l0 x \<Longrightarrow> (\<And>a l. suffix l0 l \<Longrightarrow> grows l0 (k a l)) \<Longrightarrow> grows l0 (obind x k)"
  by (auto simp: grows_def obind_def split: sum.split prod.split)

lemma grows_usb: "grows l0 x \<Longrightarrow> grows l0 (usb x)"
  by (simp add: grows_def usb_def)

lemmas grows_intros = grows_bind grows_do_call grows_let grows_if grows_option grows_sum
  grows_prod grows_obind grows_usb grows_result suffix_perform suffix_log_host

section \<open>The USB device\<close>

lemma grows_usb_open_tries: "suffix l0 l \<Longrightarrow> grows l0 (usb_open_tries env d attempt l)"
proof (induction "PONGO_USB_OPEN_MAX_TRIES - attempt" arbitrary: attempt l rule: less_induct)
  case less
  show ?case
    by (subst usb_open_tries.simps, intro grows_bind grows_do_call less(2))
       (simp add: grows_result less(1) suffix_perform)
qed

lemma grows_usb_find_interface: "suffix l0 l \<Longrightarrow> grows l0 (usb_find_interface env d attempt l)"
proof (induction "PONGO_USB_OPEN_MAX_TRIES - attempt" arbitrary: attempt l rule: less_induct)
  case less
  show ?case
    by (subst usb_find_interface.simps, intro grows_bind grows_do_call less(2))
       (simp add: grows_result less(1) suffix_perform Let_def do_call_def suffix_ConsI)
qed

lemma grows_usb_fail:
  "suffix l0 l \<Longrightarrow> grows l0 (usb_fail_1 env d l)" "suffix l0 l \<Longrightarrow> grows l0 (usb_fail_2 env d l)"
  "suffix l0 l \<Longrightarrow> grows l0 (usb_fail_3 env d i l)" "suffix l0 l \<Longrightarrow> grows l0 (usb_fail_4 env d i l)"
  by (simp_all add: usb_fail_1_def usb_fail_2_def usb_fail_3_def usb_fail_4_def grows_def suffix_perform)

lemma grows_usb_finish_open: "suffix l0 l \<Longrightarrow> grows l0 (usb_finish_open env s ps d i l)"
  unfolding usb_finish_open_def by (intro grows_intros grows_usb_fail)

lemma grows_usb_open_interface: "suffix l0 l \<Longrightarrow> grows l0 (usb_open_interface env s ps d x l)"
  unfolding usb_open_interface_def by (intro grows_intros grows_usb_fail grows_usb_finish_open)

lemma grows_pongo_usb_open: "suffix l0 l \<Longrightarrow> grows l0 (pongo_usb_open env s ps l)"
  unfolding pongo_usb_open_def
  by (intro grows_intros grows_usb_fail grows_usb_open_tries grows_usb_find_interface grows_usb_open_interface)


lemma grows_pongo_usb_close: "suffix l0 l \<Longrightarrow> suffix l0 (pongo_usb_close env d l)"
  by (simp add: pongo_usb_close_def Let_def suffix_perform split: option.split)

lemma grows_device_request: "suffix l0 l \<Longrightarrow> grows l0 (device_request env d r l)"
  unfolding device_request_def by (intro grows_intros)

lemma grows_send_command: "suffix l0 l \<Longrightarrow> grows l0 (pongo_usb_send_command env d c n l)"
  unfolding pongo_usb_send_command_def by (intro grows_intros grows_device_request)

lemma grows_bulk:
  "suffix l0 l \<Longrightarrow> grows l0 (pongo_usb_init_bulk_upload env d l)"
  "suffix l0 l \<Longrightarrow> grows l0 (pongo_usb_discard_bulk_upload env d l)"
  by (simp_all add: pongo_usb_init_bulk_upload_def pongo_usb_discard_bulk_upload_def grows_device_request)

lemma grows_send_bulk_data: "suffix l0 l \<Longrightarrow> grows l0 (pongo_usb_send_bulk_data env d data l)"
  unfolding pongo_usb_send_bulk_data_def by (intro grows_intros grows_snd grows_bulk)

section \<open>The loading sequence\<close>

lemmas grows_transfers = grows_send_command grows_bulk grows_send_bulk_data

lemma grows_load:
  "suffix l0 l \<Longrightarrow> grows l0 (pongo_kext_load_init le cfg d l)"
  "suffix l0 l \<Longrightarrow> grows l0 (pongo_kext_load_symbols le cfg d l)"
  "suffix l0 l \<Longrightarrow> grows l0 (pongo_kext_load le d p l)"
  "suffix l0 l \<Longrightarrow> grows l0 (pongo_kext_boot_xnu le d l)"
  unfolding pongo_kext_load_init_def pongo_kext_load_symbols_def pongo_kext_load_def pongo_kext_boot_xnu_def
    kernelcache_symbol_table_destroy_def
  by ((intro grows_intros grows_transfers; assumption)+)

lemma grows_load_kexts: "suffix l0 l \<Longrightarrow> grows l0 (load_kexts le d ps l)"
proof (induction ps arbitrary: l)
  case (Cons p ps)
  then show ?case
    unfolding load_kexts.simps by (intro grows_obind grows_load grows_if grows_result)
qed (simp add: grows_result)

lemma grows_instance_load_kext: "suffix l0 l \<Longrightarrow> grows l0 (pongo_instance_load_kext le cfg i l)"
  unfolding pongo_instance_load_kext_def by (intro grows_obind grows_load grows_load_kexts grows_if grows_result)

lemma grows_instance_create: "suffix l0 l \<Longrightarrow> grows l0 (pongo_instance_create le s st l)"
  unfolding pongo_instance_create_def by (intro grows_intros grows_pongo_usb_open)

lemma grows_device_added_body: "suffix l0 l \<Longrightarrow> grows l0 (device_added_body le cfg s st l)"
  unfolding device_added_body_def split_beta by (intro grows_intros grows_instance_create grows_instance_load_kext)

lemma grows_instance_destroy: "suffix l0 l \<Longrightarrow> grows l0 (pongo_instance_destroy le s st l)"
  unfolding pongo_instance_destroy_def
  by (intro grows_option grows_prod grows_result suffix_perform grows_pongo_usb_close)

end
