(* ===== verification/Service_Iteration.thy ===== *)
theory Service_Iteration
  imports Loader_Spec Log_Growth
begin

text \<open>
  The loop that both notification callbacks of \<^verbatim>\<open>kext_loader.c\<close> are: take services from the
  iterator until it is empty, do something for each and release it. The relation \<open>drains\<close> is that
  loop for any body; the locales state what a body must promise and prove what the loop then keeps.
  They are interpreted on \<open>pongo_device_added\<close> and \<open>pongo_device_removed\<close>.
\<close>

inductive drains ::
  "io_env \<Rightarrow> nat \<Rightarrow> (nat \<Rightarrow> 'st \<Rightarrow> io_log \<Rightarrow> 'st outcome) \<Rightarrow> 'st \<Rightarrow> io_log \<Rightarrow> 'st outcome \<Rightarrow> bool"
  for env it body where
  drains_end: "env l (IOIteratorNext it) = (kr, 0)
     \<Longrightarrow> drains env it body st l (Inr st, (IOIteratorNext it, kr, 0) # l)"
| drains_stop: "env l (IOIteratorNext it) = (kr, s) \<Longrightarrow> s \<noteq> 0
     \<Longrightarrow> body s st ((IOIteratorNext it, kr, s) # l) = (Inl e, l') \<Longrightarrow> drains env it body st l (Inl e, l')"
| drains_next: "env l (IOIteratorNext it) = (kr, s) \<Longrightarrow> s \<noteq> 0
     \<Longrightarrow> body s st ((IOIteratorNext it, kr, s) # l) = (Inr st', l')
     \<Longrightarrow> drains env it body st' (perform env (IOObjectRelease s) l') r \<Longrightarrow> drains env it body st l r"

inductive_cases drains_elim: "drains env it body st l r"

section \<open>The interface\<close>

locale service_iteration =
  fixes env :: io_env and it :: nat
    and body :: "nat \<Rightarrow> 'st \<Rightarrow> io_log \<Rightarrow> 'st outcome"
    and drain :: "'st \<Rightarrow> io_log \<Rightarrow> 'st outcome option"
  assumes drain_iff: "drain st l = Some r \<longleftrightarrow> drains env it body st l r"
    and body_extends: "suffix l (snd (body s st l))"
begin

lemma body_extends_call: "body s st (e # l) = (x, l') \<Longrightarrow> suffix l l'"
  using body_extends [of "e # l" s st] by (metis snd_conv suffix_ConsD)

lemma drain_extends: "drains env it body st l r \<Longrightarrow> suffix l (snd r)"
proof (induction rule: drains.induct)
  case (drains_end l kr st)
  then show ?case by (simp add: suffix_ConsI)
next
  case (drains_stop l kr s st e l')
  from body_extends_call [OF drains_stop(3)] show ?case by simp
next
  case (drains_next l kr s st st' l' r)
  have "suffix l' (snd r)"
    using drains_next(5) unfolding perform_cons by (rule suffix_ConsD)
  with body_extends_call [OF drains_next(3)] show ?case
    by (rule suffix_order.trans)
qed

text \<open>An iterator that is empty after \<open>k\<close> calls ends the loop.\<close>

lemma drain_returns:
  assumes "\<And>l. k \<le> calls (IOIteratorNext it) l \<Longrightarrow> snd (env l (IOIteratorNext it)) = 0"
  shows "\<exists>r. drain st l = Some r"
proof -
  have "\<exists>r. drains env it body st l r"
  proof (induction "k - calls (IOIteratorNext it) l" arbitrary: st l rule: less_induct)
    case less
    obtain kr s where a: "env l (IOIteratorNext it) = (kr, s)" by fastforce
    show ?case
    proof (cases "s = 0")
      case True
      with a have "env l (IOIteratorNext it) = (kr, 0)" by simp
        then show ?thesis by (intro exI) (rule drains_end)
    next
      case s: False
      let ?l = "(IOIteratorNext it, kr, s) # l"
      obtain x l' where b: "body s st ?l = (x, l')" by fastforce
      show ?thesis
      proof (cases x)
        case (Inl e)
        show ?thesis by (intro exI) (rule drains_stop, use a s b Inl in simp_all)
      next
        case (Inr st')
        have "\<not> k \<le> calls (IOIteratorNext it) l" using assms [of l] a s by auto
        moreover have "calls (IOIteratorNext it) ?l \<le> calls (IOIteratorNext it) l'"
          using body_extends [of ?l s st] b by (auto simp: suffix_def calls_def count_list_append)
        ultimately have "k - calls (IOIteratorNext it) (perform env (IOObjectRelease s) l')
            < k - calls (IOIteratorNext it) l"
          by (simp add: perform_cons)
        then obtain r where "drains env it body st' (perform env (IOObjectRelease s) l') r"
          using less by blast
        then show ?thesis by (intro exI) (rule drains_next, use a s b Inr in simp_all)
      qed
    qed
  qed
  then show ?thesis by (simp add: drain_iff)
qed

end

text \<open>A body that keeps the books: what it owns besides the reference to its service.\<close>

locale owned_iteration = service_iteration env it body drain
  for env :: io_env and it :: nat and body :: "nat \<Rightarrow> 'st \<Rightarrow> io_log \<Rightarrow> 'st outcome" and drain +
  fixes owned :: "'st \<Rightarrow> resource multiset"
  assumes body_owns: "refs l = Some (H + owned st + {#Object_ref s#})
     \<Longrightarrow> owns (unless_stop (\<lambda>st' K. K = H + owned st' + {#Object_ref s#})) (body s st l)"
begin

lemma drains_owns:
  "drains env it body st l r \<Longrightarrow> refs l = Some (H + owned st)
     \<Longrightarrow> owns (unless_stop (\<lambda>st' K. K = H + owned st')) r"
proof (induction rule: drains.induct)
  case (drains_end l kr st)
  then show ?case by (simp add: owns_result)
next
  case (drains_stop l kr s st e l')
  then show ?case
    using body_owns [of "(IOIteratorNext it, kr, s) # l" H st s] by (auto simp: owns_def)
next
  case (drains_next l kr s st st' l' r)
  then have "refs ((IOIteratorNext it, kr, s) # l) = Some (H + owned st + {#Object_ref s#})"
    by simp
  from body_owns [OF this] drains_next(3) have "refs (perform env (IOObjectRelease s) l') = Some (H + owned st')"
    by (auto simp: owns_def refs_perform)
  then show ?case by (rule drains_next.IH)
qed

lemma drain_owns:
  "drain st l = Some r \<Longrightarrow> refs l = Some (H + owned st)
     \<Longrightarrow> owns (unless_stop (\<lambda>st' K. K = H + owned st')) r"
  using drains_owns by (simp add: drain_iff)

end

end
