(* ===== verification/Device_Notifications.thy ===== *)
theory Device_Notifications
  imports Service_Iteration
begin

text \<open>
  \<open>pongo_device_added\<close> and \<open>pongo_device_removed\<close> as service iterations: what they hold, that they
  end with their iterator, and the reference that closing a device releases without having taken it.
\<close>

section \<open>The callbacks are service iterations\<close>

lemma device_added_drains:
  "pongo_device_added le cfg it st l = Some r \<longleftrightarrow> drains (io le) it (device_added_body le cfg) st l r"
proof
  assume "pongo_device_added le cfg it st l = Some r"
  then show "drains (io le) it (device_added_body le cfg) st l r"
  proof (induction rule: pongo_device_added.raw_induct [rotated, consumes 1, case_names 1])
    case (1 f le cfg it st l r)
    obtain kr s where a: "io le l (IOIteratorNext it) = (kr, s)" by fastforce
    obtain x l' where b: "device_added_body le cfg s st ((IOIteratorNext it, kr, s) # l) = (x, l')"
      by fastforce
    show ?case
    proof (cases "s = 0")
      case True
      then show ?thesis
        using 1(2) a drains_end [of "io le" l it kr] by (auto simp: do_call_def Let_def)
    next
      case s: False
      show ?thesis
      proof (cases x)
        case (Inl e)
        then have "r = (Inl e, l')"
          using 1(2) a b s by (simp add: do_call_def Let_def)
        moreover have "drains (io le) it (device_added_body le cfg) st l (Inl e, l')"
          by (rule drains_stop [where kr = kr and s = s]) (use a s b Inl in simp_all)
        ultimately show ?thesis by simp
      next
        case (Inr st')
        then have "f le cfg it st' (perform (io le) (IOObjectRelease s) l') = Some r"
          using 1(2) a b s by (simp add: do_call_def Let_def)
        note d = 1(1) [OF this]
        show ?thesis
          by (rule drains_next [where kr = kr and s = s and st' = st' and l' = l'])
             (use a s b Inr d in simp_all)
      qed
    qed
  qed
next
  show "drains (io le) it (device_added_body le cfg) st l r \<Longrightarrow> pongo_device_added le cfg it st l = Some r"
    by (induction rule: drains.induct) (simp_all add: pongo_device_added.simps do_call_def Let_def)
qed

lemma device_removed_drains:
  "pongo_device_removed le it st l = Some r \<longleftrightarrow> drains (io le) it (pongo_instance_destroy le) st l r"
proof
  assume "pongo_device_removed le it st l = Some r"
  then show "drains (io le) it (pongo_instance_destroy le) st l r"
  proof (induction rule: pongo_device_removed.raw_induct [rotated, consumes 1, case_names 1])
    case (1 f le it st l r)
    obtain kr s where a: "io le l (IOIteratorNext it) = (kr, s)" by fastforce
    obtain x l' where b: "pongo_instance_destroy le s st ((IOIteratorNext it, kr, s) # l) = (x, l')"
      by fastforce
    show ?case
    proof (cases "s = 0")
      case True
      then show ?thesis
        using 1(2) a drains_end [of "io le" l it kr] by (auto simp: do_call_def Let_def)
    next
      case s: False
      show ?thesis
      proof (cases x)
        case (Inl e)
        then have "r = (Inl e, l')"
          using 1(2) a b s by (simp add: do_call_def Let_def)
        moreover have "drains (io le) it (pongo_instance_destroy le) st l (Inl e, l')"
          by (rule drains_stop [where kr = kr and s = s]) (use a s b Inl in simp_all)
        ultimately show ?thesis by simp
      next
        case (Inr st')
        then have "f le it st' (perform (io le) (IOObjectRelease s) l') = Some r"
          using 1(2) a b s by (simp add: do_call_def Let_def)
        note d = 1(1) [OF this]
        show ?thesis
          by (rule drains_next [where kr = kr and s = s and st' = st' and l' = l'])
             (use a s b Inr d in simp_all)
      qed
    qed
  qed
next
  show "drains (io le) it (pongo_instance_destroy le) st l r \<Longrightarrow> pongo_device_removed le it st l = Some r"
    by (induction rule: drains.induct) (simp_all add: pongo_device_removed.simps do_call_def Let_def)
qed

interpretation removed: service_iteration "io le" it "pongo_instance_destroy le" "pongo_device_removed le it"
  for le it
  by unfold_locales (auto simp: device_removed_drains intro: grows_snd grows_instance_destroy)

interpretation added: owned_iteration "io le" it "device_added_body le cfg" "pongo_device_added le cfg it" tracked
  for le it cfg
  by unfold_locales
     (auto simp: device_added_drains simp del: add_mset_add_single
      intro: grows_snd grows_device_added_body owns_device_added_body)


section \<open>Removing a device\<close>

definition serves :: "nat \<Rightarrow> pongo_instance \<Rightarrow> bool" where
  "serves s i \<longleftrightarrow> service (inst_device i) = s"

lemma unlink_instance_None: "unlink_instance s is = None \<longleftrightarrow> (\<forall>i\<in>set is. \<not> serves s i)"
  by (induction "is") (auto simp: pongo_usb_matches_service_def serves_def)

lemma unlink_instance_Some:
  "unlink_instance s is = Some (i, rest) \<longleftrightarrow>
     (\<exists>before after. is = before @ i # after \<and> rest = before @ after \<and> serves s i \<and> (\<forall>j\<in>set before. \<not> serves s j))"
proof (induction "is" arbitrary: rest)
  case Nil
  show ?case by simp
next
  case (Cons j js)
  show ?case
  proof (cases "serves s j")
    case True
    have "(\<exists>before after. j # js = before @ i # after \<and> rest = before @ after \<and> serves s i
        \<and> (\<forall>x\<in>set before. \<not> serves s x)) \<longleftrightarrow> j = i \<and> js = rest"
      using True by (auto simp: Cons_eq_append_conv intro: exI [of _ "[]"])
    then show ?thesis
      using True by (auto simp: pongo_usb_matches_service_def serves_def)
  next
    case False
    then have "unlink_instance s (j # js) = Some (i, rest) \<longleftrightarrow>
        (\<exists>rest'. unlink_instance s js = Some (i, rest') \<and> rest = j # rest')"
      by (auto simp: pongo_usb_matches_service_def serves_def)
    also have "\<dots> \<longleftrightarrow> (\<exists>before after. j # js = before @ i # after \<and> rest = before @ after \<and> serves s i
        \<and> (\<forall>x\<in>set before. \<not> serves s x))"
      unfolding Cons.IH using False
      by (auto simp: Cons_eq_append_conv) (metis append_Cons list.set_intros set_ConsD)+
    finally show ?thesis .
  qed
qed

lemma tracked_no_object [simp]: "Object_ref s \<notin># tracked st"
proof -
  have "Object_ref s \<notin># sum_list (map inst_resources is)" for "is"
    by (induction "is") (simp_all add: inst_resources_def usb_resources_def)
  then show ?thesis by (simp add: tracked_def)
qed

lemma refs_None_suffix: "suffix l l' \<Longrightarrow> refs l = None \<Longrightarrow> refs l' = None"
proof -
  have "refs l = None \<Longrightarrow> refs (ev @ l) = None" for ev
    by (induction ev) simp_all
  then show "suffix l l' \<Longrightarrow> refs l = None \<Longrightarrow> refs l' = None"
    by (auto simp: suffix_def)
qed

lemma refs_destroy_tracked:
  assumes l: "refs l = Some (H + tracked st + {#Object_ref s#})"
    and u: "unlink_instance s (instances st) = Some (i, rest)" "usable s (inst_device i)" "s \<noteq> 0"
  shows "pongo_instance_destroy le s st l = (x, l') \<Longrightarrow>
    x = Inr (st\<lparr>instances := rest\<rparr>) \<and> refs l' = Some (H + tracked (st\<lparr>instances := rest\<rparr>))"
proof -
  obtain before after where split: "instances st = before @ i # after" "rest = before @ after"
    using u(1) by (auto simp: unlink_instance_Some)
  have "refs l = Some (H + tracked (st\<lparr>instances := rest\<rparr>) + {#Memory (inst_ptr i)#}
      + usb_resources (inst_device i) + {#Object_ref (service (inst_device i))#})"
    using l u(2) by (simp add: tracked_def split inst_resources_def usable_def ac_simps)
  from refs_pongo_usb_close [OF this] have
    "refs (pongo_usb_close (io le) (Some (inst_device i)) l) =
      Some (H + tracked (st\<lparr>instances := rest\<rparr>) + {#Memory (inst_ptr i)#})"
    using u(2,3) by (simp add: usable_def)
  then show "pongo_instance_destroy le s st l = (x, l') \<Longrightarrow> ?thesis"
    using u(1) by (auto simp: pongo_instance_destroy_def refs_perform)
qed


text \<open>
  The reference that \<open>pongo_usb_close\<close> releases is not one \<open>pongo_usb_open\<close> took: when a tracked
  device goes away and the iterator's reference is the only one, the second release finds nothing.
\<close>

lemma removed_over_release:
  assumes l: "refs l = Some (H + tracked st)" "Object_ref s \<notin># H"
    and it: "io le l (IOIteratorNext it) = (kr, s)" "s \<noteq> 0"
    and u: "unlink_instance s (instances st) = Some (i, rest)" "usable s (inst_device i)"
    and r: "pongo_device_removed le it st l = Some (x, l')"
  shows "refs l' = None"
proof -
  let ?l = "(IOIteratorNext it, kr, s) # l"
  let ?st = "st\<lparr>instances := rest\<rparr>"
  have "refs ?l = Some (H + tracked st + {#Object_ref s#})"
    using l it by simp
  from refs_destroy_tracked [OF this u it(2), where le = le]
  obtain l1 where b: "pongo_instance_destroy le s st ?l = (Inr ?st, l1)" and l1: "refs l1 = Some (H + tracked ?st)"
    by (cases "pongo_instance_destroy le s st ?l") auto
  let ?l1 = "perform (io le) (IOObjectRelease s) l1"
  have "refs ?l1 = None"
    using l1 l(2) by (simp add: perform_cons)
  moreover have "pongo_device_removed le it ?st ?l1 = Some (x, l')"
    using r it b by (subst (asm) pongo_device_removed.simps) (simp add: do_call_def Let_def)
  then have "suffix ?l1 l'"
    using removed.drain_extends by (auto simp: device_removed_drains)
  ultimately show ?thesis by (rule refs_None_suffix [rotated])
qed

text \<open>Services that no instance tracks are only taken and released.\<close>

lemma removed_untracked:
  assumes "\<And>l. \<forall>i\<in>set (instances st). \<not> serves (snd (io le l (IOIteratorNext it))) i"
  shows "pongo_device_removed le it st l = Some (x, l') \<Longrightarrow> refs l = Some H
    \<Longrightarrow> x = Inr st \<and> refs l' = Some H"
proof -
  have "drains env it body st l r \<Longrightarrow> env = io le \<Longrightarrow> body = pongo_instance_destroy le
      \<Longrightarrow> (\<And>l. \<forall>i\<in>set (instances st). \<not> serves (snd (io le l (IOIteratorNext it))) i)
      \<Longrightarrow> refs l = Some H \<Longrightarrow> fst r = Inr st \<and> refs (snd r) = Some H" for env body r st l
  proof (induction rule: drains.induct)
    case (drains_end l kr st)
    then show ?case by simp
  next
    case (drains_stop l kr s st e l')
    then show ?case
      by (auto simp: pongo_instance_destroy_def split: option.splits)
  next
    case (drains_next l kr s st st' l' r)
    have "unlink_instance s (instances st) = None"
      using drains_next(8) [of l] drains_next(1,6) by (simp add: unlink_instance_None)
    then have "st' = st" "l' = (IOIteratorNext it, kr, s) # l"
      using drains_next(3,7) by (auto simp: pongo_instance_destroy_def)
    then show ?case
      using drains_next by (simp add: perform_cons)
  qed
  then show "pongo_device_removed le it st l = Some (x, l') \<Longrightarrow> refs l = Some H
      \<Longrightarrow> x = Inr st \<and> refs l' = Some H"
    using assms by (fastforce simp: device_removed_drains)
qed

end
