(* ===== verification/Loader_Args.thy ===== *)
theory Loader_Args
  imports Loader
begin

text \<open>
  \<open>main\<close> of \<^verbatim>\<open>kext_loader.c\<close>: the command line, the checks on it and the call of the main
  loop. Every \<open>exit(1)\<close> is an error value that says which message was printed. The global path
  variables are a record; whether \<open>access\<close> succeeds is a parameter.
\<close>

datatype access_mode = R_OK | X_OK

datatype missing_argument = No_module | No_symbols | No_kext

datatype main_error =
    Usage
  | Second_module
  | Unreadable string
  | Missing "missing_argument list"

record main_paths =
  module_path :: "string option"
  symbols_paths :: "string list"
  kext_paths :: "string list"

definition no_paths :: main_paths where
  "no_paths = \<lparr>module_path = None, symbols_paths = [], kext_paths = []\<rparr>"

definition set_pongo_kextload_path :: "string \<Rightarrow> main_paths \<Rightarrow> main_paths" where
  "set_pongo_kextload_path path g = g\<lparr>module_path := Some path\<rparr>"

definition set_kernelcache_symbols_path :: "string \<Rightarrow> main_paths \<Rightarrow> main_paths" where
  "set_kernelcache_symbols_path path g = g\<lparr>symbols_paths := symbols_paths g @ [path]\<rparr>"

definition set_kext_path :: "string \<Rightarrow> main_paths \<Rightarrow> main_paths" where
  "set_kext_path path g = g\<lparr>kext_paths := kext_paths g @ [path]\<rparr>"

definition path_accessible :: "(string \<Rightarrow> access_mode \<Rightarrow> bool) \<Rightarrow> string \<Rightarrow> access_mode \<Rightarrow> main_error + unit" where
  "path_accessible access path mode = (if access path mode then Inr () else Inl (Unreadable path))"

definition handle_pongo_kextload_path ::
  "(string \<Rightarrow> access_mode \<Rightarrow> bool) \<Rightarrow> string \<Rightarrow> main_paths \<Rightarrow> main_error + main_paths" where
  "handle_pongo_kextload_path access path g =
     (if module_path g \<noteq> None then Inl Second_module
      else
        (case path_accessible access path R_OK of
           Inl e \<Rightarrow> Inl e
         | Inr _ \<Rightarrow> Inr (set_pongo_kextload_path path g)))"

definition handle_symbols_path ::
  "(string \<Rightarrow> access_mode \<Rightarrow> bool) \<Rightarrow> string \<Rightarrow> main_paths \<Rightarrow> main_error + main_paths" where
  "handle_symbols_path access path g =
     (case path_accessible access path X_OK of
        Inl e \<Rightarrow> Inl e
      | Inr _ \<Rightarrow> Inr (set_kernelcache_symbols_path path g))"

definition handle_kext_path ::
  "(string \<Rightarrow> access_mode \<Rightarrow> bool) \<Rightarrow> string \<Rightarrow> main_paths \<Rightarrow> main_error + main_paths" where
  "handle_kext_path access path g =
     (case path_accessible access path R_OK of
        Inl e \<Rightarrow> Inl e
      | Inr _ \<Rightarrow> Inr (set_kext_path path g))"

text \<open>The argument loop; \<open>next_arg\<close> without an argument left is the usage message.\<close>

fun parse_args ::
  "(string \<Rightarrow> access_mode \<Rightarrow> bool) \<Rightarrow> string list \<Rightarrow> main_paths \<Rightarrow> main_error + main_paths" where
  "parse_args access [] g = Inr g"
| "parse_args access [arg] g = Inl Usage"
| "parse_args access (arg # path # args) g =
     (case (if arg = ''-l'' then handle_pongo_kextload_path access path g
            else if arg = ''-s'' then handle_symbols_path access path g
            else if arg = ''-k'' then handle_kext_path access path g
            else Inl Usage) of
        Inl e \<Rightarrow> Inl e
      | Inr g' \<Rightarrow> parse_args access args g')"

definition missing_arguments :: "main_paths \<Rightarrow> missing_argument list" where
  "missing_arguments g =
     (if module_path g = None then [No_module] else [])
     @ (if length (symbols_paths g) = 0 then [No_symbols] else [])
     @ (if length (kext_paths g) = 0 then [No_kext] else [])"

text \<open>\<open>args\<close> is \<open>argv\<close> without the program name.\<close>

definition main_config ::
  "(string \<Rightarrow> access_mode \<Rightarrow> bool) \<Rightarrow> string list \<Rightarrow> main_error + loader_config" where
  "main_config access args =
     (if args = [] then Inl Usage
      else
        (case parse_args access args no_paths of
           Inl e \<Rightarrow> Inl e
         | Inr g \<Rightarrow>
             (if missing_arguments g \<noteq> [] then Inl (Missing (missing_arguments g))
              else Inr \<lparr>pongo_kextload_path = the (module_path g),
                        kernelcache_symbols_path = symbols_paths g, kext_path = kext_paths g\<rparr>)))"

text \<open>The exit status, unless the loader stops in an assertion or fault.\<close>

definition loader_main ::
  "loader_env \<Rightarrow> (string \<Rightarrow> access_mode \<Rightarrow> bool) \<Rightarrow> string list \<Rightarrow> io_log \<Rightarrow> int outcome option" where
  "loader_main le access args l =
     (case main_config access args of
        Inl _ \<Rightarrow> Some (Inr 1, l)
      | Inr cfg \<Rightarrow>
          (case pongo_usb_kext_loader le cfg l of
             None \<Rightarrow> None
           | Some (Inl e, l) \<Rightarrow> Some (Inl e, l)
           | Some (Inr _, l) \<Rightarrow> Some (Inr 0, l)))"

section \<open>Command lines\<close>

text \<open>The options of a command line and how they are written.\<close>

datatype loader_option = Opt_l string | Opt_s string | Opt_k string

fun render_option :: "loader_option \<Rightarrow> string list" where
  "render_option (Opt_l p) = [''-l'', p]"
| "render_option (Opt_s p) = [''-s'', p]"
| "render_option (Opt_k p) = [''-k'', p]"

definition opts_l :: "loader_option list \<Rightarrow> string list" where
  "opts_l os = List.map_filter (\<lambda>x. case x of Opt_l p \<Rightarrow> Some p | _ \<Rightarrow> None) os"

definition opts_s :: "loader_option list \<Rightarrow> string list" where
  "opts_s os = List.map_filter (\<lambda>x. case x of Opt_s p \<Rightarrow> Some p | _ \<Rightarrow> None) os"

definition opts_k :: "loader_option list \<Rightarrow> string list" where
  "opts_k os = List.map_filter (\<lambda>x. case x of Opt_k p \<Rightarrow> Some p | _ \<Rightarrow> None) os"

lemmas opts_defs = opts_l_def opts_s_def opts_k_def

lemma opts_simps [simp]:
  "opts_l [] = []" "opts_s [] = []" "opts_k [] = []"
  "opts_l (Opt_l p # os) = p # opts_l os" "opts_l (Opt_s p # os) = opts_l os" "opts_l (Opt_k p # os) = opts_l os"
  "opts_s (Opt_l p # os) = opts_s os" "opts_s (Opt_s p # os) = p # opts_s os" "opts_s (Opt_k p # os) = opts_s os"
  "opts_k (Opt_l p # os) = opts_k os" "opts_k (Opt_s p # os) = opts_k os" "opts_k (Opt_k p # os) = p # opts_k os"
  by (simp_all add: opts_defs)

text \<open>What the options must satisfy to be taken, from a module path that may be set already.\<close>

definition options_ok :: "(string \<Rightarrow> access_mode \<Rightarrow> bool) \<Rightarrow> string option \<Rightarrow> loader_option list \<Rightarrow> bool" where
  "options_ok access m os \<longleftrightarrow>
     length (opts_l os) \<le> (if m = None then 1 else 0)
     \<and> list_all (\<lambda>p. access p R_OK) (opts_l os) \<and> list_all (\<lambda>p. access p X_OK) (opts_s os)
     \<and> list_all (\<lambda>p. access p R_OK) (opts_k os)"

lemmas handle_defs = handle_pongo_kextload_path_def handle_symbols_path_def handle_kext_path_def
  path_accessible_def set_pongo_kextload_path_def set_kernelcache_symbols_path_def set_kext_path_def

lemma parse_args_render_Cons:
  "parse_args access (render_option x @ args) g =
     (case (case x of Opt_l p \<Rightarrow> handle_pongo_kextload_path access p g
            | Opt_s p \<Rightarrow> handle_symbols_path access p g
            | Opt_k p \<Rightarrow> handle_kext_path access p g) of
        Inl e \<Rightarrow> Inl e
      | Inr g' \<Rightarrow> parse_args access args g')"
  by (cases x) simp_all

text \<open>Only command lines made of options are taken.\<close>

lemma parse_args_rendered:
  "parse_args access args g = Inr g' \<Longrightarrow> \<exists>os. args = concat (map render_option os)"
proof (induction access args g rule: parse_args.induct)
  case (1 access g)
  show ?case by (rule exI [of _ "[]"]) simp
next
  case (2 access arg g)
  then show ?case by simp
next
  case (3 access arg path args g)
  obtain os where os: "args = concat (map render_option os)"
    using 3 by (auto split: sum.splits)
  from 3(2) have "arg \<in> {''-l'', ''-s'', ''-k''}"
    by (auto split: if_splits)
  then obtain x where "render_option x = [arg, path]"
    using render_option.simps by (metis empty_iff insert_iff)
  with os show ?case
    by (intro exI [of _ "x # os"]) simp
qed

text \<open>The paths that a list of options leaves.\<close>

definition with_options :: "loader_option list \<Rightarrow> main_paths \<Rightarrow> main_paths" where
  "with_options os g =
     \<lparr>module_path = (if opts_l os = [] then module_path g else Some (hd (opts_l os))),
      symbols_paths = symbols_paths g @ opts_s os, kext_paths = kext_paths g @ opts_k os\<rparr>"

lemma parse_args_options:
  "parse_args access (concat (map render_option os)) g = Inr g' \<longleftrightarrow>
     options_ok access (module_path g) os \<and> g' = with_options os g"
proof (induction os arbitrary: g)
  case Nil
  show ?case by (cases g) (auto simp: options_ok_def with_options_def)
next
  case (Cons x os)
  show ?case
  proof (cases x)
    case (Opt_l p)
    then show ?thesis
      using Cons.IH [of "g\<lparr>module_path := Some p\<rparr>"]
      by (cases "module_path g"; cases "access p R_OK")
         (simp_all add: parse_args_render_Cons handle_defs options_ok_def with_options_def)
  next
    case (Opt_s p)
    then show ?thesis
      using Cons.IH [of "g\<lparr>symbols_paths := symbols_paths g @ [p]\<rparr>"]
      by (cases "access p X_OK")
         (simp_all add: parse_args_render_Cons handle_defs options_ok_def with_options_def)
  next
    case (Opt_k p)
    then show ?thesis
      using Cons.IH [of "g\<lparr>kext_paths := kext_paths g @ [p]\<rparr>"]
      by (cases "access p R_OK")
         (simp_all add: parse_args_render_Cons handle_defs options_ok_def with_options_def)
  qed
qed

lemma main_config_iff:
  "main_config access args = Inr cfg \<longleftrightarrow>
     (\<exists>os m. args = concat (map render_option os) \<and> options_ok access None os
        \<and> opts_l os = [m] \<and> opts_s os \<noteq> [] \<and> opts_k os \<noteq> []
        \<and> cfg = \<lparr>pongo_kextload_path = m, kernelcache_symbols_path = opts_s os, kext_path = opts_k os\<rparr>)"
    (is "?lhs \<longleftrightarrow> ?rhs")
proof
  assume lhs: ?lhs
  then obtain g where g: "parse_args access args no_paths = Inr g" "missing_arguments g = []"
    and cfg: "cfg = \<lparr>pongo_kextload_path = the (module_path g), kernelcache_symbols_path = symbols_paths g,
      kext_path = kext_paths g\<rparr>"
    by (auto simp: main_config_def split: if_splits sum.splits)
  from g(1) obtain os where os: "args = concat (map render_option os)"
    using parse_args_rendered by blast
  with g(1) have ok: "options_ok access None os" and "g = with_options os no_paths"
    by (simp_all add: parse_args_options no_paths_def)
  with g(2) have "opts_l os \<noteq> []" "opts_s os \<noteq> []" "opts_k os \<noteq> []"
    by (auto simp: missing_arguments_def with_options_def no_paths_def split: if_splits)
  moreover from this ok have "opts_l os = [hd (opts_l os)]"
    by (cases "opts_l os") (simp_all add: options_ok_def)
  ultimately show ?rhs
    using os ok cfg \<open>g = _\<close> by (intro exI [of _ os] exI [of _ "hd (opts_l os)"]) (simp add: with_options_def no_paths_def)
next
  assume ?rhs
  then obtain os m where os: "args = concat (map render_option os)" "options_ok access None os"
    "opts_l os = [m]" "opts_s os \<noteq> []" "opts_k os \<noteq> []"
    and cfg: "cfg = \<lparr>pongo_kextload_path = m, kernelcache_symbols_path = opts_s os, kext_path = opts_k os\<rparr>"
    by blast
  moreover have "args \<noteq> []" using os by (cases os; cases "hd os") auto
  ultimately show ?lhs
    by (simp add: main_config_def parse_args_options [THEN iffD2] no_paths_def missing_arguments_def with_options_def)
qed

end
