(* ===== verification/Loader_Run.thy ===== *)
theory Loader_Run
  imports Device_Notifications Loader_Args
begin

text \<open>
  The main loop of \<^verbatim>\<open>kext_loader.c\<close>: it returns only with failure, and in a run in which no device
  was reported as removed everything the loop and its callbacks took has then been given back through
  the cleanup ladder, except the tracked devices. Devices do go away (the loader boots them); what a
  removal does to the books is the subject of \<^verbatim>\<open>Device_Notifications\<close>.
\<close>

text \<open>In this run the iterator \<open>it\<close> never delivered a service.\<close>

definition delivers_none :: "nat \<Rightarrow> io_log \<Rightarrow> bool" where
  "delivers_none it l \<longleftrightarrow> (\<forall>kr s. (IOIteratorNext it, kr, s) \<in> set l \<longrightarrow> s = 0)"

text \<open>No device was reported as removed: every iterator that the run registered for that stayed empty.\<close>

definition no_removal_reported :: "io_log \<Rightarrow> bool" where
  "no_removal_reported l \<longleftrightarrow>
     (\<forall>np d kr it. (IOServiceAddMatchingNotification np d False, kr, it) \<in> set l \<longrightarrow> delivers_none it l)"

lemma delivers_none_suffix: "suffix l l' \<Longrightarrow> delivers_none it l' \<Longrightarrow> delivers_none it l"
  using set_mono_suffix by (fastforce simp: delivers_none_def)

lemma no_removal_suffix: "suffix l l' \<Longrightarrow> no_removal_reported l' \<Longrightarrow> no_removal_reported l"
  using set_mono_suffix delivers_none_suffix by (fastforce simp: no_removal_reported_def)

abbreviation tracks :: "resource multiset \<Rightarrow> pongo_kext_loader_state \<Rightarrow> resource multiset \<Rightarrow> bool" where
  "tracks H st K \<equiv> K = H + tracked st"

text \<open>An iterator that delivers nothing leaves the state alone.\<close>

lemma removed_nothing:
  assumes "pongo_device_removed le removed st l = Some r" and "delivers_none removed (snd r)"
  shows "\<exists>kr. r = (Inr st, (IOIteratorNext removed, kr, 0) # l)"
proof -
  have "drains (io le) removed (pongo_instance_destroy le) st l r"
    using assms(1) by (simp add: device_removed_drains)
  then show ?thesis
  proof (cases rule: drains.cases)
    case (drains_end kr)
    then show ?thesis by blast
  next
    case (drains_stop kr s e l')
    then have "(IOIteratorNext removed, kr, s) \<in> set l'"
      using removed.body_extends [of "(IOIteratorNext removed, kr, s) # l" le s st] set_mono_suffix
      by (metis list.set_intros(1) snd_conv subsetD)
    then show ?thesis using drains_stop(1,3) assms(2) by (auto simp: delivers_none_def)
  next
    case (drains_next kr s st' l')
    have "suffix ((IOIteratorNext removed, kr, s) # l) l'"
      using removed.body_extends [of "(IOIteratorNext removed, kr, s) # l" le s st] drains_next(3) by simp
    moreover have "suffix l' (snd r)"
      using removed.drain_extends [OF drains_next(4)] unfolding perform_cons by (rule suffix_ConsD)
    ultimately have "(IOIteratorNext removed, kr, s) \<in> set (snd r)"
      using set_mono_suffix by (metis list.set_intros(1) subsetD)
    then show ?thesis using drains_next(2) assms(2) by (auto simp: delivers_none_def)
  qed
qed

text \<open>What the two loops promise: no call is forgotten, and a run in which the iterator \<open>removed\<close> stayed
  empty holds exactly what it held, the tracked devices included.\<close>

definition quiet_owns :: "nat \<Rightarrow> resource multiset \<Rightarrow> pongo_kext_loader_state \<Rightarrow> io_log
    \<Rightarrow> pongo_kext_loader_state outcome \<Rightarrow> bool" where
  "quiet_owns removed H st l r \<longleftrightarrow> suffix l (snd r)
     \<and> (delivers_none removed (snd r) \<longrightarrow> refs l = Some (H + tracked st) \<longrightarrow> owns (unless_stop (tracks H)) r)"

text \<open>A step that stops or hands on the state, and what follows it.\<close>

lemma quiet_then:
  assumes "quiet_owns removed H st l (x, l2)"
    and "case x of Inl e \<Rightarrow> r = (Inl e, l2) | Inr st' \<Rightarrow> quiet_owns removed H st' l2 r"
  shows "quiet_owns removed H st l r"
proof (cases x)
  case (Inl e)
  with assms show ?thesis by (simp add: quiet_owns_def)
next
  case (Inr st')
  then have n: "quiet_owns removed H st' l2 r" using assms(2) by simp
  then have "suffix l (snd r)"
    using assms(1) suffix_order.trans by (fastforce simp: quiet_owns_def)
  moreover have "owns (unless_stop (tracks H)) r" if q: "delivers_none removed (snd r)" "refs l = Some (H + tracked st)"
  proof -
    have "delivers_none removed l2" using n q(1) delivers_none_suffix by (auto simp: quiet_owns_def)
    then have "refs l2 = Some (H + tracked st')"
      using assms(1) q(2) Inr by (simp add: quiet_owns_def owns_def)
    with n q(1) show ?thesis by (simp add: quiet_owns_def)
  qed
  ultimately show ?thesis by (simp add: quiet_owns_def)
qed

lemma quiet_call:
  assumes "releases c = {#}" and "\<And>a. acquires c a = {#}"
  shows "quiet_owns removed H st l (Inr st, (c, a) # l)"
  using assms by (cases a) (auto simp: quiet_owns_def owns_def suffix_ConsI)

lemma quiet_added: "pongo_device_added le cfg it st l = Some r \<Longrightarrow> quiet_owns removed H st l r"
  using added.drain_extends [of le it cfg st l r] added.drain_owns [of le cfg it st l r H]
  by (simp add: quiet_owns_def device_added_drains)

lemma quiet_removed:
  assumes "pongo_device_removed le removed st l = Some r"
  shows "quiet_owns removed H st l r"
proof -
  have "suffix l (snd r)" using assms removed.drain_extends by (simp add: device_removed_drains)
  moreover have "owns (unless_stop (tracks H)) r" if q: "delivers_none removed (snd r)" "refs l = Some (H + tracked st)"
    using removed_nothing [OF assms q(1)] q(2) by (auto simp: owns_def)
  ultimately show ?thesis by (simp add: quiet_owns_def)
qed

lemma handle_owns:
  assumes "handle_notification_message le cfg added removed st l = Some r"
  shows "quiet_owns removed H st l r"
  using assms
proof (induction rule: handle_notification_message.raw_induct [rotated, consumes 1, case_names step])
  case (step f le cfg added removed st l r)
  let ?c = "mach_msg (port_set st)"
  let ?l1 = "(?c, io le l ?c) # l"
  let ?l = "perform (io le) IODispatchCalloutFromMessage ?l1"
  have call: "quiet_owns removed H st l (Inr st, ?l1)" by (rule quiet_call) simp_all
  have start: "quiet_owns removed H st l (Inr st, ?l)"
    by (rule quiet_then [OF call]) (simp add: perform_cons quiet_call)
  show ?case
  proof (cases "fst (io le l ?c) = kIOReturnSuccess")
    case False
    then have "r = (Inr st, ?l1)" using step(2) by (simp add: do_call_def Let_def)
    with call show ?thesis by simp
  next
    case True
    then obtain x l2 where d: "(case callout le ?l of No_callout \<Rightarrow> Some (Inr st, ?l)
        | Device_added \<Rightarrow> pongo_device_added le cfg added st ?l
        | Device_removed \<Rightarrow> pongo_device_removed le removed st ?l) = Some (x, l2)"
      using step(2) by (simp add: do_call_def Let_def split: option.splits) (metis surj_pair)
    then have "quiet_owns removed H st ?l (x, l2)"
      using quiet_added quiet_removed by (cases "callout le ?l") (auto simp: quiet_owns_def owns_def)
    then have x: "quiet_owns removed H st l (x, l2)" using quiet_then [OF start] by simp
    show ?thesis
      by (rule quiet_then [OF x]) (use step(2) True d in \<open>auto simp: do_call_def Let_def split: sum.split intro: step(1)\<close>)
  qed
qed

lemma loop_owns:
  assumes "loader_loop le cfg added removed st l = Some r"
  shows "quiet_owns removed H st l r"
  using assms
proof (induction rule: loader_loop.raw_induct [rotated, consumes 1, case_names step])
  case (step f le cfg added removed st l r)
  let ?c = "kevent_wait (kq st)"
  let ?l = "(?c, io le l ?c) # l"
  have start: "quiet_owns removed H st l (Inr st, ?l)" by (rule quiet_call) simp_all
  have again: "quiet_owns removed H st l r" if "f le cfg added removed st ?l = Some r"
    by (rule quiet_then [OF start]) (simp add: step(1) [OF that])
  show ?case
  proof (cases "kevent_kind (io le l ?c)")
    case Kevent_failed
    then have "r = (Inr st, ?l)" using step(2) by (simp add: do_call_def Let_def)
    with start show ?thesis by simp
  next
    case Kevent_port_set
    then obtain x l2 where h: "handle_notification_message le cfg added removed st ?l = Some (x, l2)"
      using step(2) by (auto simp: do_call_def Let_def split: option.splits)
    have x: "quiet_owns removed H st l (x, l2)" by (rule quiet_then [OF start]) (simp add: handle_owns [OF h])
    show ?thesis
      by (rule quiet_then [OF x]) (use step(2) Kevent_port_set h in \<open>auto simp: do_call_def Let_def split: sum.split intro: step(1)\<close>)
  qed (use step(2) again in \<open>simp_all add: do_call_def Let_def\<close>)
qed

lemma run_owns:
  assumes "loader_run le cfg added removed st l = Some r"
  shows "quiet_owns removed H st l r"
proof -
  obtain x l1 where a: "pongo_device_added le cfg added st l = Some (x, l1)"
    using assms by (auto simp: loader_run_def split: option.splits)
  show ?thesis
  proof (rule quiet_then [OF quiet_added [OF a]], cases x)
    case (Inr st1)
    then obtain y l2 where b: "pongo_device_removed le removed st1 l1 = Some (y, l2)"
      using assms a by (auto simp: loader_run_def split: option.splits)
    have "quiet_owns removed H st1 l1 r"
      by (rule quiet_then [OF quiet_removed [OF b]])
        (use assms a b Inr in \<open>auto simp: loader_run_def split: sum.split intro: loop_owns\<close>)
    with Inr show "case x of Inl e \<Rightarrow> r = (Inl e, l1) | Inr st' \<Rightarrow> quiet_owns removed H st' l1 r" by simp
  qed (use assms a in \<open>simp add: loader_run_def\<close>)
qed

section \<open>The cleanup ladder\<close>

text \<open>What the function promises when it returns: failure and, when no removal was reported, nothing but
  the tracked devices on top of what was held before.\<close>

definition settles :: "resource multiset \<Rightarrow> bool outcome option \<Rightarrow> bool" where
  "settles H r \<longleftrightarrow>
     (\<forall>ok l. r = Some (Inr ok, l) \<longrightarrow>
        \<not> ok \<and> (no_removal_reported l \<longrightarrow> (\<exists>st. refs l = Some (H + tracked st))))"

lemma settles_call:
  assumes "refs l = Some H" and "releases c \<subseteq># H"
    and "\<And>kr h. refs ((c, kr, h) # l) = Some (H - releases c + acquires c (kr, h)) \<Longrightarrow>
      settles K (F (kr, h) ((c, kr, h) # l))"
  shows "settles K (let (a, l') = do_call env c l in F a l')"
  using assms(3) [of "fst (env l c)" "snd (env l c)"] assms(1,2)
  by (simp add: do_call_def Let_def)

lemma settles_if: "(b \<Longrightarrow> settles H x) \<Longrightarrow> (\<not> b \<Longrightarrow> settles H y) \<Longrightarrow> settles H (if b then x else y)"
  by simp

lemma settles_let: "settles H (F v) \<Longrightarrow> settles H (let x = v in F x)"
  by (simp add: Let_def)

lemma settles_result: "refs l = Some (H + tracked st) \<Longrightarrow> settles H (Some (Inr False, l))"
  by (auto simp: settles_def)

lemma tracked_none [simp]: "instances st = [] \<Longrightarrow> tracked st = {#}"
  by (simp add: tracked_def)

lemma settles_fail:
  "refs l = Some (H + tracked st + {#Queue q#}) \<Longrightarrow> settles H (loader_fail_1 env q l)"
  "refs l = Some (H + tracked st + {#Queue q, Port_set ps#}) \<Longrightarrow> settles H (loader_fail_2 env q ps l)"
  "refs l = Some (H + tracked st + {#Queue q, Port_set ps, Notify_port np#}) \<Longrightarrow> settles H (loader_fail_3 env q ps np l)"
  "refs l = Some (H + tracked st + {#Queue q, Port_set ps, Notify_port np, Object_ref added#})
     \<Longrightarrow> settles H (loader_fail_4 env q ps np added l)"
  "refs l = Some (H + tracked st + {#Queue q, Port_set ps, Notify_port np, Object_ref added, Object_ref removed#})
     \<Longrightarrow> settles H (loader_fail_5 env q ps np added removed l)"
  by (auto simp: loader_fail_1_def loader_fail_2_def loader_fail_3_def loader_fail_4_def loader_fail_5_def
      refs_perform intro!: settles_result)

lemma refs_matching_dictionary:
  assumes "refs l = Some H"
  shows "owns (\<lambda>dict K. K = H + {#Cf_ref dict#}) (create_pongo_iokit_usb_matching_dictionary env l)"
  unfolding create_pongo_iokit_usb_matching_dictionary_def
  apply (rule owns_call [OF assms], simp)
  apply (rule owns_let, rule owns_call, assumption, simp)
  apply (rule owns_let, rule owns_let, rule owns_let, rule owns_call, simp add: refs_perform, simp)
  apply (simp add: Let_def owns_result refs_perform)
  done

lemma settles_listen:
  assumes l: "refs l = Some (H + {#Queue q, Port_set ps, Notify_port np#})"
  shows "settles H (loader_listen le cfg q ps np l)"
proof -
  obtain dict l1 where d: "create_pongo_iokit_usb_matching_dictionary (io le) l = (dict, l1)" by fastforce
  let ?H = "H + {#Queue q, Port_set ps, Notify_port np#}"
  let ?st = "\<lparr>kq = q, port_set = ps, instances = []\<rparr>"
  have l1: "refs (perform (io le) (CFRetain dict) l1) = Some (?H + {#Cf_ref dict, Cf_ref dict#})"
    using refs_matching_dictionary [OF l, of "io le"] d
    by (cases "io le l1 (CFRetain dict)") (simp add: owns_def perform_cons)
  have run: "settles H (case loader_run le cfg added removed ?st ((IOServiceAddMatchingNotification np dict False, kr, removed) # l2) of
      None \<Rightarrow> None | Some (Inl e, l) \<Rightarrow> Some (Inl e, l) | Some (Inr st, l) \<Rightarrow> loader_fail_5 (io le) q ps np added removed l)"
    if "refs ((IOServiceAddMatchingNotification np dict False, kr, removed) # l2)
      = Some (?H + {#Object_ref added, Object_ref removed#})" for added removed kr l2
  proof (cases "loader_run le cfg added removed ?st ((IOServiceAddMatchingNotification np dict False, kr, removed) # l2)")
    case None
    then show ?thesis by (simp add: settles_def)
  next
    case (Some r)
    have held: "refs ((IOServiceAddMatchingNotification np dict False, kr, removed) # l2)
        = Some (?H + {#Object_ref added, Object_ref removed#} + tracked ?st)"
      using that by simp
    obtain x l3 where r: "r = (x, l3)" by fastforce
    note o = run_owns [OF Some, unfolded r quiet_owns_def snd_conv]
    show ?thesis
    proof (cases x)
      case (Inr st')
      have "settles H (loader_fail_5 (io le) q ps np added removed l3)"
      proof (cases "delivers_none removed l3")
        case True
        then have "refs l3 = Some (?H + {#Object_ref added, Object_ref removed#} + tracked st')"
          using o held Inr by (simp add: owns_def)
        then show ?thesis by (intro settles_fail(5) [where st = st']) (simp add: ac_simps)
      next
        case False
        have "\<not> no_removal_reported l3"
          using o False set_mono_suffix [of _ l3] by (fastforce simp: no_removal_reported_def)
        then show ?thesis
          unfolding loader_fail_5_def loader_fail_4_def loader_fail_3_def loader_fail_2_def loader_fail_1_def
          by (auto simp: settles_def Let_def dest: no_removal_suffix [rotated] intro!: suffix_perform)
      qed
      then show ?thesis using Some r Inr by simp
    qed (use Some r in \<open>simp add: settles_def\<close>)
  qed
  show ?thesis
    unfolding loader_listen_def d Let_def [of "(dict, l1)"] prod.case
    apply (rule settles_let, rule settles_call [OF l1], simp)
    apply (rule settles_if)
     apply (rule settles_fail(3) [where st = ?st], simp add: refs_perform)
    apply (rule settles_let, rule settles_call, assumption, simp)
    apply (rule settles_if)
     apply (rule settles_fail(4) [where st = ?st], simp add: refs_perform)
    apply (rule settles_let)
    apply (simp only: snd_conv fst_conv not_not)
    apply (rule run, erule trans, simp)
    done
qed


lemma kext_loader_settles:
  assumes "pongo_usb_kext_loader le cfg l = Some (Inr ok, l')" and l: "refs l = Some H"
  shows "\<not> ok \<and> (no_removal_reported l' \<longrightarrow> (\<exists>st. refs l' = Some (H + tracked st)))"
proof -
  let ?st = "\<lparr>kq = 0, port_set = 0, instances = []\<rparr>"
  have "settles H (pongo_usb_kext_loader le cfg l)"
    unfolding pongo_usb_kext_loader_def
    apply (rule settles_call [OF l], simp)
    apply (rule settles_if)
     apply (rule settles_result [where st = ?st], simp)
    apply (rule settles_let, rule settles_call, assumption, simp)
    apply (rule settles_if)
     apply (rule settles_fail(1) [where st = ?st], simp)
    apply (rule settles_let, rule settles_call, assumption, simp)
    apply (rule settles_if)
     apply (rule settles_fail(2) [where st = ?st], simp)
    apply (rule settles_call, assumption, simp)
    apply (rule settles_let, rule settles_call, assumption, simp)
    apply (rule settles_call, assumption, simp)
    apply (rule settles_if)
     apply (rule settles_fail(3) [where st = ?st], simp)
    apply (rule settles_listen, simp)
    done
  with assms(1) show ?thesis by (simp add: settles_def)
qed

end
