(* ===== verification/Loader_Props.thy ===== *)
theory Loader_Props
  imports Loader_Run Loader_Protocol Symbols_Props
begin

text \<open>
  The properties of the loader's device handling: opening and closing, the loading protocol, the
  notification callbacks, the main loop and the command line.
\<close>

section \<open>The USB device\<close>

text \<open>Environments in which every call succeeds with handle 1, except the opening of the device.\<close>

definition ready_io :: io_env where
  "ready_io l c = (0, 1)"

definition busy_io :: io_env where
  "busy_io l c = (case c of USBDeviceOpen d \<Rightarrow> (1, 0) | _ \<Rightarrow> (0, 1))"

text \<open>C13: whatever the calls answer, opening a device releases nothing twice, gives back everything when
  it fails, and when it succeeds holds exactly the device and its interface, both opened, and the
  structure; closing then gives all of it back together with a reference to the service, which
  opening did not take.\<close>

theorem usb_open_balanced:
  assumes l: "refs l = Some H" and r: "pongo_usb_open env s ps l = (r, l')"
  shows "\<exists>K. refs l' = Some K
    \<and> (case r of
         Inl e \<Rightarrow> True
       | Inr None \<Rightarrow> K = H
       | Inr (Some d) \<Rightarrow>
           usable s d \<and> K = H + usb_resources d
           \<and> refs (pongo_usb_close env' (Some d) l') =
               (if s = 0 then Some H
                else if Object_ref s \<in># H then Some (H - {#Object_ref s#}) else None))"
proof -
  obtain K where K: "refs l' = Some K" "gives H r K"
    using owns_pongo_usb_open [OF l, of env s ps] r by (auto simp: owns_def)
  have "usable s d \<and> K = H + usb_resources d
      \<and> refs (pongo_usb_close env' (Some d) l') =
          (if s = 0 then Some H else if Object_ref s \<in># H then Some (H - {#Object_ref s#}) else None)"
    if d: "r = Inr (Some d)" for d
  proof -
    have u: "usable s d" using pongo_usb_open_usable [of env s ps l d] r d by simp
    have "refs (pongo_usb_close env' (Some d) l') =
        (if s = 0 then Some H else if Object_ref s \<in># H then Some (H - {#Object_ref s#}) else None)"
      using K d u
      by (simp add: pongo_usb_close_def usable_def usb_resources_def Let_def perform_cons)
    with u K d show ?thesis by simp
  qed
  with K show ?thesis by (auto split: sum.splits option.splits)
qed

theorem usb_open_balanced_witness:
  "\<exists>l' d. pongo_usb_open ready_io 5 6 [] = (Inr (Some d), l') \<and> refs l' = Some (usb_resources d)
     \<and> refs (pongo_usb_close ready_io (Some d) l') = None"
proof -
  obtain r l' where r: "pongo_usb_open ready_io 5 6 [] = (r, l')" by fastforce
  have "fst (pongo_usb_open ready_io 5 6 []) = Inr (Some \<lparr>pongo_ptr = 1, service = 5, device = 1, interface = 1\<rparr>)"
    by code_simp
  with r usb_open_balanced [of "[]" "{#}" ready_io 5 6 r l' ready_io] show ?thesis by auto
qed

text \<open>The device is opened at most six times, one more than the name of the constant
  \<open>PONGO_USB_OPEN_MAX_TRIES\<close> says, with five pauses of a tenth of a second; opening is given up only
  after all six.\<close>

theorem usb_open_attempts:
  assumes "usb_open_tries env d 0 l = (opened, l')"
  shows "calls (USBDeviceOpen d) l' \<le> calls (USBDeviceOpen d) l + 6
    \<and> calls (usleep 100000) l' \<le> calls (usleep 100000) l + 5
    \<and> (opened \<or> calls (USBDeviceOpen d) l' = calls (USBDeviceOpen d) l + (PONGO_USB_OPEN_MAX_TRIES + 1)
         \<and> calls (usleep 100000) l' = calls (usleep 100000) l + PONGO_USB_OPEN_MAX_TRIES)"
  using calls_usb_open_tries [of 0 d env l] usb_open_gives_up [of 0 env d l] assms
  by (auto simp: PONGO_USB_OPEN_MAX_TRIES_def)

theorem usb_open_attempts_witness:
  "\<exists>l'. usb_open_tries busy_io 3 0 [] = (False, l') \<and> calls (USBDeviceOpen 3) l' = 6"
proof -
  obtain b l' where r: "usb_open_tries busy_io 3 0 [] = (b, l')" by fastforce
  have "fst (usb_open_tries busy_io 3 0 []) = False"
    by (simp add: usb_open_tries.simps busy_io_def do_call_def perform_def Let_def PONGO_USB_OPEN_MAX_TRIES_def
        kIOReturnSuccess_def)
  with r usb_open_attempts [OF r] show ?thesis by (auto simp: PONGO_USB_OPEN_MAX_TRIES_def)
qed

section \<open>The loading protocol\<close>

definition sample_loader :: loader_env where
  "sample_loader = \<lparr>io = ready_io, host = sample_os, fresh = (\<lambda>_ _. 0xAA), callout = (\<lambda>_. No_callout)\<rparr>"

definition sample_config :: loader_config where
  "sample_config = \<lparr>pongo_kextload_path = ''d/a.txt'', kernelcache_symbols_path = [''x'', ''d''],
     kext_path = [''d/a.txt'', ''d/a.txt'']\<rparr>"

definition sample_instance :: pongo_instance where
  "sample_instance = \<lparr>inst_ptr = 5, inst_device = \<lparr>pongo_ptr = 4, service = 7, device = 2, interface = 3\<rparr>,
     inst_state = 0\<rparr>"

text \<open>C12: when the files map and the table fits, loading an instance always succeeds and the device sees
  exactly the framebuffer command, the upload of the module, the upload of the documented table
  format for the symbols read, the upload of every extension in order, and the boot command; failed
  writes only add a discard request, the commands are sent all the same.\<close>

theorem load_protocol:
  assumes "fst (map_file (host le) (pongo_kextload_path cfg)) \<noteq> None"
    and "\<And>p. p \<in> set (kext_path cfg) \<Longrightarrow> fst (map_file (host le) p) \<noteq> None"
    and sym: "fst (kcs_update_directories (host le) (kernelcache_symbols_path cfg) kcs_empty) = Inr st"
    and os: "os_sound (host le)" "os_small (host le)" and fits: "blob_fits st" "blob_bound st < 4294967296"
    and "\<And>l n. snd (io le l (malloc n)) \<noteq> 0"
  shows "\<exists>b1 b2 bs l'. pongo_instance_load_kext le cfg i l = (Inr True, l') \<and> length bs = length (kext_path cfg)
    \<and> wire l' = wire l @ load_wire le cfg (inst_device i) st b1 b2 bs"
proof -
  have "kcs_inv st" "kcs_max_ok st"
    using kcs_update_directories_spec [OF sym os kcs_inv_empty fits(1)] by blast+
  then show ?thesis using instance_load_wire [OF assms(1,2,3) _ _ fits(2) assms(8)] by blast
qed

theorem load_protocol_witness:
  "\<exists>b1 b2 bs l'. pongo_instance_load_kext sample_loader sample_config sample_instance [] = (Inr True, l')
     \<and> length bs = 2 \<and> wire l' = load_wire sample_loader sample_config (inst_device sample_instance) sample_state b1 b2 bs"
proof -
  have m: "fst (map_file sample_os ''d/a.txt'') \<noteq> None"
    by (simp add: map_file_def sample_os_def)
  have "fst (kcs_update_directories (host sample_loader) (kernelcache_symbols_path sample_config) kcs_empty) = Inr sample_state"
    by (simp only: sample_loader_def sample_config_def loader_env.simps loader_config.simps sample_directories)
  note run = load_protocol [OF _ _ this _ _ sample_state_ok(3,4), where l = "[]" and i = sample_instance]
  have "\<exists>b1 b2 bs l'. pongo_instance_load_kext sample_loader sample_config sample_instance [] = (Inr True, l')
      \<and> length bs = length (kext_path sample_config)
      \<and> wire l' = wire [] @ load_wire sample_loader sample_config (inst_device sample_instance) sample_state b1 b2 bs"
    by (rule run) (use m sample_os_ok in \<open>auto simp: sample_loader_def sample_config_def ready_io_def\<close>)
  moreover have "length (kext_path sample_config) = 2"
    by (simp add: sample_config_def)
  ultimately show ?thesis by simp
qed

text \<open>An extension that cannot be mapped ends the loading with an error, and no boot command follows the
  uploads that were made.\<close>

theorem missing_kext_no_boot:
  assumes "fst (map_file (host le) (pongo_kextload_path cfg)) \<noteq> None"
    and "p \<in> set (kext_path cfg)" "fst (map_file (host le) p) = None"
    and "pongo_instance_load_kext le cfg i l = (Inr ok, l')"
  shows "\<not> ok \<and> calls (command_request (inst_device i) ''bootx'') l' = calls (command_request (inst_device i) ''bootx'') l"
  by (rule missing_kext_stops [OF assms])

theorem missing_kext_no_boot_witness:
  "\<exists>l'. pongo_instance_load_kext sample_loader (sample_config\<lparr>kext_path := [''d/a.txt'', ''none'']\<rparr>) sample_instance []
       = (Inr False, l')
     \<and> calls (command_request (inst_device sample_instance) ''bootx'') l' = 0"
proof -
  have m: "fst (map_file sample_os ''d/a.txt'') \<noteq> None" "fst (map_file sample_os ''none'') = None"
    by (simp_all add: map_file_def sample_os_def)
  let ?cfg = "sample_config\<lparr>kext_path := [''d/a.txt'', ''none'']\<rparr>"
  have "fst (kcs_update_directories (host sample_loader) (kernelcache_symbols_path ?cfg) kcs_empty) = Inr sample_state"
    by (simp only: sample_loader_def sample_config_def loader_env.simps loader_config.simps sample_directories)
  moreover have "snd (io sample_loader l (malloc n)) \<noteq> 0" for l n
    by (simp add: sample_loader_def ready_io_def)
  ultimately obtain l' where l': "pongo_instance_load_kext sample_loader ?cfg sample_instance [] = (Inr False, l')"
    using missing_kext_run [of sample_loader ?cfg "''none''" sample_state sample_instance "[]"] m sample_state_ok
    by (auto simp: sample_loader_def sample_config_def)
  have "\<not> False \<and> calls (command_request (inst_device sample_instance) ''bootx'') l'
      = calls (command_request (inst_device sample_instance) ''bootx'') []"
    by (rule missing_kext_no_boot [OF _ _ _ l', of "''none''"]) (use m in \<open>simp_all add: sample_loader_def sample_config_def\<close>)
  with l' show ?thesis by simp
qed


section \<open>Notifications\<close>

text \<open>C20: handling the arrival of devices keeps the books: when the callback returns, what the program holds
  is what it held before and exactly the devices of the instances it tracks, whichever opens, loads and
  transfers failed in between.\<close>

theorem device_arrival_balanced:
  assumes "pongo_device_added le cfg it st l = Some (r, l')" and "refs l = Some (H + tracked st)"
  shows "\<exists>K. refs l' = Some K \<and> (case r of Inl e \<Rightarrow> True | Inr st' \<Rightarrow> K = H + tracked st')"
  using added.drain_owns [OF assms] by (auto simp: owns_def)

text \<open>A device that is tracked, with the calls that made it so; its service is 7. An iterator delivers
  the service once.\<close>

definition tracked_log :: io_log where
  "tracked_log = [(calloc, 0, 5), (calloc, 0, 4), (USBInterfaceOpen 3, 0, 0), (QueryInterfaceInterface 1, 0, 3),
     (USBDeviceOpen 2, 0, 0), (QueryDeviceInterface 1, 0, 2)]"

definition once_io :: io_env where
  "once_io l c = (case c of IOIteratorNext it \<Rightarrow> (0, if calls (IOIteratorNext it) l = 0 then 7 else 0) | _ \<Rightarrow> (1, 0))"

definition once_loader :: loader_env where
  "once_loader = \<lparr>io = once_io, host = sample_os, fresh = (\<lambda>_ _. 0), callout = (\<lambda>_. No_callout)\<rparr>"

definition tracking :: pongo_kext_loader_state where
  "tracking = \<lparr>kq = 0, port_set = 0, instances = [sample_instance]\<rparr>"

lemma refs_tracked_log: "refs tracked_log = Some ({#} + tracked tracking)"
  by (simp add: tracked_log_def tracked_def tracking_def inst_resources_def usb_resources_def sample_instance_def
      kIOReturnSuccess_def)

lemma once_ends: "1 \<le> calls (IOIteratorNext it) l \<Longrightarrow> snd (io once_loader l (IOIteratorNext it)) = 0"
  by (simp add: once_loader_def once_io_def)

theorem device_arrival_balanced_witness:
  "\<exists>l'. pongo_device_added once_loader sample_config 9 tracking tracked_log = Some (Inr tracking, l')
     \<and> refs l' = Some (tracked tracking)"
proof -
  obtain l' where r: "pongo_device_added once_loader sample_config 9 tracking tracked_log = Some (Inr tracking, l')"
    by (simp add: pongo_device_added.simps do_call_def Let_def once_loader_def once_io_def device_added_body_def
        pongo_instance_create_def pongo_usb_open_def kIOReturnSuccess_def usb_def obind_def perform_def tracked_log_def)
  from device_arrival_balanced [OF r refs_tracked_log] r show ?thesis by simp
qed

text \<open>C36: when a tracked device goes away and the reference the iterator delivers is the only one to its
  service, the callback releases that service twice: once in \<open>pongo_usb_close\<close>, which never retained
  it, and once itself.\<close>

theorem removal_releases_twice:
  assumes "refs l = Some (H + tracked st)" "Object_ref s \<notin># H"
    and "io le l (IOIteratorNext it) = (kr, s)" "s \<noteq> 0"
    and "\<exists>i\<in>set (instances st). service (inst_device i) = s"
    and "\<forall>i\<in>set (instances st). service (inst_device i) = s \<longrightarrow> usable s (inst_device i)"
    and "pongo_device_removed le it st l = Some (r, l')"
  shows "refs l' = None"
proof (cases "unlink_instance s (instances st)")
  case None
  with assms(5) show ?thesis by (auto simp: unlink_instance_None serves_def)
next
  case (Some x)
  obtain i rest where x: "x = (i, rest)" by fastforce
  then have "usable s (inst_device i)"
    using Some assms(6) by (auto simp: unlink_instance_Some serves_def)
  then show ?thesis
    using removed_over_release [OF assms(1-4) _ _ assms(7)] Some x by blast
qed

theorem removal_releases_twice_witness:
  "\<exists>r l'. pongo_device_removed once_loader 9 tracking tracked_log = Some (r, l') \<and> refs l' = None"
proof -
  obtain r l' where r: "pongo_device_removed once_loader 9 tracking tracked_log = Some (r, l')"
    using removed.drain_returns [of 1 9 once_loader tracking tracked_log] once_ends by auto
  have it: "io once_loader tracked_log (IOIteratorNext 9) = (0, 7)"
    by (simp add: once_loader_def once_io_def tracked_log_def)
  have "refs l' = None"
    by (rule removal_releases_twice [OF refs_tracked_log _ it _ _ _ r])
       (simp_all add: tracking_def sample_instance_def usable_def)
  with r show ?thesis by blast
qed

text \<open>C34: both callbacks end when their iterator does: if it is empty from its \<open>k\<close>-th call on, they return,
  whatever the devices and all other calls do.\<close>

theorem callbacks_return:
  assumes "\<And>l. k \<le> calls (IOIteratorNext it) l \<Longrightarrow> snd (io le l (IOIteratorNext it)) = 0"
  shows "pongo_device_added le cfg it st l \<noteq> None \<and> pongo_device_removed le it st l \<noteq> None"
  using added.drain_returns [of k it le cfg st l] removed.drain_returns [of k it le st l] assms by auto

theorem callbacks_return_witness:
  "pongo_device_added once_loader sample_config 9 tracking [] \<noteq> None \<and> pongo_device_removed once_loader 9 tracking [] \<noteq> None"
  by (rule callbacks_return [where k = 1]) (rule once_ends)

section \<open>The main loop and the command line\<close>

text \<open>C16: when the main loop returns, it returns failure; and when the run reported no device as removed
  (the iterator registered for removals never delivered one), the cleanup ladder has then given back
  everything but the devices still tracked, whichever calls failed.\<close>

theorem loader_cleans_up:
  assumes "pongo_usb_kext_loader le cfg l = Some (Inr ok, l')" and "refs l = Some H"
  shows "\<not> ok \<and> (no_removal_reported l' \<longrightarrow> (\<exists>st. refs l' = Some (H + tracked st)))"
  by (rule kext_loader_settles [OF assms])

text \<open>Everything succeeds until the wait for events fails; there are no devices.\<close>

definition idle_io :: io_env where
  "idle_io l c = (case c of kevent_wait q \<Rightarrow> (1, 0) | IOIteratorNext it \<Rightarrow> (0, 0) | _ \<Rightarrow> (0, 1))"

definition idle_loader :: loader_env where
  "idle_loader = \<lparr>io = idle_io, host = sample_os, fresh = (\<lambda>_ _. 0), callout = (\<lambda>_. No_callout)\<rparr>"

theorem loader_cleans_up_witness:
  "\<exists>l' st. pongo_usb_kext_loader idle_loader sample_config [] = Some (Inr False, l') \<and> refs l' = Some (tracked st)
     \<and> 10 < length l'"
proof -
  obtain l' where r: "pongo_usb_kext_loader idle_loader sample_config [] = Some (Inr False, l')" and n: "10 < length l'"
    and q: "no_removal_reported l'"
    by (simp add: no_removal_reported_def delivers_none_def pongo_usb_kext_loader_def loader_listen_def create_pongo_iokit_usb_matching_dictionary_def
        loader_run_def loader_loop.simps kevent_kind_def pongo_device_added.simps pongo_device_removed.simps
        do_call_def perform_def Let_def idle_loader_def idle_io_def kIOReturnSuccess_def
        loader_fail_5_def loader_fail_4_def loader_fail_3_def loader_fail_2_def loader_fail_1_def)
  from loader_cleans_up [OF r, of "{#}"] r n q show ?thesis by auto
qed

text \<open>C35: the command line is accepted exactly when it is a sequence of \<open>-l\<close>, \<open>-s\<close> and \<open>-k\<close> options with
  their paths in any order, all paths accessible, one module, at least one symbols directory and at
  least one extension; the paths are then used in the order given.\<close>

theorem main_accepts:
  "main_config access args = Inr cfg \<longleftrightarrow>
     (\<exists>os m. args = concat (map render_option os) \<and> options_ok access None os
        \<and> opts_l os = [m] \<and> opts_s os \<noteq> [] \<and> opts_k os \<noteq> []
        \<and> cfg = \<lparr>pongo_kextload_path = m, kernelcache_symbols_path = opts_s os, kext_path = opts_k os\<rparr>)"
  by (rule main_config_iff)

end
