(* ===== verification/Kernel_Memory.thy ===== *)
theory Kernel_Memory
  imports Prelude
begin

text \<open>
  The kernel's memory as the vulnerable extension sees it: flat, one byte per address. The extension
  is made to write outside its objects, so a copy is what the machine does with it, wherever it goes;
  whether it stays inside a block is a question the theorems ask.
\<close>

type_synonym memory = "u64 \<Rightarrow> u8"

text \<open>
  The global variable \<open>kernproc\<close> of \<^verbatim>\<open>vulnerable_kext.c\<close> lies in that memory, at \<open>kernproc_at\<close>.
  \<open>blocks\<close> is a ghost field: the blocks that calls of \<open>MALLOC\<close> have returned and no call of \<open>FREE\<close> has
  taken back since. It records the calls; the allocator's own data, which an overflow may destroy, is
  not part of it.
\<close>

record kstate =
  mem :: memory
  blocks :: "(u64 \<times> nat) list"
  kernproc_at :: u64

text \<open>An address lies in the \<open>n\<close> bytes from \<open>p\<close> on; addresses wrap around.\<close>

definition within :: "u64 \<Rightarrow> nat \<Rightarrow> u64 \<Rightarrow> bool" where
  "within p n x \<longleftrightarrow> unat (x - p) < n"

text \<open>\<open>memmove\<close>: all bytes are read before any is written, so the ranges may overlap.\<close>

definition c_memmove :: "u64 \<Rightarrow> u64 \<Rightarrow> u64 \<Rightarrow> memory \<Rightarrow> memory" where
  "c_memmove dst src n m = (\<lambda>x. if within dst (unat n) x then m (src + (x - dst)) else m x)"

definition bcopy :: "u64 \<Rightarrow> u64 \<Rightarrow> u64 \<Rightarrow> memory \<Rightarrow> memory" where
  "bcopy a b c m = c_memmove b a c m"

definition fetch :: "memory \<Rightarrow> u64 \<Rightarrow> nat \<Rightarrow> bytes" where
  "fetch m p n = map (\<lambda>i. m (p + of_nat i)) [0..<n]"

definition fetch32 :: "memory \<Rightarrow> u64 \<Rightarrow> u32" where
  "fetch32 m p = le_word (fetch m p 4)"

definition fetch64 :: "memory \<Rightarrow> u64 \<Rightarrow> u64" where
  "fetch64 m p = le_word (fetch m p 8)"

text \<open>The memory with given bytes at an address.\<close>

definition store :: "u64 \<Rightarrow> bytes \<Rightarrow> memory \<Rightarrow> memory" where
  "store p bs m = (\<lambda>x. if within p (length bs) x then bs ! unat (x - p) else m x)"

definition kernproc :: "kstate \<Rightarrow> u64" where
  "kernproc st = fetch64 (mem st) (kernproc_at st)"

section \<open>Lemmas\<close>

lemma kernproc_blocks [simp]: "kernproc (st\<lparr>blocks := bs\<rparr>) = kernproc st"
  by (simp add: kernproc_def)

lemma length_fetch [simp]: "length (fetch m p n) = n"
  by (simp add: fetch_def)

lemma nth_fetch [simp]: "i < n \<Longrightarrow> fetch m p n ! i = m (p + of_nat i)"
  by (simp add: fetch_def)

lemma within_offset: "i < 2 ^ 64 \<Longrightarrow> within p n (p + of_nat i) \<longleftrightarrow> i < n"
  by (simp add: within_def unat_of_nat)

lemma within_ends:
  "within p n p \<longleftrightarrow> 0 < n"
  by (simp add: within_def)

lemma within_mono: "within p n x \<Longrightarrow> n \<le> k \<Longrightarrow> within p k x"
  by (simp add: within_def)

lemma bcopy_at: "bcopy a b c m x = (if within b (unat c) x then m (a + (x - b)) else m x)"
  by (simp add: bcopy_def c_memmove_def)

text \<open>The copied bytes are those of the source before the copy.\<close>

lemma fetch_bcopy_dst: "k \<le> unat c \<Longrightarrow> fetch (bcopy a b c m) b k = fetch m a k"
proof (rule nth_equalityI)
  fix i assume "k \<le> unat c" and "i < length (fetch (bcopy a b c m) b k)"
  then show "fetch (bcopy a b c m) b k ! i = fetch m a k ! i"
    using unat_u64_less [of c] by (simp add: bcopy_at within_offset)
qed simp

lemma bcopy_outside: "\<not> within b (unat c) x \<Longrightarrow> bcopy a b c m x = m x"
  by (simp add: bcopy_at)

lemma bcopy_none [simp]: "bcopy a b 0 m = m"
  by (rule ext) (simp add: bcopy_at within_def)

lemma fetch_store: "k + n \<le> length bs \<Longrightarrow> length bs < 2 ^ 64 \<Longrightarrow>
    fetch (store p bs m) (p + of_nat k) n = take n (drop k bs)"
proof (rule nth_equalityI)
  fix i assume *: "k + n \<le> length bs" "length bs < 2 ^ 64" "i < length (fetch (store p bs m) (p + of_nat k) n)"
  have "unat (of_nat (k + i) :: u64) = k + i" using * by (simp add: unat_of_nat del: of_nat_add)
  then have "unat (of_nat k + of_nat i :: u64) = k + i" by simp
  then show "fetch (store p bs m) (p + of_nat k) n ! i = take n (drop k bs) ! i"
    using * by (simp add: store_def within_def add.assoc)
qed simp


text \<open>A copy of equal bytes, seen from some offset on.\<close>

lemma fetch_bcopy_fill:
  assumes "fetch m a n = replicate n c" and "n < 2 ^ 64" and "j + k \<le> n"
  shows "fetch (bcopy a b (of_nat n) m) (b + of_nat j) k = replicate k c"
proof (rule nth_equalityI)
  fix i assume "i < length (fetch (bcopy a b (of_nat n) m) (b + of_nat j) k)"
  then have i: "j + i < n" "i < k" using assms(3) by simp_all
  have n: "unat (of_nat n :: u64) = n" using assms(2) by (simp add: unat_of_nat)
  have "bcopy a b (of_nat n) m (b + of_nat (j + i)) = m (a + of_nat (j + i))"
    using i(1) assms(2) by (simp add: bcopy_at n within_offset del: of_nat_add)
  also have "\<dots> = fetch m a n ! (j + i)" using i(1) by simp
  finally show "fetch (bcopy a b (of_nat n) m) (b + of_nat j) k ! i = replicate k c ! i"
    using i assms(1) by (simp add: add.assoc)
qed simp

end
