(* ===== verification/Vulnerabilities.thy ===== *)
theory Vulnerabilities
  imports Kernel_Memory
begin

text \<open>
  \<^verbatim>\<open>vulnerabilities.c\<close>: the two socket option copies taken from XNU and the handlers built on
  them. What the kernel provides is the record \<open>kernel_env\<close>: where \<open>MALLOC\<close> puts a block, the
  copies from and to user space, the address of a handler's stack buffer, what becomes of a call
  to an address, and what other threads do to memory between two fetches of a handler.
\<close>

type_synonym errno = int

definition EINVAL :: errno where "EINVAL = 22"
definition KERN_SUCCESS :: errno where "KERN_SUCCESS = 0"
definition KERN_FAILURE :: errno where "KERN_FAILURE = 5"

record kernel_env =
  kmalloc :: "kstate \<Rightarrow> nat \<Rightarrow> u64"
  copyin :: "u64 \<Rightarrow> u64 \<Rightarrow> u64 \<Rightarrow> memory \<Rightarrow> errno \<times> memory"
  copyout :: "u64 \<Rightarrow> u64 \<Rightarrow> u64 \<Rightarrow> memory \<Rightarrow> errno \<times> memory"
  stack_buffer :: "kstate \<Rightarrow> u64"
  call_at :: "u64 \<Rightarrow> u32 \<Rightarrow> kstate \<Rightarrow> kstate option"
  others :: "memory \<Rightarrow> memory"

text \<open>The ways a handler does not return.\<close>

datatype vuln_stop = Panic | Crashed u64 u32

datatype sopt_dir_t = SOPT_GET | SOPT_SET

record sockopt =
  sopt_dir :: sopt_dir_t
  sopt_level :: int
  sopt_name :: int
  sopt_val :: u64
  sopt_valsize :: u64
  sopt_p :: u64

text \<open>The structure after \<open>bzero\<close>.\<close>

definition sopt_zero :: sockopt where
  "sopt_zero = \<lparr>sopt_dir = SOPT_GET, sopt_level = 0, sopt_name = 0, sopt_val = 0, sopt_valsize = 0, sopt_p = 0\<rparr>"

section \<open>Copies\<close>

definition sooptcopyin ::
  "kernel_env \<Rightarrow> sockopt \<Rightarrow> u64 \<Rightarrow> u64 \<Rightarrow> u64 \<Rightarrow> kstate \<Rightarrow> (errno \<times> sockopt) \<times> kstate" where
  "sooptcopyin env sopt buf len minlen st =
     (let valsize = sopt_valsize sopt in
      if valsize < minlen then ((EINVAL, sopt), st)
      else
        (let (sopt, valsize) =
               (if valsize > len then (sopt\<lparr>sopt_valsize := len\<rparr>, len) else (sopt, valsize)) in
         if sopt_p sopt \<noteq> kernproc st
         then (let (e, m) = copyin env (sopt_val sopt) buf valsize (mem st) in ((e, sopt), st\<lparr>mem := m\<rparr>))
         else ((0, sopt), st\<lparr>mem := bcopy (sopt_val sopt) buf valsize (mem st)\<rparr>)))"

text \<open>The macro \<open>min\<close> of \<^verbatim>\<open>kernel_imports.h\<close>.\<close>

definition c_min :: "u64 \<Rightarrow> u64 \<Rightarrow> u64" where
  "c_min a b = (if a < b then a else b)"

definition sooptcopyout ::
  "kernel_env \<Rightarrow> sockopt \<Rightarrow> u64 \<Rightarrow> u64 \<Rightarrow> kstate \<Rightarrow> (errno \<times> sockopt) \<times> kstate" where
  "sooptcopyout env sopt buf len st =
     (let valsize = c_min len (sopt_valsize sopt);
          sopt = sopt\<lparr>sopt_valsize := valsize\<rparr> in
      if sopt_val sopt \<noteq> 0
      then
        (if sopt_p sopt \<noteq> kernproc st
         then (let (e, m) = copyout env buf (sopt_val sopt) valsize (mem st) in ((e, sopt), st\<lparr>mem := m\<rparr>))
         else ((0, sopt), st\<lparr>mem := bcopy buf (sopt_val sopt) valsize (mem st)\<rparr>))
      else ((0, sopt), st))"

section \<open>Allocation\<close>

text \<open>A block holds whatever its memory held before.\<close>

definition MALLOC :: "kernel_env \<Rightarrow> u64 \<Rightarrow> kstate \<Rightarrow> u64 \<times> kstate" where
  "MALLOC env n st =
     (let p = kmalloc env st (unat n) in
      if p = 0 then (0, st) else (p, st\<lparr>blocks := (p, unat n) # blocks st\<rparr>))"

text \<open>\<open>FREE\<close> gives back the block that starts at the address.\<close>

fun drop_block :: "u64 \<Rightarrow> (u64 \<times> nat) list \<Rightarrow> (u64 \<times> nat) list" where
  "drop_block p [] = []"
| "drop_block p (b # bs) = (if fst b = p then bs else b # drop_block p bs)"

definition FREE :: "u64 \<Rightarrow> kstate \<Rightarrow> kstate" where
  "FREE p st = st\<lparr>blocks := drop_block p (blocks st)\<rparr>"

section \<open>The handlers\<close>

type_synonym handler = "kstate \<Rightarrow> (vuln_stop + errno) \<times> kstate"

definition trigger_crash :: "kernel_env \<Rightarrow> u32 \<Rightarrow> handler" where
  "trigger_crash env a st =
     (case call_at env 0x51515151 a st of
        None \<Rightarrow> (Inl (Crashed 0x51515151 a), st)
      | Some st' \<Rightarrow> (Inr KERN_FAILURE, st'))"

definition trigger_info_leak :: "kernel_env \<Rightarrow> u64 \<Rightarrow> u64 \<Rightarrow> handler" where
  "trigger_info_leak env data data_len st =
     (let sopt = sopt_zero\<lparr>sopt_dir := SOPT_GET, sopt_val := data, sopt_valsize := data_len, sopt_p := kernproc st\<rparr>;
          (p, st) = MALLOC env (sopt_valsize sopt) st in
      if p = 0 then (Inl Panic, st)
      else
        (let (_, st) = sooptcopyout env sopt p (sopt_valsize sopt) st in
         (Inr KERN_SUCCESS, FREE p st)))"

definition trigger_buffer_overflow :: "kernel_env \<Rightarrow> u64 \<Rightarrow> u64 \<Rightarrow> handler" where
  "trigger_buffer_overflow env data data_len st =
     (let buffer = stack_buffer env st;
          sopt = sopt_zero\<lparr>sopt_dir := SOPT_GET, sopt_val := data, sopt_valsize := data_len, sopt_p := kernproc st\<rparr>;
          (_, st) = sooptcopyin env sopt buffer (sopt_valsize sopt) (sopt_valsize sopt) st in
      (Inr KERN_SUCCESS, st))"

definition trigger_heap_overflow :: "kernel_env \<Rightarrow> u64 \<Rightarrow> u64 \<Rightarrow> handler" where
  "trigger_heap_overflow env data data_len st =
     (let sopt = sopt_zero\<lparr>sopt_dir := SOPT_SET, sopt_val := data, sopt_valsize := data_len, sopt_p := kernproc st\<rparr>;
          (p, st) = MALLOC env 255 st in
      if p = 0 then (Inl Panic, st)
      else
        (let (_, st) = sooptcopyin env sopt p (sopt_valsize sopt) (sopt_valsize sopt) st in
         (Inr KERN_SUCCESS, FREE p st)))"

definition trigger_arbitrary_write :: "kernel_env \<Rightarrow> u64 \<Rightarrow> u64 \<Rightarrow> handler" where
  "trigger_arbitrary_write env data data_len st =
     (let sopt = sopt_zero\<lparr>sopt_dir := SOPT_SET, sopt_val := data + 8, sopt_valsize := data_len,
                           sopt_p := kernproc st\<rparr>;
          write_where = fetch64 (mem st) data;
          (_, st) = sooptcopyin env sopt write_where (sopt_valsize sopt) (sopt_valsize sopt) st in
      (Inr KERN_SUCCESS, st))"

text \<open>
  The size is at offset 0 and the pointer at offset 8 of the structure. The size is fetched for the
  check and again for the copy; other threads may write in between.
\<close>

definition trigger_double_fetch :: "kernel_env \<Rightarrow> u64 \<Rightarrow> u64 \<Rightarrow> handler" where
  "trigger_double_fetch env data data_len st =
     (let (p, st) = MALLOC env 255 st in
      if p = 0 then (Inl Panic, st)
      else
        (let n = ucast (fetch32 (mem st) data) :: u64 in
         if n > 255 \<and> n \<ge> data_len then (Inr KERN_FAILURE, FREE p st)
         else
           (let st = st\<lparr>mem := others env (mem st)\<rparr>;
                sopt = sopt_zero\<lparr>sopt_dir := SOPT_SET, sopt_val := fetch64 (mem st) (data + 8),
                                 sopt_valsize := ucast (fetch32 (mem st) data), sopt_p := kernproc st\<rparr>;
                (_, st) = sooptcopyin env sopt p (sopt_valsize sopt) (sopt_valsize sopt) st in
            (Inr KERN_SUCCESS, FREE p st))))"

definition trigger_integer_overflow :: "u64 \<Rightarrow> u64 \<Rightarrow> handler" where
  "trigger_integer_overflow data data_len st = (Inr KERN_SUCCESS, st)"

definition trigger_use_after_free :: "u64 \<Rightarrow> u64 \<Rightarrow> handler" where
  "trigger_use_after_free data data_len st = (Inr KERN_SUCCESS, st)"

end
