(* ===== verification/Vuln_Control.thy ===== *)
theory Vuln_Control
  imports Vulnerabilities
begin

text \<open>
  \<^verbatim>\<open>vulnerable_kext.c\<close>: the kernel control, its dispatch of socket options to the handlers, its
  registration and the entry points of the extension.
\<close>

definition CRASH :: int where "CRASH = 1"
definition HEAP_OVERFLOW :: int where "HEAP_OVERFLOW = 2"
definition INFO_LEAK :: int where "INFO_LEAK = 3"
definition BUFFER_OVERFLOW :: int where "BUFFER_OVERFLOW = 4"
definition USE_AFTER_FREE :: int where "USE_AFTER_FREE = 5"
definition INTEGER_OVERFLOW :: int where "INTEGER_OVERFLOW = 6"
definition DOUBLE_FETCH :: int where "DOUBLE_FETCH = 7"
definition ARBITRARY_WRITE :: int where "ARBITRARY_WRITE = 8"

lemmas option_defs = CRASH_def HEAP_OVERFLOW_def INFO_LEAK_def BUFFER_OVERFLOW_def USE_AFTER_FREE_def
  INTEGER_OVERFLOW_def DOUBLE_FETCH_def ARBITRARY_WRITE_def

section \<open>The callbacks of the control\<close>

definition ctl_connect :: "kstate \<Rightarrow> errno \<times> kstate" where
  "ctl_connect st = (0, st)"

definition ctl_disconnect :: "kstate \<Rightarrow> errno \<times> kstate" where
  "ctl_disconnect st = (0, st)"

definition ctl_send :: "kstate \<Rightarrow> errno \<times> kstate" where
  "ctl_send st = (0, st)"

definition ctl_setopt :: "kernel_env \<Rightarrow> int \<Rightarrow> u64 \<Rightarrow> u64 \<Rightarrow> handler" where
  "ctl_setopt env opt data data_len st =
     (if opt = CRASH then trigger_crash env (word_of_int opt) st
      else if opt = HEAP_OVERFLOW then trigger_heap_overflow env data data_len st
      else if opt = INFO_LEAK then trigger_info_leak env data data_len st
      else if opt = BUFFER_OVERFLOW then trigger_buffer_overflow env data data_len st
      else if opt = USE_AFTER_FREE then trigger_use_after_free data data_len st
      else if opt = INTEGER_OVERFLOW then trigger_integer_overflow data data_len st
      else if opt = DOUBLE_FETCH then trigger_double_fetch env data data_len st
      else if opt = ARBITRARY_WRITE then trigger_arbitrary_write env data data_len st
      else (Inr KERN_SUCCESS, st))"

definition ctl_getopt :: "kstate \<Rightarrow> errno \<times> kstate" where
  "ctl_getopt st = (KERN_SUCCESS, st)"

section \<open>Registration\<close>

definition CONTROL_NAME :: string where
  "CONTROL_NAME = ''fuzzing.science.vulnkext''"

definition MAX_KCTL_NAME :: nat where
  "MAX_KCTL_NAME = 96"

text \<open>\<open>strncpy\<close> fills the buffer up with zeros.\<close>

definition c_strncpy :: "string \<Rightarrow> nat \<Rightarrow> bytes" where
  "c_strncpy s n = take n (bytes_of s @ replicate n 0)"

datatype ctl_callback = Connect | Disconnect | Send | Setopt | Getopt

record kern_ctl_reg =
  ctl_name :: bytes
  ctl_id :: u32
  ctl_unit :: u32
  ctl_sendsize :: u32
  ctl_recvsize :: u32
  ctl_callbacks :: "ctl_callback list"

definition vuln_ctl_reg :: kern_ctl_reg where
  "vuln_ctl_reg =
     \<lparr>ctl_name = (c_strncpy CONTROL_NAME MAX_KCTL_NAME)[MAX_KCTL_NAME - 1 := 0],
      ctl_id = 0, ctl_unit = 0, ctl_sendsize = 512 * 1024, ctl_recvsize = 512 * 1024,
      ctl_callbacks = [Connect, Disconnect, Send, Setopt, Getopt]\<rparr>"

text \<open>The module's own state: whether its control is registered, and how long its thread slept.\<close>

record module_state =
  kernel :: kstate
  ctlref :: "u64 option"
  registered :: "kern_ctl_reg list"
  slept :: nat
  threads :: nat

text \<open>What the kernel answers to the registration, the process lookup and the thread creation.\<close>

record module_env =
  ctl_register :: "kern_ctl_reg \<Rightarrow> module_state \<Rightarrow> errno \<times> u64"
  current_proc :: "module_state \<Rightarrow> u64"
  kernel_thread_start :: "module_state \<Rightarrow> int"
  activation_delay :: nat

definition insert_vuln_ctl :: "module_env \<Rightarrow> module_state \<Rightarrow> (vuln_stop + unit) \<times> module_state" where
  "insert_vuln_ctl env ms =
     (let ms = (if activation_delay env > 0 then ms\<lparr>slept := slept ms + activation_delay env * 1000\<rparr> else ms);
          (err, ref) = ctl_register env vuln_ctl_reg ms in
      if err \<noteq> 0 then (Inl Panic, ms)
      else
        (let ms = ms\<lparr>ctlref := Some ref, registered := vuln_ctl_reg # registered ms\<rparr> in
         (Inr (), ms\<lparr>kernel := (kernel ms)\<lparr>mem := store (kernproc_at (kernel ms))
                    (le_bytes 8 (current_proc env ms)) (mem (kernel ms))\<rparr>\<rparr>)))"

text \<open>The thread that runs \<open>insert_vuln_ctl\<close> is started; it runs on its own.\<close>

definition fuzzing_science_module_start :: "module_env \<Rightarrow> module_state \<Rightarrow> errno \<times> module_state" where
  "fuzzing_science_module_start env ms =
     (let kr = kernel_thread_start env ms in
      if kr \<noteq> KERN_SUCCESS then (KERN_FAILURE, ms)
      else (KERN_SUCCESS, ms\<lparr>threads := threads ms + 1\<rparr>))"

definition fuzzing_science_module_stop :: "module_state \<Rightarrow> errno \<times> module_state" where
  "fuzzing_science_module_stop ms = (KERN_SUCCESS, ms)"

end
