(* ===== verification/Vuln_Spec.thy ===== *)
theory Vuln_Spec
  imports Vuln_Control
begin

text \<open>
  What the handlers of the vulnerable extension do to memory, exactly. They all name the kernel as
  the process of their option, so every one of them is a plain copy; the copies from and to user
  space are never reached.
\<close>

section \<open>The copies\<close>

lemma sooptcopyin_kernel:
  "sopt_p sopt = kernproc st \<Longrightarrow>
   sooptcopyin env sopt buf (sopt_valsize sopt) (sopt_valsize sopt) st
     = ((0, sopt), st\<lparr>mem := bcopy (sopt_val sopt) buf (sopt_valsize sopt) (mem st)\<rparr>)"
  by (simp add: sooptcopyin_def)

lemma sooptcopyout_kernel:
  "sopt_p sopt = kernproc st \<Longrightarrow>
   sooptcopyout env sopt buf (sopt_valsize sopt) st
     = ((0, sopt), if sopt_val sopt = 0 then st
          else st\<lparr>mem := bcopy buf (sopt_val sopt) (sopt_valsize sopt) (mem st)\<rparr>)"
  by (simp add: sooptcopyout_def c_min_def Let_def)

lemma MALLOC_cases:
  obtains "kmalloc env st (unat n) = 0" "MALLOC env n st = (0, st)"
  | p where "kmalloc env st (unat n) = p" "p \<noteq> 0" "MALLOC env n st = (p, st\<lparr>blocks := (p, unat n) # blocks st\<rparr>)"
  by (cases "kmalloc env st (unat n) = 0") (auto simp: MALLOC_def Let_def)

section \<open>The handlers as copies\<close>

lemma heap_overflow_spec:
  "trigger_heap_overflow env data n st =
     (let p = kmalloc env st 255 in
      if p = 0 then (Inl Panic, st) else (Inr KERN_SUCCESS, st\<lparr>mem := bcopy data p n (mem st)\<rparr>))"
  by (simp add: trigger_heap_overflow_def sooptcopyin_def MALLOC_def FREE_def sopt_zero_def Let_def)

lemma buffer_overflow_spec:
  "trigger_buffer_overflow env data n st =
     (Inr KERN_SUCCESS, st\<lparr>mem := bcopy data (stack_buffer env st) n (mem st)\<rparr>)"
  by (simp add: trigger_buffer_overflow_def sooptcopyin_def sopt_zero_def Let_def)

lemma info_leak_spec:
  "trigger_info_leak env data n st =
     (let p = kmalloc env st (unat n) in
      if p = 0 then (Inl Panic, st)
      else (Inr KERN_SUCCESS, if data = 0 then st else st\<lparr>mem := bcopy p data n (mem st)\<rparr>))"
  by (simp add: trigger_info_leak_def sooptcopyout_def c_min_def MALLOC_def FREE_def sopt_zero_def Let_def)

lemma arbitrary_write_spec:
  "trigger_arbitrary_write env data n st =
     (Inr KERN_SUCCESS, st\<lparr>mem := bcopy (data + 8) (fetch64 (mem st) data) n (mem st)\<rparr>)"
  by (simp add: trigger_arbitrary_write_def sooptcopyin_def sopt_zero_def Let_def)

lemma double_fetch_spec:
  "trigger_double_fetch env data n st =
     (let p = kmalloc env st 255; size1 = ucast (fetch32 (mem st) data) :: u64; m = others env (mem st) in
      if p = 0 then (Inl Panic, st)
      else if size1 > 255 \<and> size1 \<ge> n then (Inr KERN_FAILURE, st)
      else (Inr KERN_SUCCESS, st\<lparr>mem := bcopy (fetch64 m (data + 8)) p (ucast (fetch32 m data)) m\<rparr>))"
  by (simp add: trigger_double_fetch_def sooptcopyin_def MALLOC_def FREE_def sopt_zero_def Let_def)

lemmas handler_specs = heap_overflow_spec buffer_overflow_spec info_leak_spec arbitrary_write_spec
  double_fetch_spec

end
