(* ===== verification/Option_Handlers.thy ===== *)
theory Option_Handlers
  imports Vuln_Spec
begin

text \<open>
  What all option handlers of the vulnerable extension have in common, however wrong their copies
  go: they give back the blocks they take, and their copies stay in the kernel, for they read
  \<open>kernproc\<close> for both sides of the comparison that would send a copy to user space. The contract is a
  locale, interpreted on every handler that copies; the dispatch of \<open>ctl_setopt\<close> and sequences of
  options inherit it.
\<close>

text \<open>Handling one option after the other, until one stops.\<close>

fun run_handlers :: "handler list \<Rightarrow> handler" where
  "run_handlers [] st = (Inr KERN_SUCCESS, st)"
| "run_handlers (h # hs) st =
     (case h st of (Inl e, st') \<Rightarrow> (Inl e, st') | (Inr _, st') \<Rightarrow> run_handlers hs st')"

lemma run_handlers_give_back:
  "(\<And>h st. h \<in> set hs \<Longrightarrow> blocks (snd (h st)) = blocks st) \<Longrightarrow> blocks (snd (run_handlers hs st)) = blocks st"
proof (induction hs arbitrary: st)
  case (Cons h hs)
  then have h: "blocks (snd (h st)) = blocks st" by simp
  show ?case
  proof (cases "h st")
    case (Pair r st')
    then show ?thesis using Cons h by (cases r) auto
  qed
qed simp

locale option_handler =
  fixes handle :: "kernel_env \<Rightarrow> u64 \<Rightarrow> u64 \<Rightarrow> handler"
  assumes gives_back: "blocks (snd (handle env data n st)) = blocks st"
    and stays_in_kernel: "handle (env\<lparr>copyin := f, copyout := g\<rparr>) data n st = handle env data n st"
begin

lemma all_give_back: "blocks (snd (run_handlers (map (\<lambda>(data, n). handle env data n) calls) st)) = blocks st"
  by (rule run_handlers_give_back) (auto simp: gives_back)

lemma all_stay_in_kernel: "handle (env\<lparr>copyin := f, copyout := g\<rparr>) = handle env"
  by (intro ext) (rule stays_in_kernel)

end

interpretation heap_overflow: option_handler trigger_heap_overflow
  by unfold_locales (simp_all add: heap_overflow_spec Let_def)

interpretation buffer_overflow: option_handler trigger_buffer_overflow
  by unfold_locales (simp_all add: buffer_overflow_spec)

interpretation info_leak: option_handler trigger_info_leak
  by unfold_locales (simp_all add: info_leak_spec Let_def)

interpretation arbitrary_write: option_handler trigger_arbitrary_write
  by unfold_locales (simp_all add: arbitrary_write_spec)

interpretation double_fetch: option_handler trigger_double_fetch
  by unfold_locales (simp_all add: double_fetch_spec Let_def)

text \<open>
  The dispatch keeps the contract. What the code at the address a crash calls does with the
  blocks, if it returns, is not the extension's doing.
\<close>

lemma setopt_gives_back:
  "opt \<noteq> CRASH \<Longrightarrow> blocks (snd (ctl_setopt env opt data n st)) = blocks st"
  using heap_overflow.gives_back buffer_overflow.gives_back info_leak.gives_back
    arbitrary_write.gives_back double_fetch.gives_back
  by (simp add: ctl_setopt_def trigger_use_after_free_def trigger_integer_overflow_def)

lemma setopt_stays_in_kernel:
  "ctl_setopt (env\<lparr>copyin := f, copyout := g\<rparr>) opt data n = ctl_setopt env opt data n"
  by (rule ext)
    (simp add: ctl_setopt_def trigger_crash_def heap_overflow.stays_in_kernel buffer_overflow.stays_in_kernel
      info_leak.stays_in_kernel arbitrary_write.stays_in_kernel double_fetch.stays_in_kernel)

end
