(* ===== verification/Kext_Client.thy ===== *)
theory Kext_Client
  imports Vuln_Control
begin

text \<open>
  \<^verbatim>\<open>kext_client.c\<close> and the request codes of \<^verbatim>\<open>kern_control.h\<close>: the client looks up the control of
  the vulnerable extension by name, connects to it and sets the heap overflow option. What the
  system calls answer is a parameter; the calls it makes are logged, oldest first.
\<close>

section \<open>Request codes\<close>

definition IOCPARM_MASK :: u32 where "IOCPARM_MASK = 0x1fff"
definition IOC_VOID :: u32 where "IOC_VOID = 0x20000000"
definition IOC_OUT :: u32 where "IOC_OUT = 0x40000000"
definition IOC_IN :: u32 where "IOC_IN = 0x80000000"
definition IOC_INOUT :: u32 where "IOC_INOUT = IOC_IN OR IOC_OUT"
definition IOC_DIRMASK :: u32 where "IOC_DIRMASK = 0xe0000000"

definition IOCPARM_LEN :: "u32 \<Rightarrow> u32" where
  "IOCPARM_LEN x = drop_bit 16 x AND IOCPARM_MASK"

definition IOCBASECMD :: "u32 \<Rightarrow> u32" where
  "IOCBASECMD x = x AND NOT (push_bit 16 IOCPARM_MASK)"

definition IOCGROUP :: "u32 \<Rightarrow> u32" where
  "IOCGROUP x = drop_bit 8 x AND 0xff"

definition ioc :: "u32 \<Rightarrow> u32 \<Rightarrow> u32 \<Rightarrow> u32 \<Rightarrow> u32" where
  "ioc dir grp num len = dir OR push_bit 16 (len AND IOCPARM_MASK) OR push_bit 8 grp OR num"

text \<open>\<open>struct ctl_info\<close> is the id and a name of \<open>MAX_KCTL_NAME\<close> bytes.\<close>

record ctl_info =
  info_id :: u32
  info_name :: bytes

definition sizeof_ctl_info :: u32 where
  "sizeof_ctl_info = 4 + of_nat MAX_KCTL_NAME"

definition CTLIOCGCOUNT :: u32 where
  "CTLIOCGCOUNT = ioc IOC_OUT (of_char (CHR ''N'')) 2 4"

definition CTLIOCGINFO :: u32 where
  "CTLIOCGINFO = ioc IOC_INOUT (of_char (CHR ''N'')) 3 sizeof_ctl_info"

section \<open>The client\<close>

record sockaddr_ctl =
  sc_len :: u8
  sc_family :: u8
  ss_sysaddr :: u16
  sc_id :: u32
  sc_unit :: u32

datatype client_call =
    Socket int int int
  | Ioctl int u32 ctl_info
  | Connect_call int sockaddr_ctl
  | Setsockopt int int int bytes
  | Close int

text \<open>The answers: a descriptor or -1, an error and the id found, an error, an error.\<close>

record client_env =
  os_socket :: int
  os_ioctl :: "u32 \<Rightarrow> ctl_info \<Rightarrow> int \<times> u32"
  os_connect :: "int \<Rightarrow> sockaddr_ctl \<Rightarrow> int"
  os_setsockopt :: "int \<Rightarrow> int \<Rightarrow> int \<Rightarrow> bytes \<Rightarrow> int"

text \<open>\<open>Inl\<close> is a call of \<open>exit\<close>.\<close>

type_synonym 'a client = "(int + 'a) \<times> client_call list"

definition PF_SYSTEM :: int where "PF_SYSTEM = 32"
definition SOCK_DGRAM :: int where "SOCK_DGRAM = 2"
definition SYSPROTO_CONTROL :: int where "SYSPROTO_CONTROL = 2"
definition AF_SYSTEM :: u8 where "AF_SYSTEM = 32"
definition AF_SYS_CONTROL :: u16 where "AF_SYS_CONTROL = 2"

text \<open>The name argument is not used: the constant is copied.\<close>

definition getctlidbybame :: "client_env \<Rightarrow> int \<Rightarrow> string \<Rightarrow> u32 client" where
  "getctlidbybame env sock nm =
     (let info = \<lparr>info_id = 0, info_name = c_strncpy CONTROL_NAME MAX_KCTL_NAME\<rparr>;
          (err, i) = os_ioctl env CTLIOCGINFO info in
      (if err \<noteq> 0 then Inl (-1) else Inr i, [Ioctl sock CTLIOCGINFO info]))"

text \<open>A failed \<open>connect\<close> only prints a message.\<close>

definition socket_ctl :: "client_env \<Rightarrow> string \<Rightarrow> int client" where
  "socket_ctl env nm =
     (let sock = os_socket env;
          c1 = [Socket PF_SYSTEM SOCK_DGRAM SYSPROTO_CONTROL] in
      if sock < 0 then (Inr 0, c1)
      else
        (case getctlidbybame env sock nm of
           (Inl e, c2) \<Rightarrow> (Inl e, c1 @ c2)
         | (Inr i, c2) \<Rightarrow>
             (if i = 0 then (Inr 0, c1 @ c2)
              else
                (let ad = \<lparr>sc_len = 32, sc_family = AF_SYSTEM, ss_sysaddr = AF_SYS_CONTROL, sc_id = i, sc_unit = 0\<rparr> in
                 (Inr sock, c1 @ c2 @ [Connect_call sock ad])))))"

text \<open>The exit status and the calls.\<close>

definition client_main :: "client_env \<Rightarrow> int \<times> client_call list" where
  "client_main env =
     (case socket_ctl env CONTROL_NAME of
        (Inl e, cs) \<Rightarrow> (e, cs)
      | (Inr ctrl, cs) \<Rightarrow>
          (if ctrl = 0 then (1, cs)
           else
             (let address = replicate 1024 0x42;
                  cs = cs @ [Setsockopt ctrl SYSPROTO_CONTROL HEAP_OVERFLOW address, Close ctrl] in
              if os_setsockopt env ctrl SYSPROTO_CONTROL HEAP_OVERFLOW address \<noteq> 0
              then (1, cs) else (0, cs))))"

section \<open>What the client does\<close>

text \<open>The code for looking up a control, as the kernel's headers print it.\<close>

lemma CTLIOCGINFO_code: "CTLIOCGINFO = 0xC0644E03" "CTLIOCGCOUNT = 0x40044E02"
  by code_simp+

lemma client_main_sets_option:
  "Setsockopt fd lvl opt data \<in> set (snd (client_main env)) \<longleftrightarrow>
     os_socket env > 0 \<and> fst (os_ioctl env CTLIOCGINFO \<lparr>info_id = 0, info_name = c_strncpy CONTROL_NAME MAX_KCTL_NAME\<rparr>) = 0
     \<and> snd (os_ioctl env CTLIOCGINFO \<lparr>info_id = 0, info_name = c_strncpy CONTROL_NAME MAX_KCTL_NAME\<rparr>) \<noteq> 0
     \<and> fd = os_socket env \<and> lvl = SYSPROTO_CONTROL \<and> opt = HEAP_OVERFLOW \<and> data = replicate 1024 0x42"
  by (auto simp: client_main_def socket_ctl_def getctlidbybame_def Let_def split_beta)

end
