(* ===== verification/Vuln_Props.thy ===== *)
theory Vuln_Props
  imports Option_Handlers Kext_Client
begin

text \<open>
  The properties of the vulnerable extension and its client: what each flaw lets a caller do,
  exactly, what the handlers keep nevertheless, and what the client's one option does to the kernel.
\<close>

section \<open>A sample kernel\<close>

text \<open>Blocks are at 0x9000 and hold 0xDD, the caller's buffer is at 0x5000, the global \<open>kernproc\<close> at
  0x8000.\<close>

definition sample_kernel_env :: kernel_env where
  "sample_kernel_env =
     \<lparr>kmalloc = (\<lambda>_ _. 0x9000), copyin = (\<lambda>_ _ _ m. (14, m)), copyout = (\<lambda>_ _ _ m. (14, m)),
      stack_buffer = (\<lambda>_. 0x7000), call_at = (\<lambda>_ _ _. None), others = id\<rparr>"

definition sample_kstate :: "bytes \<Rightarrow> kstate" where
  "sample_kstate bs = \<lparr>mem = store 0x5000 bs (\<lambda>_. 0xDD), blocks = [(0x100, 16)], kernproc_at = 0x8000\<rparr>"

section \<open>Overflows\<close>

text \<open>C24: both overflow handlers return success for every length, and copy exactly the caller's bytes to
  the 255-byte buffer and what lies behind it: nothing else changes, nothing outside the buffer
  changes up to 255 bytes, and from 256 bytes on the byte behind the buffer becomes the caller's.\<close>

theorem overflow_exact:
  assumes "h = trigger_heap_overflow env data n \<and> p = kmalloc env st 255 \<and> p \<noteq> 0
    \<or> h = trigger_buffer_overflow env data n \<and> p = stack_buffer env st"
  shows "\<exists>st'. h st = (Inr KERN_SUCCESS, st') \<and> blocks st' = blocks st
    \<and> fetch (mem st') p (unat n) = fetch (mem st) data (unat n)
    \<and> (\<forall>x. \<not> within p (unat n) x \<longrightarrow> mem st' x = mem st x)
    \<and> (unat n \<le> 255 \<longrightarrow> (\<forall>x. \<not> within p 255 x \<longrightarrow> mem st' x = mem st x))
    \<and> (255 < unat n \<longrightarrow> mem st' (p + 255) = mem st (data + 255))"
proof -
  have "h st = (Inr KERN_SUCCESS, st\<lparr>mem := bcopy data p n (mem st)\<rparr>)"
    using assms by (auto simp: heap_overflow_spec buffer_overflow_spec)
  moreover have "255 < unat n \<Longrightarrow> within p (unat n) (p + 255)"
    by (simp add: within_def)
  moreover have "unat n \<le> 255 \<Longrightarrow> \<not> within p 255 x \<Longrightarrow> \<not> within p (unat n) x" for x
    using within_mono by blast
  ultimately show ?thesis
    by (auto simp: fetch_bcopy_dst bcopy_at)
qed

theorem overflow_exact_witness:
  "\<exists>st'. trigger_heap_overflow sample_kernel_env 0x5000 256 (sample_kstate (replicate 256 0x42)) = (Inr KERN_SUCCESS, st')
     \<and> mem st' 0x90FF = 0x42 \<and> mem (sample_kstate (replicate 256 0x42)) 0x90FF = 0xDD"
proof -
  have "trigger_heap_overflow sample_kernel_env 0x5000 256 = trigger_heap_overflow sample_kernel_env 0x5000 256
      \<and> (0x9000 :: u64) = kmalloc sample_kernel_env (sample_kstate (replicate 256 0x42)) 255 \<and> (0x9000 :: u64) \<noteq> 0
    \<or> trigger_heap_overflow sample_kernel_env 0x5000 256 = trigger_buffer_overflow sample_kernel_env 0x5000 256
      \<and> (0x9000 :: u64) = stack_buffer sample_kernel_env (sample_kstate (replicate 256 0x42))"
    by (simp add: sample_kernel_env_def)
  from overflow_exact [OF this] show ?thesis
    by (auto simp: sample_kstate_def store_def within_def)
qed

text \<open>C25: the arbitrary write is one: for every target address and every string of bytes, a buffer that
  holds the address and the bytes makes the kernel store those bytes there and change nothing else.\<close>

theorem arbitrary_write_anywhere:
  assumes "length bs < 2 ^ 63" and "fetch (mem st) data (8 + length bs) = le_bytes 8 target @ bs"
  shows "\<exists>st'. ctl_setopt env ARBITRARY_WRITE data (of_nat (length bs)) st = (Inr KERN_SUCCESS, st')
    \<and> fetch (mem st') target (length bs) = bs
    \<and> (\<forall>x. \<not> within target (length bs) x \<longrightarrow> mem st' x = mem st x)"
proof -
  have n: "unat (of_nat (length bs) :: u64) = length bs"
    using assms(1) by (simp add: unat_of_nat)
  have split: "fetch (mem st) data (8 + length bs) = fetch (mem st) data 8 @ fetch (mem st) (data + 8) (length bs)"
    by (rule nth_equalityI) (auto simp: nth_append ac_simps)
  then have "fetch (mem st) data 8 = le_bytes 8 target" "fetch (mem st) (data + 8) (length bs) = bs"
    using assms(2) by simp_all
  then have "fetch64 (mem st) data = target" "fetch (mem st) (data + 8) (length bs) = bs"
    by (simp_all add: fetch64_def)
  then show ?thesis
    by (auto simp: ctl_setopt_def option_defs arbitrary_write_spec fetch_bcopy_dst n bcopy_at)
qed

theorem arbitrary_write_anywhere_witness:
  "\<exists>st'. ctl_setopt sample_kernel_env ARBITRARY_WRITE 0x5000 2 (sample_kstate (le_bytes 8 (0x100 :: u64) @ [1, 2]))
       = (Inr KERN_SUCCESS, st')
     \<and> fetch (mem st') 0x100 2 = [1, 2]"
proof -
  have "fetch (mem (sample_kstate (le_bytes 8 (0x100 :: u64) @ [1, 2]))) 0x5000 10 = le_bytes 8 (0x100 :: u64) @ [1, 2]"
    using fetch_store [of 0 10 "le_bytes 8 (0x100 :: u64) @ [1, 2]" "0x5000" "\<lambda>_. 0xDD"]
    by (simp add: sample_kstate_def)
  moreover have len: "length [1, 2 :: u8] = 2" "(8 :: nat) + length [1, 2 :: u8] = 10" by simp_all
  ultimately show ?thesis
    using arbitrary_write_anywhere [of "[1, 2]" "sample_kstate (le_bytes 8 (0x100 :: u64) @ [1, 2])" "0x5000" "0x100"
      sample_kernel_env] unfolding len by auto
qed

text \<open>C26: the size of the double fetch handler is checked against the wrong bound and only on the first
  fetch: the handler refuses exactly when the first size is above 255 and not below the caller's
  length; otherwise it copies as many bytes as the second fetch says from the address the structure
  then holds, taken as a kernel address, into its 255-byte block.\<close>

theorem double_fetch_check:
  assumes p: "kmalloc env st 255 \<noteq> 0"
  shows "\<exists>st'. trigger_double_fetch env data n st =
      (if 255 < fetch32 (mem st) data \<and> n \<le> ucast (fetch32 (mem st) data) then (Inr KERN_FAILURE, st)
       else (Inr KERN_SUCCESS, st'))
    \<and> (let m = others env (mem st); k = unat (fetch32 m data); p = kmalloc env st 255 in
         fetch (mem st') p k = fetch m (fetch64 m (data + 8)) k
         \<and> (\<forall>x. \<not> within p k x \<longrightarrow> mem st' x = m x)
         \<and> (255 < k \<longrightarrow> mem st' (p + 255) = m (fetch64 m (data + 8) + 255)))"
proof -
  let ?m = "others env (mem st)"
  let ?st' = "st\<lparr>mem := bcopy (fetch64 ?m (data + 8)) (kmalloc env st 255) (ucast (fetch32 ?m data)) ?m\<rparr>"
  have u: "unat (ucast (w :: u32) :: u64) = unat w" for w
    using unat_u32_less [of w] by (simp add: unsigned_ucast_eq take_bit_nat_eq_self)
  have le: "(255 :: u64) < ucast (w :: u32) \<longleftrightarrow> 255 < w" for w
    by (simp add: word_less_nat_alt u)
  have "trigger_double_fetch env data n st =
      (if 255 < fetch32 (mem st) data \<and> n \<le> ucast (fetch32 (mem st) data) then (Inr KERN_FAILURE, st)
       else (Inr KERN_SUCCESS, ?st'))"
    using p by (simp add: double_fetch_spec Let_def le)
  moreover have "255 < k \<Longrightarrow> within q k (q + 255)" for q k
    by (simp add: within_def)
  ultimately show ?thesis
    by (intro exI [of _ ?st']) (simp add: Let_def fetch_bcopy_dst u bcopy_at)
qed

theorem double_fetch_check_witness:
  "\<exists>st'. trigger_double_fetch sample_kernel_env 0x5000 1024
       (sample_kstate (le_bytes 4 (300 :: u32) @ replicate 4 0 @ le_bytes 8 (0x2000 :: u64)))
     = (Inr KERN_SUCCESS, st')"
proof -
  let ?bs = "le_bytes 4 (300 :: u32) @ replicate 4 0 @ le_bytes 8 (0x2000 :: u64)"
  have "fetch (mem (sample_kstate ?bs)) 0x5000 4 = le_bytes 4 (300 :: u32)"
    using fetch_store [of 0 4 ?bs "0x5000" "\<lambda>_. 0xDD"] by (simp add: sample_kstate_def)
  then have "fetch32 (mem (sample_kstate ?bs)) 0x5000 = 300" by (simp add: fetch32_def)
  with double_fetch_check [of sample_kernel_env "sample_kstate ?bs" "0x5000" 1024] show ?thesis
    by (auto simp: sample_kernel_env_def)
qed

text \<open>C27: the information leak hands the caller exactly what the freshly allocated block held before, as
  many bytes as were asked for; with no buffer nothing is copied. The block is given back.\<close>

theorem info_leak_exposes:
  assumes "kmalloc env st (unat n) \<noteq> 0"
  shows "\<exists>st'. trigger_info_leak env data n st = (Inr KERN_SUCCESS, st') \<and> blocks st' = blocks st
    \<and> (if data = 0 then mem st' = mem st
       else fetch (mem st') data (unat n) = fetch (mem st) (kmalloc env st (unat n)) (unat n)
         \<and> (\<forall>x. \<not> within data (unat n) x \<longrightarrow> mem st' x = mem st x))"
  using assms by (auto simp: info_leak_spec Let_def fetch_bcopy_dst bcopy_at)

theorem info_leak_exposes_witness:
  "\<exists>st'. trigger_info_leak sample_kernel_env 0x5000 4 (sample_kstate [0, 0, 0, 0]) = (Inr KERN_SUCCESS, st')
     \<and> fetch (mem st') 0x5000 4 = [0xDD, 0xDD, 0xDD, 0xDD]"
proof -
  have "fetch (mem (sample_kstate [0, 0, 0, 0])) 0x9000 4 = [0xDD, 0xDD, 0xDD, 0xDD]"
    by code_simp
  with info_leak_exposes [of sample_kernel_env "sample_kstate [0, 0, 0, 0]" 4 "0x5000"] show ?thesis
    by (auto simp: sample_kernel_env_def)
qed

text \<open>C28: whatever sequence of options is set, with whatever buffers and lengths, the handlers give back
  every block they allocate and no other (a crash aside, where the called code decides); and the
  whole sequence runs the same whatever the user-space copies do, for they are never reached when the
  options are handled one after the other, not even after one of them has overwritten the global
  \<open>kernproc\<close> that is to guard them.\<close>

theorem options_keep_books:
  "((\<forall>(opt, data, n) \<in> set calls. opt \<noteq> CRASH) \<longrightarrow>
      blocks (snd (run_handlers (map (\<lambda>(opt, data, n). ctl_setopt env opt data n) calls) st)) = blocks st)
    \<and> run_handlers (map (\<lambda>(opt, data, n). ctl_setopt (env\<lparr>copyin := f, copyout := g\<rparr>) opt data n) calls) st
      = run_handlers (map (\<lambda>(opt, data, n). ctl_setopt env opt data n) calls) st"
proof (intro conjI impI)
  assume "\<forall>(opt, data, n) \<in> set calls. opt \<noteq> CRASH"
  then show "blocks (snd (run_handlers (map (\<lambda>(opt, data, n). ctl_setopt env opt data n) calls) st)) = blocks st"
    by (intro run_handlers_give_back) (auto simp: setopt_gives_back)
qed (simp add: setopt_stays_in_kernel)

text \<open>The first option of the sample overwrites \<open>kernproc\<close>, the second then copies.\<close>

definition kernproc_calls :: "(int \<times> u64 \<times> u64) list" where
  "kernproc_calls = [(ARBITRARY_WRITE, 0x5000, 8), (HEAP_OVERFLOW, 0x5000, 300)]"

definition kernproc_kstate :: kstate where
  "kernproc_kstate = sample_kstate (le_bytes 8 (0x8000 :: u64) @ le_bytes 8 (0x77 :: u64))"

theorem options_keep_books_witness:
  "(\<exists>st'. ctl_setopt sample_kernel_env ARBITRARY_WRITE 0x5000 8 kernproc_kstate = (Inr KERN_SUCCESS, st')
      \<and> kernproc kernproc_kstate = 0xDDDDDDDDDDDDDDDD \<and> kernproc st' = 0x77)
    \<and> blocks (snd (run_handlers (map (\<lambda>(opt, data, n). ctl_setopt sample_kernel_env opt data n) kernproc_calls)
        kernproc_kstate)) = [(0x100, 16)]"
proof (intro conjI)
  have "fetch64 (mem kernproc_kstate) 0x5000 = 0x8000"
    by code_simp
  then have "ctl_setopt sample_kernel_env ARBITRARY_WRITE 0x5000 8 kernproc_kstate
      = (Inr KERN_SUCCESS, kernproc_kstate\<lparr>mem := bcopy 0x5008 0x8000 8 (mem kernproc_kstate)\<rparr>)"
    by (simp add: ctl_setopt_def option_defs arbitrary_write_spec)
  moreover have "kernproc kernproc_kstate = 0xDDDDDDDDDDDDDDDD"
    "kernproc (kernproc_kstate\<lparr>mem := bcopy 0x5008 0x8000 8 (mem kernproc_kstate)\<rparr>) = 0x77"
    by code_simp+
  ultimately show "\<exists>st'. ctl_setopt sample_kernel_env ARBITRARY_WRITE 0x5000 8 kernproc_kstate = (Inr KERN_SUCCESS, st')
      \<and> kernproc kernproc_kstate = 0xDDDDDDDDDDDDDDDD \<and> kernproc st' = 0x77" by simp
  have "\<forall>(opt, data, n) \<in> set kernproc_calls. opt \<noteq> CRASH"
    by (simp add: kernproc_calls_def option_defs)
  with conjunct1 [OF options_keep_books [where calls = kernproc_calls and st = kernproc_kstate]]
  show "blocks (snd (run_handlers (map (\<lambda>(opt, data, n). ctl_setopt sample_kernel_env opt data n) kernproc_calls)
        kernproc_kstate)) = [(0x100, 16)]"
    by (simp add: kernproc_kstate_def sample_kstate_def)
qed

section \<open>The client\<close>

text \<open>C29: the only option the client ever sets overflows the kernel's heap: if its request reaches the
  extension with its bytes at some address, the 769 bytes behind the allocated block become 0x42, and
  nothing else than the block and these bytes changes.\<close>

theorem client_overflows_heap:
  assumes "Setsockopt fd lvl opt bs \<in> set (snd (client_main cenv))"
    and "fetch (mem st) data (length bs) = bs" and "kmalloc env st 255 \<noteq> 0"
  shows "\<exists>st'. ctl_setopt env opt data (of_nat (length bs)) st = (Inr KERN_SUCCESS, st')
    \<and> fetch (mem st') (kmalloc env st 255 + 255) 769 = replicate 769 0x42
    \<and> (\<forall>x. \<not> within (kmalloc env st 255) 1024 x \<longrightarrow> mem st' x = mem st x)"
proof -
  let ?p = "kmalloc env st 255"
  have bs: "bs = replicate 1024 0x42" and opt: "opt = HEAP_OVERFLOW"
    using assms(1) by (simp_all add: client_main_sets_option)
  have f: "fetch (mem st) data 1024 = replicate 1024 0x42" using assms(2) unfolding bs length_replicate .
  have "fetch (bcopy data ?p (of_nat 1024) (mem st)) (?p + of_nat 255) 769 = replicate 769 0x42"
    by (rule fetch_bcopy_fill [OF f]) simp_all
  then show ?thesis
    using assms(3) by (auto simp: opt bs ctl_setopt_def option_defs heap_overflow_spec bcopy_at Let_def)
qed

definition sample_client :: client_env where
  "sample_client = \<lparr>os_socket = 3, os_ioctl = (\<lambda>_ _. (0, 9)), os_connect = (\<lambda>_ _. 0), os_setsockopt = (\<lambda>_ _ _ _. 0)\<rparr>"

theorem client_overflows_heap_witness:
  "\<exists>st'. ctl_setopt sample_kernel_env HEAP_OVERFLOW 0x5000 1024 (sample_kstate (replicate 1024 0x42)) = (Inr KERN_SUCCESS, st')
     \<and> fetch (mem st') 0x90FF 769 = replicate 769 0x42"
proof -
  have c: "Setsockopt 3 SYSPROTO_CONTROL HEAP_OVERFLOW (replicate 1024 0x42) \<in> set (snd (client_main sample_client))"
    by (simp only: client_main_sets_option) (simp add: sample_client_def)
  have "fetch (mem (sample_kstate (replicate 1024 0x42))) 0x5000 (length (replicate 1024 (0x42 :: u8))) = replicate 1024 0x42"
    using fetch_store [of 0 1024 "replicate 1024 0x42" "0x5000" "\<lambda>_. 0xDD"] by (simp add: sample_kstate_def)
  from client_overflows_heap [OF c this, of sample_kernel_env] show ?thesis
    by (auto simp: sample_kernel_env_def)
qed

end
