(* ===== verification/Spec2Isabelle.thy ===== *)
theory Spec2Isabelle
  imports Upload_Path Accept_Props Patch_Props Kext_Props Loader_Props Vuln_Props
begin

text \<open>
  A verification development for the repository's four programs: the loader that runs on the Mac
  (\<^verbatim>\<open>src/kext_loader/kext_loader.c\<close>), the pongoOS module that loads kernel extensions into the
  kernelcache and patches the kernel (\<^verbatim>\<open>src/pongo_module/kextload.c\<close>), the vulnerable kernel extension
  (\<^verbatim>\<open>src/vulnerable_kext\<close>) and its client (\<^verbatim>\<open>src/kext_client\<close>).

  \<^bold>\<open>How the parts interact.\<close> The loader reads directories of symbols files into an intermediate table,
  serialises it, and sends the module, the table and the extensions over USB, each upload followed
  by a command. The module answers the command \<^verbatim>\<open>kernelcache-symbols\<close> by checking the table and
  putting it in front of a chain, and the command \<^verbatim>\<open>kextload\<close> by parsing the uploaded Mach-O file,
  allocating and filling its image, relocating it, linking it against the symbol tables and adding
  it to the prelink dictionary of the kernelcache. Its pre-boot hook patches the kernel text. The
  extension then registers a kernel control whose options trigger the flaws; the client sets one.

  \<^bold>\<open>Conventions.\<close> \<open>Prelude\<close>: objects of C are byte regions with checked access. In the module and in the
  serialiser a result of type \<open>('e + 'a) option\<close> is \<open>None\<close> for an access outside an object, \<open>Inl\<close> for
  an error the code reports, \<open>Inr\<close> for a result, so that "not \<open>None\<close>" is memory safety. Integers
  are words of their C width and wrap. In the loader's device handling the answers of IOKit and Mach are an
  arbitrary function of the log of all calls so far (\<open>Io_Calls\<close>). The answers about files and directories
  (\<open>Host_File\<close>: \<^verbatim>\<open>open\<close>, \<^verbatim>\<open>fstat\<close>, \<^verbatim>\<open>mmap\<close>, \<^verbatim>\<open>opendir\<close>) are an arbitrary function of path and descriptor only: the
  files do not change while the program runs. Assertions and undefined behaviour are values \<open>Inl\<close>, and
  a run that never ends is \<open>None\<close>.

  \<^bold>\<open>The loader.\<close>
  \<^item> \<open>Text_Parser\<close>, \<open>Symbols_File\<close>, \<open>Symbols_Render\<close>: \<^verbatim>\<open>tp_*\<close> and the two file parsers. Each is an instance
    of the locale \<open>scanner\<close>, which relates it to a function on the remaining text, so that none
    depends on a byte behind the file. Printing a file and reading it back is the identity.
  \<^item> \<open>Host_File\<close>, \<open>Symbol_State\<close>, \<open>Symbol_Spec\<close>: \<^verbatim>\<open>map_file\<close>, \<^verbatim>\<open>struct kcs_state\<close> and the reading of
    directories, refined to a fold of the file specification over the eligible files.
  \<^item> \<open>Symbol_Blob\<close>: the serialiser, proved to write exactly the documented format.
  \<^item> \<open>Io_Calls\<close>, \<open>Pongo_Usb\<close>: the calls into IOKit and Mach, what the program holds after a log
    (\<open>refs\<close>, \<open>None\<close> once something is released that is not held), opening with retries and its cleanup
    ladder, closing, and the transfers. The rules \<open>owns_*\<close> follow the shape of the code call by call.
  \<^item> \<open>Loader\<close>, \<open>Loader_Spec\<close>, \<open>Loader_Protocol\<close>, \<open>Log_Growth\<close>: the uploads, the list of tracked devices, the
    callbacks and the main loop; what they hold, what the device sees, and that logs only grow.
  \<^item> \<open>Service_Iteration\<close>, \<open>Device_Notifications\<close>: the loop both callbacks are, as the relation \<open>drains\<close>
    and the locales \<open>service_iteration\<close> and \<open>owned_iteration\<close>, interpreted on both.
  \<^item> \<open>Loader_Args\<close>, \<open>Loader_Run\<close>: the command line, and the main loop's cleanup.

  \<^bold>\<open>The module.\<close>
  \<^item> \<open>Pongo_Std\<close>: \<^verbatim>\<open>memcmp_\<close>, \<^verbatim>\<open>strnlen_\<close> and the pointer conversions.
  \<^item> \<open>Kernelcache_Symbols\<close>, \<open>Kernelcache_Tables\<close>, \<open>Symbol_Roundtrip\<close>: finding the UUID, the
    \<^verbatim>\<open>kernelcache-symbols\<close> command and the lookup, with the chain of tables as their invariant. The
    locale \<open>symbol_resolver\<close> is what the parser needs of a lookup.
  \<^item> \<open>Kext_Parse\<close>, \<open>Macho_Layout\<close>, \<open>Kext_Parse_Safe\<close>, \<open>Kext_Accept\<close>: \<^verbatim>\<open>kext_parse\<close>, what the files it accepts
    are, and exactly which files it accepts, as conditions on each command, symbol and relocation.
    The parser destroys split info commands in the buffer while it checks, so that its errors carry
    the file, too: \<open>Kext_Refused\<close> says what a refused upload looks like afterwards.
    \<open>Kext_Prefix\<close> relates its runs on two buffers: only the bytes of the upload decide.
  \<^item> \<open>Kext_Load\<close>, \<open>Kext_Image\<close>, \<open>Kext_Reloc\<close>: \<^verbatim>\<open>kext_alloc\<close>, \<^verbatim>\<open>kext_map\<close>, \<^verbatim>\<open>kext_relocate\<close>, \<^verbatim>\<open>kext_link\<close> with
    the image each of them builds.
  \<^item> \<open>Kext_Insert\<close>, \<open>Kext_Insert_Spec\<close>, \<open>Kext_Command\<close>: the prelink dictionary and the command;
    \<open>kextload_outcome\<close> says for each report of the command what it did.
  \<^item> \<open>Kext_Session\<close>: extensions uploaded one after the other. \<open>prelink_slack\<close> is the state of the section of
    the dictionaries that every insertion keeps, with the room that is left.
  \<^item> \<open>Upload_Path\<close>: the \<open>kextload\<close> requests in what a loader run sends, and what the module receives for them.
  \<^item> \<open>Kernel_Patch\<close>, \<open>Kernel_Patch_Spec\<close>: the three patch callbacks, their patterns, the hook chain and the
    module's entry point; \<open>patch_step\<close> is all that a run may do to the kernel text.

  \<^bold>\<open>The vulnerable extension and the client.\<close>
  \<^item> \<open>Kernel_Memory\<close>, \<open>Vulnerabilities\<close>, \<open>Vuln_Spec\<close>: a flat kernel memory, in which the global \<^verbatim>\<open>kernproc\<close>
    lies, a ghost record of the blocks that \<^verbatim>\<open>MALLOC\<close> returned and \<^verbatim>\<open>FREE\<close> has not taken back, the socket
    option copies and the handlers, each reduced to one copy.
  \<^item> \<open>Vuln_Control\<close>, \<open>Option_Handlers\<close>: the option dispatch, the registration and the entry points; the
    locale \<open>option_handler\<close> (blocks taken are given back, the copies stay in the kernel) is interpreted on
    every handler.
  \<^item> \<open>Kext_Client\<close>: the client over logged system calls.

  \<^bold>\<open>The properties\<close> are in \<open>Accept_Props\<close>, \<open>Kext_Props\<close>, \<open>Patch_Props\<close>, \<open>Symbols_Props\<close>, \<open>Upload_Props\<close>,
  \<open>Loader_Props\<close>, \<open>Vuln_Props\<close> and, for the paths from the symbols files to the module's lookup and from
  the extension files to the kernelcache, in this theory. \<open>Kext_Samples\<close> builds the Mach-O file their
  witnesses run on, \<open>Kext_Upload\<close> the module it is uploaded to.

  \<^bold>\<open>Bounds and fuel.\<close> Loops with a counter are recursions with a measure: the retries of
  \<open>usb_open_tries\<close> end after \<open>PONGO_USB_OPEN_MAX_TRIES + 1\<close> attempts. Loops that the environment ends
  (the callbacks, the dispatch of messages, the main loop) are \<open>partial_function\<close>s; the callbacks are
  proved to return for iterators that run empty, the main loop is meant to run for ever. Only
  \<open>run_hook\<close> takes fuel, as the hook chain has no bound of its own: depth two is enough after one entry,
  and no depth is enough after two, which is a theorem.

  \<^bold>\<open>Parameters and hypotheses.\<close> Outside the repository, hence parameters: the operating system, IOKit,
  \<open>malloc\<close> and what fresh memory holds, pongoOS's \<open>alloc_static\<close>, \<open>macho_get_section\<close> and pattern matcher,
  the kernel's copies from and to user space. Their documented behaviour is named where it is used
  (\<open>os_sound\<close>, \<open>os_small\<close>). Hypotheses about uploads name what the code relies on and does not check:
  \<open>upload_sane\<close> for symbol tables, \<open>kext_layout_sane\<close> for extensions, \<open>prelink_room\<close> for the kernelcache; the
  theorems of kind error show what happens without them. \<open>no_removal_reported\<close> says of one run of the
  loader that no device went away in it. That is not how every run goes: devices do go away, the
  loader registers for it, and the theorem on removals shows that the books then break.

  \<^bold>\<open>Not modelled.\<close> The text of messages; the asynchronous read of \<^verbatim>\<open>kext_loader.c\<close> under \<^verbatim>\<open>#if 0\<close>; what
  pongoOS and IOKit do inside (\<^verbatim>\<open>pongo.h\<close> and the headers under \<^verbatim>\<open>third_party\<close> only declare them); the
  configuration of \<^verbatim>\<open>module_entry\<close> other than the default; freed memory being used again by other
  programs; what an overflow does to a return address; concurrency, except the interference between
  the two fetches of \<open>trigger_double_fetch\<close>.
\<close>

section \<open>From the symbols files to the lookup\<close>

text \<open>C4: what the loader reads, sends and the module answers fit together: when the symbols were loaded
  and the module has received exactly the bytes written to the pipe, then, for a kernelcache
  the symbols files describe, the command accepts the upload, and the lookup of a name gives the
  address of its first line in the files of that kernelcache, in the order read.\<close>

theorem symbols_end_to_end:
  assumes sym: "fst (kcs_update_directories (host le) (kernelcache_symbols_path cfg) kcs_empty) = Inr st"
    and os: "os_sound (host le)" "os_small (host le)" and fits: "blob_fits st" "blob_bound st < 4294967296"
    and mem: "\<And>l n. snd (io le l (malloc n)) \<noteq> 0" "\<And>n. allocate n \<noteq> None"
    and run: "pongo_kext_load_symbols le cfg d l = (Inr ok, l')"
    and sent: "wire l' = wire l @ w" "WritePipe (interface d) 2 data \<in> set w"
    and got: "pongo_ok ps" "holds (loader_xfer_recv_data ps) 0 data" "unat (loader_xfer_recv_count ps) = length data"
    and kernel: "(current_uuid ps, t) \<in> set (fold spec_file (all_texts (host le) (kernelcache_symbols_path cfg)) [])" "t \<noteq> []"
  shows "\<exists>n ps'. command_kernelcache_symbols allocate ps = Some (Inr n, ps') \<and> unat n = length t
    \<and> (\<forall>nm. CHR 0x00 \<notin> set nm \<longrightarrow>
         kernelcache_symbol_table_lookup ps' (bytes_of nm) =
           (case map_of t nm of
              Some a \<Rightarrow> Some a
            | None \<Rightarrow> kernelcache_symbol_table_lookup ps (bytes_of nm)))"
proof -
  have "kcs_abs kcs_empty = []" by (simp add: kcs_abs_def kcs_empty_def)
  then have st: "kcs_inv st" "kcs_max_ok st" and abs: "kcs_abs st = fold spec_file (all_texts (host le) (kernelcache_symbols_path cfg)) []"
    using kcs_update_directories_spec [OF sym os kcs_inv_empty fits(1)] by simp_all
  obtain b where "wire l' = wire l @ upload_wire d (blob_spec st) ''kernelcache-symbols'' b"
    using load_symbols_wire [OF sym st fits(2) mem(1), of d l] run by auto
  then have data: "data = pipe_bytes (blob_spec st)"
    using sent by (auto simp: upload_wire_def command_request_def split: if_splits)
  have "serialised st (region_of (blob_spec st)) (length (blob_spec st))"
    using st fits(2) by (simp add: serialised_def holds_def rslice_region_of)
  then have "length (blob_spec st) < 4294967296" by (rule serialised_size(2))
  then have "data = blob_spec st" by (simp add: data pipe_bytes_def)
  then have s: "serialised st (loader_xfer_recv_data ps) (unat (loader_xfer_recv_count ps))"
    using st fits(2) got by (simp add: serialised_def)
  obtain i where i: "i < length (kcs st)" "kcs_abs st ! i = (current_uuid ps, t)"
    using kernel(1) by (auto simp: abs [symmetric] in_set_conv_nth kcs_abs_def)
  have kc: "kc_inv (symstr st) (kcs st ! i)"
    using st(1) i(1) by (simp add: kcs_inv_def)
  have u: "current_uuid ps = uuid (kcs st ! i)" and t: "t = map (\<lambda>s. (sym_name (symstr st) (unat (off s)), addr s)) (syms (kcs st ! i))"
    using i by (simp_all add: kcs_abs_def kc_abs_def)
  have "symstr st \<noteq> []"
    using kc kernel(2) by (cases "syms (kcs st ! i)") (auto simp: t kc_inv_def sym_ok_def)
  note lookup = serialised_lookup [where malloc = allocate, OF got(1) s i(1) u this mem(2)]
  have "unat (symcnt (kcs st ! i)) = length t" using kc by (simp add: kc_inv_def t)
  with lookup show ?thesis unfolding i(2) snd_conv by blast
qed

theorem symbols_end_to_end_witness:
  "\<exists>n ps'. command_kernelcache_symbols sample_malloc sample_pongo = Some (Inr n, ps')
     \<and> kernelcache_symbol_table_lookup ps' (bytes_of ''foo'') = Some 5"
proof -
  let ?d = "inst_device sample_instance"
  have le: "host sample_loader = sample_os" "kernelcache_symbols_path sample_config = [''x'', ''d'']"
    "io sample_loader = ready_io"
    by (simp_all add: sample_loader_def sample_config_def)
  have sym: "fst (kcs_update_directories (host sample_loader) (kernelcache_symbols_path sample_config) kcs_empty)
      = Inr sample_state"
    by (simp only: le sample_directories)
  have os: "os_sound (host sample_loader)" "os_small (host sample_loader)"
    using sample_os_ok by (simp_all add: le)
  have mem: "snd (io sample_loader l (malloc n)) \<noteq> 0" "sample_malloc k \<noteq> None" for l n k
    by (simp_all add: le ready_io_def sample_malloc_def)
  obtain b l' where run: "pongo_kext_load_symbols sample_loader sample_config ?d [] = (Inr True, l')"
    "wire l' = wire [] @ upload_wire ?d (blob_spec sample_state) ''kernelcache-symbols'' b"
    using load_symbols_wire [OF sym sample_state_ok(1,2,4) mem(1)] by blast
  have sent: "WritePipe (interface ?d) 2 (blob_spec sample_state)
      \<in> set (upload_wire ?d (blob_spec sample_state) ''kernelcache-symbols'' b)"
    by (simp add: upload_wire_def pipe_bytes_def sample_upload_length)
  have got: "holds (loader_xfer_recv_data sample_pongo) 0 (blob_spec sample_state)"
    "unat (loader_xfer_recv_count sample_pongo) = length (blob_spec sample_state)"
    using sample_serialised by (simp_all add: serialised_def)
  have abs: "kcs_abs sample_state = fold spec_file (all_texts (host sample_loader) (kernelcache_symbols_path sample_config)) []"
    using kcs_update_directories_spec [OF sym os kcs_inv_empty sample_state_ok(3)] by (simp add: kcs_abs_def kcs_empty_def)
  have "kcs_abs sample_state = [(sample_uuid, [(''_foo'', 0xFFFFFFF007004000), (''foo'', 5)])]"
    by code_simp
  moreover have "current_uuid sample_pongo = sample_uuid" by code_simp
  ultimately have kernel: "(current_uuid sample_pongo, [(''_foo'', 0xFFFFFFF007004000), (''foo'', 5)])
      \<in> set (fold spec_file (all_texts (host sample_loader) (kernelcache_symbols_path sample_config)) [])"
    by (simp add: abs [symmetric])
  obtain n ps' where ps': "command_kernelcache_symbols sample_malloc sample_pongo = Some (Inr n, ps')"
    "\<forall>nm. CHR 0x00 \<notin> set nm \<longrightarrow> kernelcache_symbol_table_lookup ps' (bytes_of nm) =
       (case map_of [(''_foo'', 0xFFFFFFF007004000), (''foo'', 5)] nm of
          Some a \<Rightarrow> Some a | None \<Rightarrow> kernelcache_symbol_table_lookup sample_pongo (bytes_of nm))"
    using symbols_end_to_end [where allocate = sample_malloc, OF sym os sample_state_ok(3,4) mem run sent
        sample_pongo_ok got kernel] by blast
  have "kernelcache_symbol_table_lookup ps' (bytes_of ''foo'') = Some 5"
    by (rule trans [OF ps'(2) [rule_format]]) simp_all
  with ps'(1) show ?thesis by blast
qed

section \<open>From the extension files to the kernelcache\<close>

text \<open>C5: whenever the loader reports an instance loaded, the requests it made
  for the \<open>kextload\<close> command are one for each extension file of the command line, in order; when the
  module receives for each request exactly the bytes written, whatever else its buffer holds, and the files
  are acceptable to it, all of them are loaded and the kernelcache lists their dictionaries in
  that order.\<close>

theorem extensions_end_to_end:
  assumes run: "pongo_instance_load_kext le cfg i l = (Inr True, l')" and sent: "wire l' = wire l @ w"
    and got: "list_all2 received us (kextload_requests (inst_device i) None w)"
    and ready: "pongo_ok ps"
    and files: "loadable_files (kernelcache_symbol_table_lookup ps) (host le) allocs (kext_path cfg) xs"
    and slack: "prelink_slack (e_mh env) (e_slide env) (mh_execute_header ps) sec b old z (length (kext_path cfg))"
    and sec: "\<And>r. e_get_section env r = Some sec" "32 \<le> sec" "32 \<le> b"
  shows "length us = length (kext_path cfg)
    \<and> (\<exists>rs ps'. kextload_session env (zip allocs us) (ps, kid) = Some (rs, ps', kid + word_of_nat (length us))
         \<and> list_all2 (\<lambda>res x. \<exists>k. res = Kext_loaded k (loaded_info x) True) rs xs
         \<and> prelink_section (e_mh env) (e_slide env) (mh_execute_header ps') sec b (old @ loaded_dicts (e_mh env) kid xs) z)"
proof (rule instance_load_requests [OF run sent])
  fix bs
  assume bs: "length bs = length (kext_path cfg)" "writes_succeed (io le) \<longrightarrow> bs = replicate (length bs) False"
    and req: "kextload_requests (inst_device i) None w
      = map2 (\<lambda>p b. if b then None else Some (pipe_bytes (file_bytes (host le) p))) (kext_path cfg) bs"
  have look: "total_lookup (kernelcache_symbol_table_lookup ps)"
    using kernelcache.resolve_Some [OF ready] by (force simp: total_lookup_def)
  note load = loadable_files_received [OF look files bs(1) got [unfolded req]]
  have "length us = length (kext_path cfg)"
    using got [unfolded req] bs by (auto dest!: list_all2_lengthD)
  with load session_loads [OF load(1) refl ready slack [folded load(2)] sec, of kid]
  show ?thesis by auto
qed

text \<open>The sample extension in a file.\<close>

definition kext_file_text :: string where
  "kext_file_text = map (\<lambda>b. char_of (unat b)) (rslice kext_upload 0 16384)"

definition kext_os :: host_os where
  "kext_os = \<lparr>os_open = (\<lambda>p. if p = ''k'' then Some 3 else None), os_fstat = (\<lambda>_. Some 16384),
     os_mmap = (\<lambda>_ _. Some kext_file_text), os_opendir = (\<lambda>_. None)\<rparr>"

definition kext_loader :: loader_env where
  "kext_loader = sample_loader\<lparr>host := kext_os\<rparr>"

definition kext_config :: loader_config where
  "kext_config = \<lparr>pongo_kextload_path = ''k'', kernelcache_symbols_path = [''d''], kext_path = [''k'', ''k'']\<rparr>"

lemma bytes_of_char_of [simp]: "bytes_of (map (\<lambda>b. char_of (unat b)) bs) = bs"
proof -
  have "of_char (char_of (unat b)) = b" for b :: u8
    using of_nat_of_char [where 'a = u8, of "char_of (unat b)", symmetric] unat_u8_less [of b]
    by (simp add: take_bit_nat_eq_self)
  then show ?thesis by (simp add: o_def)
qed

lemma kext_os_file:
  "map_file kext_os ''k'' = (Some (kext_file_text, 16384), [Open_fd 3, Map_data kext_file_text 16384, Close_fd 3])"
  "file_bytes kext_os ''k'' = rslice kext_upload 0 16384"
proof -
  show *: "map_file kext_os ''k'' = (Some (kext_file_text, 16384), [Open_fd 3, Map_data kext_file_text 16384, Close_fd 3])"
    by (simp add: map_file_def kext_os_def)
  have "length kext_file_text = 16384" by (simp add: kext_file_text_def)
  then show "file_bytes kext_os ''k'' = rslice kext_upload 0 16384"
    by (simp add: file_bytes_def * mapped_bytes_def) (simp only: kext_file_text_def bytes_of_char_of)
qed

lemma kext_loader_run:
  obtains l' where "pongo_instance_load_kext kext_loader kext_config sample_instance [] = (Inr True, l')"
proof -
  have "fst (map_file (host kext_loader) p) \<noteq> None" if "p = ''k''" for p
    using that by (simp add: kext_loader_def kext_os_file)
  moreover have "fst (kcs_update_directories (host kext_loader) (kernelcache_symbols_path kext_config) kcs_empty) = Inr kcs_empty"
    by (simp add: kext_loader_def kext_config_def kext_os_def kernelcache_symbol_table_update_directory_def)
  moreover have "kcs_max_ok kcs_empty" "blob_bound kcs_empty < 4294967296"
    by (simp_all add: kcs_max_ok_def blob_bound_def kcs_empty_def)
  moreover have "snd (io kext_loader l (malloc n)) \<noteq> 0" for l n
    by (simp add: kext_loader_def sample_loader_def ready_io_def)
  ultimately show thesis
    using instance_load_wire [of kext_loader kext_config kcs_empty sample_instance "[]"] kcs_inv_empty
    by (auto simp: kext_config_def intro: that)
qed

text \<open>The buffer of the module holds more than the file.\<close>

definition kext_buffers :: "(region \<times> u32) list" where
  "kext_buffers = [(kext_upload\<lparr>rsize := 65536\<rparr>, 0x4000), (kext_upload, 0x4000)]"

definition kext_allocs :: "static_allocator list" where
  "kext_allocs = [\<lambda>_. Some (0x5000, \<lambda>_. 0), \<lambda>_. Some (0x9000, \<lambda>_. 0)]"

lemma kext_file_upload:
  "pipe_bytes (file_bytes kext_os ''k'') = rslice kext_upload 0 16384"
  "uploaded_file kext_os ''k'' = (region_of (rslice kext_upload 0 16384), 0x4000)"
  by (simp_all add: uploaded_file_def Let_def kext_os_file pipe_bytes_def)

lemma kext_files_loadable:
  "loadable_files (kernelcache_symbol_table_lookup session_pongo) kext_os kext_allocs [''k'', ''k'']
     [(uploaded_info, 0x5000), (uploaded_info, 0x9000)]"
proof -
  have look: "total_lookup (kernelcache_symbol_table_lookup session_pongo)"
    using kernelcache.resolve_Some [OF session_pongo_ok] by (force simp: total_lookup_def)
  have "same_prefix 16384 kext_upload (region_of (rslice kext_upload 0 16384))"
    by (simp add: same_prefix_def)
  then have "loadable (kernelcache_symbol_table_lookup session_pongo) (alloc, uploaded_file kext_os ''k'') x"
    if "loadable (kernelcache_symbol_table_lookup session_pongo) (alloc, kext_upload, 0x4000) x" for alloc x
    using loadable_prefix [OF look that] by (simp add: kext_file_upload)
  with session_loadable show ?thesis
    by (simp add: loadable_files_def kext_allocs_def session_uploads_def)
qed

theorem extensions_end_to_end_witness:
  "\<exists>rs ps'. kextload_session session_env (zip kext_allocs kext_buffers) (session_pongo, 0) = Some (rs, ps', 2)
     \<and> list_all2 (\<lambda>res x. \<exists>k. res = Kext_loaded k (loaded_info x) True) rs [(uploaded_info, 0x5000), (uploaded_info, 0x9000)]"
proof -
  obtain l' where run: "pongo_instance_load_kext kext_loader kext_config sample_instance [] = (Inr True, l')"
    by (rule kext_loader_run)
  have le: "host kext_loader = kext_os" "kext_path kext_config = [''k'', ''k'']"
    by (simp_all add: kext_loader_def kext_config_def)
  have "writes_succeed (io kext_loader)"
    by (simp add: writes_succeed_def kext_loader_def sample_loader_def ready_io_def kIOReturnSuccess_def)
  then have req: "kextload_requests (inst_device sample_instance) None (wire l')
      = [Some (rslice kext_upload 0 16384), Some (rslice kext_upload 0 16384)]"
    using instance_load_requests [OF run, of "wire l'"]
    by (auto simp: le kext_file_upload)
  have "holds f 0 (rslice kext_upload 0 16384)" if "rbyte f = rbyte kext_upload" "16384 \<le> rsize f" for f
    using that by (simp add: holds_def rslice_def)
  then have got: "list_all2 received kext_buffers (kextload_requests (inst_device sample_instance) None (wire l'))"
    by (simp add: req kext_buffers_def received_def) (simp add: kext_upload_def)
  have files: "loadable_files (kernelcache_symbol_table_lookup session_pongo) (host kext_loader) kext_allocs (kext_path kext_config)
      [(uploaded_info, 0x5000), (uploaded_info, 0x9000)]"
    using kext_files_loadable by (simp add: le)
  have slack: "prelink_slack (e_mh session_env) (e_slide session_env) (mh_execute_header session_pongo) 32 128
      (bytes_of ''<array>'') 0 (length (kext_path kext_config))"
    using session_room(1) by (simp add: le numeral_2_eq_2)
  have "wire l' = wire [] @ wire l'" by simp
  note loads = extensions_end_to_end [OF run this got session_pongo_ok files slack session_room(2), of 0]
  have "length kext_buffers = 2" by (simp add: kext_buffers_def)
  with loads show ?thesis by auto
qed

end
